(* ===== verification/MQ_Prelude.thy ===== *)
theory MQ_Prelude
  imports Main "HOL-Library.Word" "HOL-Library.AList"
begin

text \<open>
  Shared vocabulary of the development: the Go integer conversions the library relies
  on, byte buffers and \<^verbatim>\<open>copy\<close>, list lemmas used by several components, the fact
  collections of the development, and labelled transition systems with their
  reachable states (used for the registry, the sender pool, the listener, concurrent
  request-reply calls and an example program).
\<close>

named_theorems go_simps \<open>executable equations of the modelled Go standard library\<close>

named_theorems inv_intros \<open>an operation of a component keeps its invariant\<close>

type_synonym byte = "8 word"

type_synonym bytes = "byte list"

type_synonym duration = int

subsection \<open>Durations and integer conversions\<close>

text \<open>
  \<^verbatim>\<open>time.Duration\<close> is an \<^verbatim>\<open>int64\<close> number of nanoseconds. Values are kept as
  integers; every conversion or sum whose wrap-around matters goes through
  \<^term>\<open>signed_take_bit\<close>, the two's complement truncation of Go.
\<close>

definition millisecond :: duration where
  "millisecond = 1000000"

definition second :: duration where
  "second = 1000000000"

definition go_int32 :: "int \<Rightarrow> int" where
  "go_int32 x = signed_take_bit 31 x"

definition go_int64 :: "int \<Rightarrow> int" where
  "go_int64 x = signed_take_bit 63 x"

definition in_int64 :: "int \<Rightarrow> bool" where
  "in_int64 x \<longleftrightarrow> - (2 ^ 63) \<le> x \<and> x < 2 ^ 63"

definition in_int32 :: "int \<Rightarrow> bool" where
  "in_int32 x \<longleftrightarrow> - (2 ^ 31) \<le> x \<and> x < 2 ^ 31"

text \<open>Go's integer division truncates towards zero.\<close>

definition go_quot :: "int \<Rightarrow> int \<Rightarrow> int" where
  "go_quot a b = sgn a * sgn b * (\<bar>a\<bar> div \<bar>b\<bar>)"

text \<open>\<^verbatim>\<open>copy(dst, src)\<close> overwrites the first \<open>min\<close> of the two lengths.\<close>

definition go_copy :: "'a list \<Rightarrow> 'a list \<Rightarrow> 'a list" where
  "go_copy dst src = take (length dst) src @ drop (length src) dst"

text \<open>A call into user code returns a value or panics with a printable value.\<close>

datatype 'a outcome = Returns 'a | Panics string

subsection \<open>Labelled transition systems\<close>

text \<open>
  A concurrent component is a partial step function on labels: the label names the
  goroutine that moves and what its environment answers, \<^term>\<open>None\<close> means the
  step is not enabled.
\<close>

fun run_steps :: "('l \<Rightarrow> 's \<Rightarrow> 's option) \<Rightarrow> 'l list \<Rightarrow> 's \<Rightarrow> 's option" where
  "run_steps step [] s = Some s"
| "run_steps step (l # ls) s =
     (case step l s of None \<Rightarrow> None | Some t \<Rightarrow> run_steps step ls t)"

inductive reachable :: "('l \<Rightarrow> 's \<Rightarrow> 's option) \<Rightarrow> ('s \<Rightarrow> bool) \<Rightarrow> 's \<Rightarrow> bool"
  for step init where
  start: "init s \<Longrightarrow> reachable step init s"
| move: "reachable step init s \<Longrightarrow> step l s = Some t \<Longrightarrow> reachable step init t"

lemma run_steps_append:
  "run_steps step (ks @ ls) s = Option.bind (run_steps step ks s) (run_steps step ls)"
  by (induction ks arbitrary: s) (auto split: option.splits)

lemma run_steps_trans:
  "run_steps step ks s = Some t \<Longrightarrow> run_steps step ls t = Some u \<Longrightarrow> run_steps step (ks @ ls) s = Some u"
  by (simp add: run_steps_append)

lemma reachable_run:
  "reachable step init s \<Longrightarrow> run_steps step ls s = Some t \<Longrightarrow> reachable step init t"
  by (induction ls arbitrary: s) (auto split: option.splits intro: reachable.move)

lemma reachable_iff_run:
  "reachable step init t \<longleftrightarrow> (\<exists>s ls. init s \<and> run_steps step ls s = Some t)"
proof
  assume "reachable step init t"
  then show "\<exists>s ls. init s \<and> run_steps step ls s = Some t"
  proof (induction rule: reachable.induct)
    case (start s)
    then have "run_steps step [] s = Some s" by simp
    with start show ?case by blast
  next
    case (move s l t)
    then obtain s0 ls where "init s0" "run_steps step ls s0 = Some s" by blast
    with move.hyps(2) have "run_steps step (ls @ [l]) s0 = Some t"
      by (simp add: run_steps_append)
    with \<open>init s0\<close> show ?case by blast
  qed
next
  assume "\<exists>s ls. init s \<and> run_steps step ls s = Some t"
  then show "reachable step init t"
    by (blast intro: reachable_run reachable.start)
qed

text \<open>The interface between an invariant and the system it is an invariant of.\<close>

locale invariant_system =
  fixes step :: "'l \<Rightarrow> 's \<Rightarrow> 's option"
    and init :: "'s \<Rightarrow> bool"
    and inv :: "'s \<Rightarrow> bool"
  assumes inv_init: "init s \<Longrightarrow> inv s"
    and inv_step: "inv s \<Longrightarrow> step l s = Some t \<Longrightarrow> inv t"
begin

lemma inv_reachable: "reachable step init s \<Longrightarrow> inv s"
  by (induction rule: reachable.induct) (auto intro: inv_init inv_step)

lemma inv_run: "inv s \<Longrightarrow> run_steps step ls s = Some t \<Longrightarrow> inv t"
  by (induction ls arbitrary: s) (auto split: option.splits intro: inv_step)

end

text \<open>
  A system that runs down once it is closing: every step then lowers a rank, so that every
  run is bounded.
\<close>

locale draining_system = invariant_system +
  fixes rank :: "'b \<Rightarrow> nat"
    and closing :: "'b \<Rightarrow> bool"
  assumes closing_step: "closing s \<Longrightarrow> step l s = Some t \<Longrightarrow> closing t"
    and rank_step: "inv s \<Longrightarrow> closing s \<Longrightarrow> step l s = Some t \<Longrightarrow> rank t < rank s"
begin

lemma run_bounded:
  "inv s \<Longrightarrow> closing s \<Longrightarrow> run_steps step ls s = Some t \<Longrightarrow> length ls + rank t \<le> rank s"
proof (induction ls arbitrary: s)
  case Nil
  then show ?case by simp
next
  case (Cons l ls)
  then obtain u where u: "step l s = Some u" "run_steps step ls u = Some t" by (auto split: option.splits)
  with Cons.IH [of u] Cons.prems(1,2) inv_step closing_step have "length ls + rank t \<le> rank u" by blast
  with rank_step [OF Cons.prems(1,2) u(1)] show ?case by simp
qed

end

subsection \<open>Integer conversions\<close>

lemma go_int32_id [simp]: "in_int32 x \<Longrightarrow> go_int32 x = x"
  by (simp add: go_int32_def in_int32_def signed_take_bit_int_eq_self)

lemma go_int64_id [simp]: "in_int64 x \<Longrightarrow> go_int64 x = x"
  by (simp add: go_int64_def in_int64_def signed_take_bit_int_eq_self)

lemma go_int32_range: "in_int32 (go_int32 x)"
  unfolding go_int32_def in_int32_def
  using signed_take_bit_int_less_exp [of 31 x] signed_take_bit_int_greater_eq_minus_exp [of 31 x]
  by simp

lemma go_int64_range: "in_int64 (go_int64 x)"
  unfolding go_int64_def in_int64_def
  using signed_take_bit_int_less_exp [of 63 x] signed_take_bit_int_greater_eq_minus_exp [of 63 x]
  by simp

lemma go_quot_nonneg [simp]: "0 \<le> a \<Longrightarrow> 0 < b \<Longrightarrow> go_quot a b = a div b"
  by (cases "a = 0") (auto simp: go_quot_def)

subsection \<open>Buffers and lists\<close>

lemma length_go_copy [simp]: "length (go_copy dst src) = length dst"
  by (simp add: go_copy_def)

lemma go_copy_full: "length src = length dst \<Longrightarrow> go_copy dst src = src"
  by (simp add: go_copy_def)

lemma go_copy_short:
  "length src \<le> length dst \<Longrightarrow> go_copy dst src = src @ drop (length src) dst"
  by (simp add: go_copy_def)

lemma sum_list_map_update:
  fixes f :: "'a \<Rightarrow> 'b :: comm_monoid_add"
  assumes "i < length xs"
  shows "sum_list (map f (xs[i := y])) + f (xs ! i) = sum_list (map f xs) + f y"
  using assms
proof (induction xs arbitrary: i)
  case Nil
  then show ?case by simp
next
  case (Cons x xs)
  show ?case
  proof (cases i)
    case 0
    then show ?thesis by (simp add: ac_simps)
  next
    case (Suc j)
    with Cons.prems have "j < length xs" by simp
    from Cons.IH [OF this] Suc show ?thesis by (simp add: add.assoc)
  qed
qed

lemma sum_list_map_zero: "(\<And>x. x \<in> set xs \<Longrightarrow> f x = (0 :: 'b :: comm_monoid_add)) \<Longrightarrow> sum_list (map f xs) = 0"
  by (induction xs) simp_all

lemma balance_cancel:
  fixes a b :: "'a :: cancel_comm_monoid_add"
  assumes "a + q = b + p" and "p + x = q + y"
  shows "a + x = b + y"
proof -
  have "(a + x) + q = (a + q) + x" by (simp add: ac_simps)
  also have "\<dots> = b + (p + x)" by (simp add: assms(1) ac_simps)
  also have "\<dots> = (b + y) + q" by (simp add: assms(2) ac_simps)
  finally show ?thesis by (rule add_right_imp_eq)
qed

lemma count_update:
  assumes "i < length xs"
  shows "length (filter P (xs[i := y])) + (if P (xs ! i) then 1 else 0) =
    length (filter P xs) + (if P y then 1 else 0)"
  using assms
proof (induction xs arbitrary: i)
  case Nil
  then show ?case by simp
next
  case (Cons x xs)
  show ?case
  proof (cases i)
    case 0
    then show ?thesis by simp
  next
    case (Suc j)
    with Cons.prems have "j < length xs" by simp
    from Cons.IH [OF this] Suc show ?thesis by auto
  qed
qed

end
