(* ===== verification/Go_Channel.thy ===== *)
theory Go_Channel
  imports MQ_Prelude
begin

text \<open>
  Buffered Go channels, as far as the library uses them: \<^verbatim>\<open>make(chan T, n)\<close>, the
  non-blocking send and receive of a \<^verbatim>\<open>select\<close> with a \<^verbatim>\<open>default\<close> branch
  (\<^term>\<open>None\<close> is the default branch), which are also the enabled cases of the blocking
  operations. The sender's connection pool and the registry's response channels are
  such channels; neither is ever closed.
\<close>

record 'a chan =
  chan_cap :: nat
  chan_buf :: "'a list"

definition make_chan :: "nat \<Rightarrow> 'a chan" where
  "make_chan n = \<lparr>chan_cap = n, chan_buf = []\<rparr>"

definition try_send :: "'a \<Rightarrow> 'a chan \<Rightarrow> 'a chan option" where
  "try_send x c =
     (if length (chan_buf c) < chan_cap c then Some (c\<lparr>chan_buf := chan_buf c @ [x]\<rparr>) else None)"

definition try_recv :: "'a chan \<Rightarrow> ('a \<times> 'a chan) option" where
  "try_recv c =
     (case chan_buf c of [] \<Rightarrow> None | x # xs \<Rightarrow> Some (x, c\<lparr>chan_buf := xs\<rparr>))"

definition chan_ok :: "'a chan \<Rightarrow> bool" where
  "chan_ok c \<longleftrightarrow> length (chan_buf c) \<le> chan_cap c"

text \<open>The contract of a bounded FIFO buffer, which the channel operations provide.\<close>

locale bounded_fifo =
  fixes mk :: "nat \<Rightarrow> 'q"
    and send :: "'a \<Rightarrow> 'q \<Rightarrow> 'q option"
    and recv :: "'q \<Rightarrow> ('a \<times> 'q) option"
    and cap :: "'q \<Rightarrow> nat"
    and buf :: "'q \<Rightarrow> 'a list"
    and ok :: "'q \<Rightarrow> bool"
  assumes mk_buf: "buf (mk n) = []"
    and mk_cap: "cap (mk n) = n"
    and ok_mk: "ok (mk n)"
    and ok_len: "ok q \<Longrightarrow> length (buf q) \<le> cap q"
    and send_None: "send x q = None \<longleftrightarrow> cap q \<le> length (buf q)"
    and send_Some: "send x q = Some r \<Longrightarrow> buf r = buf q @ [x] \<and> cap r = cap q \<and> ok r"
    and recv_None: "recv q = None \<longleftrightarrow> buf q = []"
    and recv_Some: "recv q = Some (x, r) \<Longrightarrow> buf q = x # buf r \<and> cap r = cap q"
    and ok_recv: "ok q \<Longrightarrow> recv q = Some (x, r) \<Longrightarrow> ok r"
begin

lemma recv_of_send:
  assumes "buf q = []" and "send x q = Some r"
  obtains r' where "recv r = Some (x, r')" and "buf r' = []"
proof -
  from send_Some [OF assms(2)] assms(1) have r: "buf r = [x]" by simp
  then have "recv r \<noteq> None" by (simp add: recv_None)
  then obtain y r' where yr: "recv r = Some (y, r')" by auto
  from recv_Some [OF yr] r have "y = x" "buf r' = []" by auto
  with yr that show ?thesis by simp
qed

lemma send_enabled: "length (buf q) < cap q \<Longrightarrow> \<exists>r. send x q = Some r"
  using send_None [of x q] by (cases "send x q") auto

lemma fresh_accepts: "0 < n \<Longrightarrow> \<exists>r. send x (mk n) = Some r"
  by (rule send_enabled) (simp add: mk_buf mk_cap)

end

interpretation chan: bounded_fifo make_chan try_send try_recv chan_cap chan_buf chan_ok
  by unfold_locales
    (auto simp: make_chan_def try_send_def try_recv_def chan_ok_def
      split: if_splits list.splits)

lemma make_chan_simps [simp]:
  "chan_buf (make_chan n) = []" "chan_cap (make_chan n) = n" "chan_ok (make_chan n)"
  by (rule chan.mk_buf chan.mk_cap chan.ok_mk)+

lemma try_send_cap: "try_send x c = Some d \<Longrightarrow> chan_cap d = chan_cap c"
  by (drule chan.send_Some) simp

end
