(* ===== verification/Correlation_Registry.thy ===== *)
theory Correlation_Registry
  imports Go_Channel
begin

text \<open>
  The correlation registry of \<^verbatim>\<open>src/internal/correlation/registry.go\<close>: a map from
  correlation IDs to response channels of capacity one. Channels are shared by
  reference (the caller of \<^verbatim>\<open>Register\<close> keeps its channel after \<^verbatim>\<open>Deregister\<close>), so
  the model has a heap of channels and a channel is its index there. \<^verbatim>\<open>Deliver\<close> looks
  the channel up under the read lock and sends after releasing it; the concurrent
  model at the end of the theory keeps the two halves apart.
\<close>

record 'm registry =
  pending :: "(string \<times> nat) list"
  chans :: "'m chan list"

definition NewRegistry :: "'m registry" where
  "NewRegistry = \<lparr>pending = [], chans = []\<rparr>"

definition Register :: "string \<Rightarrow> 'm registry \<Rightarrow> nat \<times> 'm registry" where
  "Register correlID r =
     (let ch = length (chans r) in
      (ch, r\<lparr>chans := chans r @ [make_chan 1],
             pending := AList.update correlID ch (pending r)\<rparr>))"

definition Deliver_lookup :: "string \<Rightarrow> 'm registry \<Rightarrow> nat option" where
  "Deliver_lookup correlID r = map_of (pending r) correlID"

definition Deliver_send :: "nat \<Rightarrow> 'm \<Rightarrow> 'm registry \<Rightarrow> 'm registry" where
  "Deliver_send ch msg r =
     (case try_send msg (chans r ! ch) of
        Some c \<Rightarrow> r\<lparr>chans := (chans r)[ch := c]\<rparr>
      | None \<Rightarrow> r)"

definition Deliver :: "string \<Rightarrow> 'm \<Rightarrow> 'm registry \<Rightarrow> 'm registry" where
  "Deliver correlID msg r =
     (case Deliver_lookup correlID r of
        None \<Rightarrow> r
      | Some ch \<Rightarrow> Deliver_send ch msg r)"

definition Deregister :: "string \<Rightarrow> 'm registry \<Rightarrow> 'm registry" where
  "Deregister correlID r = r\<lparr>pending := AList.delete correlID (pending r)\<rparr>"

definition Len :: "'m registry \<Rightarrow> int" where
  "Len r = int (length (pending r))"

text \<open>The caller's receive on the channel it was given; \<^term>\<open>None\<close> is blocking.\<close>

definition await_reply :: "nat \<Rightarrow> 'm registry \<Rightarrow> ('m \<times> 'm registry) option" where
  "await_reply ch r =
     map_option (\<lambda>(x, c). (x, r\<lparr>chans := (chans r)[ch := c]\<rparr>)) (try_recv (chans r ! ch))"

subsection \<open>Abstract specification: one-place mailboxes\<close>

type_synonym 'm mailboxes = "string \<Rightarrow> 'm option option"

definition mbox_register :: "string \<Rightarrow> 'm mailboxes \<Rightarrow> 'm mailboxes" where
  "mbox_register k m = m(k \<mapsto> None)"

definition mbox_deliver :: "string \<Rightarrow> 'm \<Rightarrow> 'm mailboxes \<Rightarrow> 'm mailboxes" where
  "mbox_deliver k x m = (if m k = Some None then m(k \<mapsto> Some x) else m)"

definition mbox_deregister :: "string \<Rightarrow> 'm mailboxes \<Rightarrow> 'm mailboxes" where
  "mbox_deregister k m = m(k := None)"

definition mailbox_of :: "'m chan \<Rightarrow> 'm option" where
  "mailbox_of c = (case chan_buf c of [] \<Rightarrow> None | x # _ \<Rightarrow> Some x)"

definition abs_registry :: "'m registry \<Rightarrow> 'm mailboxes" where
  "abs_registry r k = map_option (\<lambda>ch. mailbox_of (chans r ! ch)) (map_of (pending r) k)"

definition registry_ok :: "'m registry \<Rightarrow> bool" where
  "registry_ok r \<longleftrightarrow>
     distinct (map fst (pending r)) \<and>
     inj_on (map_of (pending r)) (dom (map_of (pending r))) \<and>
     (\<forall>k ch. map_of (pending r) k = Some ch \<longrightarrow> ch < length (chans r)) \<and>
     (\<forall>c \<in> set (chans r). chan_cap c = 1 \<and> chan_ok c)"

subsection \<open>Goroutines: lookups and sends interleave with everything else\<close>

text \<open>
  A message carries the correlation ID it was delivered under. \<^term>\<open>owner\<close> records, for
  every channel, the ID it was registered for; \<^term>\<open>inflight\<close> holds the deliveries
  between the lookup and the send.
\<close>

record 'p reg_sys =
  reg :: "(string \<times> 'p) registry"
  owner :: "string list"
  inflight :: "(nat \<times> string \<times> 'p) list"

datatype 'p reg_label =
    LRegister string
  | LLookup string 'p
  | LSend nat
  | LDeregister string
  | LRecv nat

fun reg_step :: "'p reg_label \<Rightarrow> 'p reg_sys \<Rightarrow> 'p reg_sys option" where
  "reg_step (LRegister k) s =
     Some (s\<lparr>reg := snd (Register k (reg s)), owner := owner s @ [k]\<rparr>)"
| "reg_step (LLookup k x) s =
     (case Deliver_lookup k (reg s) of
        None \<Rightarrow> Some s
      | Some ch \<Rightarrow> Some (s\<lparr>inflight := inflight s @ [(ch, k, x)]\<rparr>))"
| "reg_step (LSend i) s =
     (if i < length (inflight s)
      then (case inflight s ! i of (ch, m) \<Rightarrow>
              Some (s\<lparr>reg := Deliver_send ch m (reg s),
                      inflight := take i (inflight s) @ drop (Suc i) (inflight s)\<rparr>))
      else None)"
| "reg_step (LDeregister k) s = Some (s\<lparr>reg := Deregister k (reg s)\<rparr>)"
| "reg_step (LRecv ch) s =
     (if ch < length (chans (reg s))
      then map_option (\<lambda>(m, r). s\<lparr>reg := r\<rparr>) (await_reply ch (reg s))
      else None)"

definition reg_init :: "'p reg_sys \<Rightarrow> bool" where
  "reg_init s \<longleftrightarrow> s = \<lparr>reg = NewRegistry, owner = [], inflight = []\<rparr>"

definition reg_inv :: "'p reg_sys \<Rightarrow> bool" where
  "reg_inv s \<longleftrightarrow>
     registry_ok (reg s) \<and>
     length (owner s) = length (chans (reg s)) \<and>
     (\<forall>k ch. map_of (pending (reg s)) k = Some ch \<longrightarrow> owner s ! ch = k) \<and>
     (\<forall>ch k x. (ch, k, x) \<in> set (inflight s) \<longrightarrow> ch < length (owner s) \<and> owner s ! ch = k) \<and>
     (\<forall>ch < length (owner s). \<forall>m \<in> set (chan_buf (chans (reg s) ! ch)). fst m = owner s ! ch)"

subsection \<open>Sequential behaviour\<close>

lemma Register_simps [simp]:
  "fst (Register k r) = length (chans r)"
  "pending (snd (Register k r)) = AList.update k (length (chans r)) (pending r)"
  "chans (snd (Register k r)) = chans r @ [make_chan 1]"
  by (simp_all add: Register_def Let_def)

lemma Deregister_simps [simp]:
  "pending (Deregister k r) = AList.delete k (pending r)"
  "chans (Deregister k r) = chans r"
  by (simp_all add: Deregister_def)

lemma registry_okD:
  assumes "registry_ok r" and "map_of (pending r) k = Some ch"
  shows "ch < length (chans r)" and "chan_cap (chans r ! ch) = 1" and "chan_ok (chans r ! ch)"
  using assms unfolding registry_ok_def by (metis nth_mem)+

lemma registry_ok_new [inv_intros]: "registry_ok NewRegistry"
  by (simp add: registry_ok_def NewRegistry_def)

lemma registry_ok_register [inv_intros]:
  assumes ok: "registry_ok r"
  shows "registry_ok (snd (Register k r))"
proof -
  let ?m = "map_of (pending r)" and ?n = "length (chans r)"
  have lt: "?m j = Some ch \<Longrightarrow> ch < ?n" for j ch
    using ok by (simp add: registry_ok_def)
  then have fresh: "?m j \<noteq> Some ?n" for j by blast
  have inj: "inj_on (?m(k \<mapsto> ?n)) (dom (?m(k \<mapsto> ?n)))"
  proof (rule inj_onI)
    fix i j
    assume ij: "i \<in> dom (?m(k \<mapsto> ?n))" "j \<in> dom (?m(k \<mapsto> ?n))"
      and eq: "(?m(k \<mapsto> ?n)) i = (?m(k \<mapsto> ?n)) j"
    from ok have "inj_on ?m (dom ?m)" by (simp add: registry_ok_def)
    with ij eq fresh show "i = j"
      by (metis domIff fun_upd_apply inj_onD)
  qed
  moreover have "distinct (map fst (AList.update k ?n (pending r)))"
    using ok by (simp add: registry_ok_def distinct_update)
  moreover have "(?m(k \<mapsto> ?n)) j = Some ch \<Longrightarrow> ch < Suc ?n" for j ch
    using lt [of j ch] by (auto split: if_splits)
  ultimately show ?thesis
    using ok by (auto simp: registry_ok_def update_conv')
qed

lemma Deliver_send_chans:
  "ch < length (chans r) \<Longrightarrow>
   chans (Deliver_send ch m r) =
     (case try_send m (chans r ! ch) of Some c \<Rightarrow> (chans r)[ch := c] | None \<Rightarrow> chans r)"
  by (simp add: Deliver_send_def split: option.splits)

lemma Deliver_send_pending [simp]: "pending (Deliver_send ch m r) = pending r"
  by (simp add: Deliver_send_def split: option.splits)

lemma registry_ok_send [inv_intros]:
  assumes "registry_ok r"
  shows "registry_ok (Deliver_send ch m r)"
proof (cases "try_send m (chans r ! ch)")
  case None
  with assms show ?thesis by (simp add: Deliver_send_def)
next
  case (Some c)
  have "c' \<in> set ((chans r)[ch := c]) \<Longrightarrow> chan_cap c' = 1 \<and> chan_ok c'" for c'
  proof -
    assume c': "c' \<in> set ((chans r)[ch := c])"
    show ?thesis
    proof (cases "ch < length (chans r)")
      case True
      then have "chan_cap (chans r ! ch) = 1" using assms by (simp add: registry_ok_def)
      with chan.send_Some [OF Some] have "chan_cap c = 1 \<and> chan_ok c" by simp
      with c' assms show ?thesis
        using set_update_subset_insert [of "chans r" ch c] by (auto simp: registry_ok_def)
    next
      case False
      then have "(chans r)[ch := c] = chans r" by (simp add: list_update_beyond)
      with c' have "c' \<in> set (chans r)" by simp
      with assms show ?thesis by (simp add: registry_ok_def)
    qed
  qed
  with assms Some show ?thesis by (simp add: registry_ok_def Deliver_send_def)
qed

lemma registry_ok_deliver [inv_intros]: "registry_ok r \<Longrightarrow> registry_ok (Deliver k m r)"
  by (simp add: Deliver_def registry_ok_send split: option.splits)

lemma registry_ok_deregister [inv_intros]:
  assumes "registry_ok r"
  shows "registry_ok (Deregister k r)"
proof -
  have "inj_on ((map_of (pending r))(k := None)) (dom ((map_of (pending r))(k := None)))"
    using assms unfolding registry_ok_def inj_on_def by (auto simp: dom_def split: if_splits)
  with assms show ?thesis
    by (auto simp: registry_ok_def Deregister_def delete_conv' distinct_delete split: if_splits)
qed

lemma registry_ok_recv [inv_intros]:
  assumes "registry_ok r" and "ch < length (chans r)" and "await_reply ch r = Some (x, r')"
  shows "registry_ok r'"
proof -
  from assms(3) obtain c where c: "try_recv (chans r ! ch) = Some (x, c)"
    and r': "r' = r\<lparr>chans := (chans r)[ch := c]\<rparr>"
    by (auto simp: await_reply_def)
  from assms(1,2) have "chan_cap (chans r ! ch) = 1" "chan_ok (chans r ! ch)"
    by (simp_all add: registry_ok_def)
  with chan.recv_Some [OF c] chan.ok_recv [OF _ c] have "chan_cap c = 1" "chan_ok c" by simp_all
  with assms(1) show ?thesis
    using set_update_subset_insert [of "chans r" ch c] by (auto simp: registry_ok_def r')
qed

lemma abs_register:
  assumes ok: "registry_ok r"
  shows "abs_registry (snd (Register k r)) = mbox_register k (abs_registry r)"
proof
  fix j
  show "abs_registry (snd (Register k r)) j = mbox_register k (abs_registry r) j"
  proof (cases "map_of (pending r) j")
    case None
    then show ?thesis
      by (simp add: abs_registry_def mbox_register_def update_conv' mailbox_of_def)
  next
    case (Some ch)
    then have "ch < length (chans r)" by (rule registry_okD(1) [OF ok])
    with Some show ?thesis
      by (simp add: abs_registry_def mbox_register_def update_conv' mailbox_of_def nth_append)
  qed
qed

lemma abs_deregister: "abs_registry (Deregister k r) = mbox_deregister k (abs_registry r)"
  by (rule ext) (simp add: abs_registry_def Deregister_def mbox_deregister_def delete_conv')

lemma try_send_mailbox:
  "chan_cap c = 1 \<Longrightarrow> chan_ok c \<Longrightarrow>
   try_send m c = (if mailbox_of c = None then Some (c\<lparr>chan_buf := [m]\<rparr>) else None)"
  by (auto simp: try_send_def mailbox_of_def chan_ok_def split: list.splits)

lemma abs_deliver:
  assumes ok: "registry_ok r"
  shows "abs_registry (Deliver k m r) = mbox_deliver k m (abs_registry r)"
proof (cases "map_of (pending r) k")
  case None
  then show ?thesis
    by (simp add: Deliver_def Deliver_lookup_def mbox_deliver_def abs_registry_def)
next
  case (Some ch)
  note ch = registry_okD [OF ok Some]
  have other: "map_of (pending r) j = Some ch \<Longrightarrow> j = k" for j
    using ok Some unfolding registry_ok_def inj_on_def by (metis domI)
  show ?thesis
  proof (cases "mailbox_of (chans r ! ch)")
    case None
    then have "Deliver k m r = r\<lparr>chans := (chans r)[ch := (chans r ! ch)\<lparr>chan_buf := [m]\<rparr>]\<rparr>"
      using ch Some by (simp add: Deliver_def Deliver_lookup_def Deliver_send_def try_send_mailbox)
    then have "abs_registry (Deliver k m r) j = mbox_deliver k m (abs_registry r) j" for j
      using None Some ch other [of j]
      by (cases "map_of (pending r) j")
        (auto simp: abs_registry_def mbox_deliver_def mailbox_of_def nth_list_update)
    then show ?thesis by blast
  next
    case (Some x)
    then show ?thesis
      using ch \<open>map_of (pending r) k = Some ch\<close>
      by (simp add: Deliver_def Deliver_lookup_def Deliver_send_def try_send_mailbox
          mbox_deliver_def abs_registry_def)
  qed
qed

text \<open>
  C21: \<^verbatim>\<open>Register\<close>, \<^verbatim>\<open>Deliver\<close> and \<^verbatim>\<open>Deregister\<close> implement a map of one-place mailboxes:
  registering empties the mailbox of that ID only, delivering fills an empty registered
  mailbox and changes nothing otherwise (unknown ID, or a reply is already there), and
  deregistering forgets the ID. Every operation keeps the registry well formed.
\<close>

theorem registry_refines_mailboxes:
  assumes "registry_ok r"
  shows "abs_registry (snd (Register k r)) = mbox_register k (abs_registry r) \<and>
    abs_registry (Deliver k m r) = mbox_deliver k m (abs_registry r) \<and>
    abs_registry (Deregister k r) = mbox_deregister k (abs_registry r) \<and>
    registry_ok (snd (Register k r)) \<and> registry_ok (Deliver k m r) \<and> registry_ok (Deregister k r)"
  using assms by (simp add: abs_register abs_deliver abs_deregister inv_intros)

theorem registry_refines_mailboxes_witness:
  "abs_registry (Deliver ''c1'' (7::nat) (snd (Register ''c1'' NewRegistry))) =
     mbox_deliver ''c1'' 7 (abs_registry (snd (Register ''c1'' NewRegistry)))"
  using registry_refines_mailboxes
    [OF registry_ok_register [OF registry_ok_new, of "''c1''"], where m = "7::nat" and k = "''c1''"]
  by blast

subsection \<open>Concurrent behaviour\<close>

lemma reg_invI:
  assumes "registry_ok (reg s)"
    and "length (owner s) = length (chans (reg s))"
    and "\<And>k ch. map_of (pending (reg s)) k = Some ch \<Longrightarrow> owner s ! ch = k"
    and "\<And>ch k x. (ch, k, x) \<in> set (inflight s) \<Longrightarrow> ch < length (owner s) \<and> owner s ! ch = k"
    and "\<And>ch m. ch < length (owner s) \<Longrightarrow> m \<in> set (chan_buf (chans (reg s) ! ch)) \<Longrightarrow>
           fst m = owner s ! ch"
  shows "reg_inv s"
  using assms unfolding reg_inv_def by blast

lemma reg_invD:
  assumes "reg_inv s"
  shows "registry_ok (reg s)"
    and "length (owner s) = length (chans (reg s))"
    and "map_of (pending (reg s)) k = Some ch \<Longrightarrow> owner s ! ch = k"
    and "(ch, k, x) \<in> set (inflight s) \<Longrightarrow> ch < length (owner s) \<and> owner s ! ch = k"
    and "ch < length (owner s) \<Longrightarrow> m \<in> set (chan_buf (chans (reg s) ! ch)) \<Longrightarrow>
           fst m = owner s ! ch"
  using assms unfolding reg_inv_def by blast+

lemma reg_inv_register:
  assumes inv: "reg_inv s"
  shows "reg_inv (s\<lparr>reg := snd (Register k (reg s)), owner := owner s @ [k]\<rparr>)"
proof (rule reg_invI)
  fix j ch
  assume "map_of (pending (reg (s\<lparr>reg := snd (Register k (reg s)), owner := owner s @ [k]\<rparr>))) j
    = Some ch"
  with reg_invD(2,3) [OF inv] registry_okD(1) [OF reg_invD(1) [OF inv]]
  show "owner (s\<lparr>reg := snd (Register k (reg s)), owner := owner s @ [k]\<rparr>) ! ch = j"
    by (auto simp: update_conv' nth_append split: if_splits)
next
  fix ch j x
  assume "(ch, j, x) \<in> set (inflight (s\<lparr>reg := snd (Register k (reg s)), owner := owner s @ [k]\<rparr>))"
  with reg_invD(4) [OF inv]
  show "ch < length (owner (s\<lparr>reg := snd (Register k (reg s)), owner := owner s @ [k]\<rparr>)) \<and>
    owner (s\<lparr>reg := snd (Register k (reg s)), owner := owner s @ [k]\<rparr>) ! ch = j"
    by (force simp: nth_append)
next
  fix ch m
  assume "ch < length (owner (s\<lparr>reg := snd (Register k (reg s)), owner := owner s @ [k]\<rparr>))"
    and "m \<in> set (chan_buf (chans (reg (s\<lparr>reg := snd (Register k (reg s)), owner := owner s @ [k]\<rparr>)) ! ch))"
  with reg_invD(2,5) [OF inv]
  show "fst m = owner (s\<lparr>reg := snd (Register k (reg s)), owner := owner s @ [k]\<rparr>) ! ch"
    by (auto simp: nth_append less_Suc_eq split: if_splits)
qed (use inv in \<open>auto simp: reg_inv_def registry_ok_register\<close>)

lemma reg_inv_send:
  assumes inv: "reg_inv s" and i: "i < length (inflight s)" and m: "inflight s ! i = (ch, m)"
  shows "reg_inv (s\<lparr>reg := Deliver_send ch m (reg s),
    inflight := take i (inflight s) @ drop (Suc i) (inflight s)\<rparr>)"
proof -
  obtain k x where kx: "m = (k, x)" by (cases m)
  from i m have "(ch, k, x) \<in> set (inflight s)" unfolding kx by (metis nth_mem)
  with reg_invD(4) [OF inv] have ch: "ch < length (owner s)" "owner s ! ch = fst m"
    by (simp_all add: kx)
  have len: "length (chans (Deliver_send ch m (reg s))) = length (chans (reg s))"
    by (simp add: Deliver_send_def split: option.splits)
  have bufs: "fst y = owner s ! c"
    if "c < length (owner s)" "y \<in> set (chan_buf (chans (Deliver_send ch m (reg s)) ! c))" for c y
  proof (cases "try_send m (chans (reg s) ! ch)")
    case None
    with that ch reg_invD(2,5) [OF inv] show ?thesis by (simp add: Deliver_send_chans)
  next
    case (Some d)
    have "set (chan_buf d) = insert m (set (chan_buf (chans (reg s) ! ch)))"
      using chan.send_Some [OF Some] by simp
    with Some that ch reg_invD(2) [OF inv] reg_invD(5) [OF inv, of c y] show ?thesis
      by (cases "c = ch") (auto simp: Deliver_send_chans)
  qed
  have infl: "set (take i (inflight s) @ drop (Suc i) (inflight s)) \<subseteq> set (inflight s)"
    using set_take_subset set_drop_subset by fastforce
  show ?thesis
  proof (rule reg_invI)
    fix c j y
    assume "(c, j, y) \<in> set (inflight (s\<lparr>reg := Deliver_send ch m (reg s),
      inflight := take i (inflight s) @ drop (Suc i) (inflight s)\<rparr>))"
    then have "(c, j, y) \<in> set (inflight s)" using infl by auto
    with reg_invD(4) [OF inv] show "c < length (owner (s\<lparr>reg := Deliver_send ch m (reg s),
        inflight := take i (inflight s) @ drop (Suc i) (inflight s)\<rparr>)) \<and>
      owner (s\<lparr>reg := Deliver_send ch m (reg s),
        inflight := take i (inflight s) @ drop (Suc i) (inflight s)\<rparr>) ! c = j"
      by simp
  qed (use inv len bufs in \<open>auto simp: reg_invD registry_ok_send\<close>)
qed

lemma reg_inv_recv:
  assumes inv: "reg_inv s" and ch: "ch < length (chans (reg s))"
    and r: "await_reply ch (reg s) = Some (m, r)"
  shows "reg_inv (s\<lparr>reg := r\<rparr>)"
proof -
  from r obtain c where c: "try_recv (chans (reg s) ! ch) = Some (m, c)"
    and r_eq: "r = reg s\<lparr>chans := (chans (reg s))[ch := c]\<rparr>"
    by (auto simp: await_reply_def)
  from chan.recv_Some [OF c] have sub: "set (chan_buf c) \<subseteq> set (chan_buf (chans (reg s) ! ch))"
    by auto
  have "fst x = owner s ! d"
    if "d < length (owner s)" "x \<in> set (chan_buf ((chans (reg s))[ch := c] ! d))" for d x
    using that sub ch reg_invD(2) [OF inv] reg_invD(5) [OF inv, of d x] by (cases "d = ch") auto
  with inv registry_ok_recv [OF reg_invD(1) [OF inv] ch r] show ?thesis
    by (intro reg_invI) (auto simp: r_eq reg_invD dest: reg_invD(4) [OF inv])
qed

lemma reg_inv_lookup:
  assumes inv: "reg_inv s" and ch: "Deliver_lookup k (reg s) = Some ch"
  shows "reg_inv (s\<lparr>inflight := inflight s @ [(ch, k, x)]\<rparr>)"
  using inv ch registry_okD(1) [OF reg_invD(1) [OF inv], of k ch]
  by (intro reg_invI) (auto simp: Deliver_lookup_def reg_invD dest: reg_invD(4) [OF inv])

lemma reg_inv_deregister:
  assumes inv: "reg_inv s"
  shows "reg_inv (s\<lparr>reg := Deregister k (reg s)\<rparr>)"
  using inv by (intro reg_invI)
    (auto simp: reg_invD registry_ok_deregister delete_conv' dest: reg_invD(4) [OF inv]
      split: if_splits)

lemma reg_inv_step: "reg_inv s \<Longrightarrow> reg_step l s = Some t \<Longrightarrow> reg_inv t"
  by (cases l)
    (auto split: if_splits prod.splits option.splits intro: reg_inv_register reg_inv_send
      reg_inv_recv reg_inv_lookup reg_inv_deregister)

lemma reg_inv_init: "reg_init s \<Longrightarrow> reg_inv s"
  by (rule reg_invI) (auto simp: reg_init_def registry_ok_new, auto simp: NewRegistry_def)

interpretation registry: invariant_system reg_step reg_init reg_inv
  by unfold_locales (auto intro: reg_inv_init reg_inv_step)

text \<open>
  C22: in every interleaving of \<^verbatim>\<open>Register\<close>, \<^verbatim>\<open>Deregister\<close>, receives and concurrent
  \<^verbatim>\<open>Deliver\<close> calls, a reply that sits in a channel was delivered under the correlation ID
  that channel was registered for: no caller receives another caller's reply, even when a
  delivery's send runs after the ID was deregistered or registered again. No channel
  ever holds more than one reply, and \<^verbatim>\<open>Len\<close> counts the registered IDs.
\<close>

theorem registry_routes_replies:
  assumes "reachable reg_step reg_init s"
  shows "(\<forall>ch < length (chans (reg s)).
      set (chan_buf (chans (reg s) ! ch)) \<subseteq> {m. fst m = owner s ! ch} \<and>
      length (chan_buf (chans (reg s) ! ch)) \<le> 1) \<and>
    Len (reg s) = int (card (dom (map_of (pending (reg s)))))"
proof (intro conjI allI impI)
  from assms have inv: "reg_inv s" by (rule registry.inv_reachable)
  {
    fix ch
    assume ch: "ch < length (chans (reg s))"
    with reg_invD(2) [OF inv] reg_invD(5) [OF inv, of ch]
    show "set (chan_buf (chans (reg s) ! ch)) \<subseteq> {m. fst m = owner s ! ch}" by auto
    from ch reg_invD(1) [OF inv] have "chan_cap (chans (reg s) ! ch) = 1" "chan_ok (chans (reg s) ! ch)"
      by (simp_all add: registry_ok_def)
    then show "length (chan_buf (chans (reg s) ! ch)) \<le> 1" by (simp add: chan_ok_def)
  }
  from reg_invD(1) [OF inv] have "distinct (map fst (pending (reg s)))"
    by (simp add: registry_ok_def)
  from distinct_card [OF this] show "Len (reg s) = int (card (dom (map_of (pending (reg s)))))"
    by (simp add: Len_def dom_map_of_conv_image_fst)
qed

definition late_send_run :: "nat reg_label list" where
  "late_send_run =
     [LRegister ''a'', LLookup ''a'' 5, LDeregister ''a'', LRegister ''b'', LSend 0]"

theorem registry_routes_replies_witness:
  "\<exists>s. run_steps reg_step late_send_run \<lparr>reg = NewRegistry, owner = [], inflight = []\<rparr> = Some s \<and>
     set (chan_buf (chans (reg s) ! 0)) \<subseteq> {m. fst m = owner s ! 0} \<and>
     chan_buf (chans (reg s) ! 0) = [(''a'', 5)] \<and> Len (reg s) = 1"
proof -
  let ?s = "\<lparr>reg = \<lparr>pending = [(''b'', 1)],
      chans = [\<lparr>chan_cap = 1, chan_buf = [(''a'', 5::nat)]\<rparr>, \<lparr>chan_cap = 1, chan_buf = []\<rparr>]\<rparr>,
    owner = [''a'', ''b''], inflight = []\<rparr>"
  have run: "run_steps reg_step late_send_run \<lparr>reg = NewRegistry, owner = [], inflight = []\<rparr> = Some ?s"
    by code_simp
  then have "reachable reg_step reg_init ?s"
    by (rule reachable_run [rotated]) (simp add: reachable.start reg_init_def)
  from registry_routes_replies [OF this]
  have "set (chan_buf (chans (reg ?s) ! 0)) \<subseteq> {m. fst m = owner ?s ! 0}"
    by simp
  moreover have "Len (reg ?s) = 1" by (simp add: Len_def)
  ultimately show ?thesis using run by simp
qed

end
