(* ===== verification/Go_Errors.thy ===== *)
theory Go_Errors
  imports MQ_Prelude
begin

text \<open>
  Go error values: the library's sentinels, the errors of package \<^verbatim>\<open>context\<close>, the
  \<^verbatim>\<open>*MQReturn\<close> values of the IBM MQ binding, plain errors, \<^verbatim>\<open>fmt.Errorf\<close> values
  (their text is computed when they are built, and they keep the operands of \<^verbatim>\<open>%w\<close>) and
  \<^verbatim>\<open>errors.Join\<close> values, with \<^verbatim>\<open>errors.Is\<close>, \<^verbatim>\<open>errors.As\<close> and the text of an error.
  A nil error is \<^term>\<open>None\<close>. Strings are Go strings: lists of bytes.
\<close>

datatype sentinel =
    ErrInvalidConfig
  | ErrTimeout
  | ErrConnectionFailed
  | ErrClientClosed
  | ErrHandlerPanic
  | Canceled
  | DeadlineExceeded

fun sentinel_text :: "sentinel \<Rightarrow> string" where
  "sentinel_text ErrInvalidConfig = ''commons-mq-go: invalid configuration''"
| "sentinel_text ErrTimeout = ''commons-mq-go: request-reply timeout''"
| "sentinel_text ErrConnectionFailed = ''commons-mq-go: connection permanently failed''"
| "sentinel_text ErrClientClosed = ''commons-mq-go: client is closed''"
| "sentinel_text ErrHandlerPanic = ''commons-mq-go: message handler panicked''"
| "sentinel_text Canceled = ''context canceled''"
| "sentinel_text DeadlineExceeded = ''context deadline exceeded''"

text \<open>
  \<open>MQReturn cc rc text\<close>: completion and reason code of an MQI call; \<open>text\<close> is what the
  binding's \<^verbatim>\<open>Error\<close> method prints for them.
\<close>

datatype go_error =
    Sentinel sentinel
  | MQReturn int int string
  | ErrorString string
  | Errorf string "go_error list"
  | Joined "go_error list"

fun join_lines :: "string list \<Rightarrow> string" where
  "join_lines [] = []"
| "join_lines [x] = x"
| "join_lines (x # xs) = x @ [CHR 0x0A] @ join_lines xs"

fun error_text :: "go_error \<Rightarrow> string" where
  "error_text (Sentinel s) = sentinel_text s"
| "error_text (MQReturn cc rc t) = t"
| "error_text (ErrorString t) = t"
| "error_text (Errorf t es) = t"
| "error_text (Joined es) = join_lines (map error_text es)"

text \<open>\<^verbatim>\<open>errors.Is(err, target)\<close> for a sentinel target: a depth-first search of the tree.\<close>

fun error_is :: "go_error \<Rightarrow> sentinel \<Rightarrow> bool" where
  "error_is (Sentinel s) t = (s = t)"
| "error_is (MQReturn cc rc x) t = False"
| "error_is (ErrorString x) t = False"
| "error_is (Errorf x es) t = list_ex (\<lambda>e. error_is e t) es"
| "error_is (Joined es) t = list_ex (\<lambda>e. error_is e t) es"

text \<open>\<^verbatim>\<open>errors.As(err, **MQReturn)\<close>: the first \<^verbatim>\<open>*MQReturn\<close> met, as its reason code.\<close>

fun as_MQReturn :: "go_error \<Rightarrow> int option"
  and as_MQReturn_list :: "go_error list \<Rightarrow> int option" where
  "as_MQReturn (Sentinel s) = None"
| "as_MQReturn (MQReturn cc rc x) = Some rc"
| "as_MQReturn (ErrorString x) = None"
| "as_MQReturn (Errorf x es) = as_MQReturn_list es"
| "as_MQReturn (Joined es) = as_MQReturn_list es"
| "as_MQReturn_list [] = None"
| "as_MQReturn_list (e # es) =
     (case as_MQReturn e of Some rc \<Rightarrow> Some rc | None \<Rightarrow> as_MQReturn_list es)"

text \<open>\<^verbatim>\<open>errors.Join(errs...)\<close> of non-nil errors is nil for an empty list.\<close>

definition errors_join :: "go_error list \<Rightarrow> go_error option" where
  "errors_join es = (if es = [] then None else Some (Joined es))"

subsection \<open>Formatting verbs\<close>

fun nat_text :: "nat \<Rightarrow> string" where
  "nat_text n =
     (if n < 10 then [char_of (48 + n)] else nat_text (n div 10) @ [char_of (48 + n mod 10)])"

declare nat_text.simps [simp del]

text \<open>The verb \<^verbatim>\<open>%d\<close>.\<close>

definition itoa :: "int \<Rightarrow> string" where
  "itoa i = (if i < 0 then CHR ''-'' # nat_text (nat (- i)) else nat_text (nat i))"

definition hex_digit :: "nat \<Rightarrow> char" where
  "hex_digit n = (if n < 10 then char_of (48 + n) else char_of (87 + n))"

text \<open>
  The verb \<^verbatim>\<open>%q\<close> on a string. Queue, queue manager and host names are ASCII; bytes above
  \<^verbatim>\<open>0x7f\<close> are copied, as \<^verbatim>\<open>strconv.Quote\<close> does for printable UTF-8 (its escapes for
  invalid or unprintable non-ASCII runes are not modelled).
\<close>

definition quote_char :: "char \<Rightarrow> string" where
  "quote_char c =
     (if c = CHR 0x22 then [CHR 0x5C, CHR 0x22]
      else if c = CHR 0x5C then [CHR 0x5C, CHR 0x5C]
      else if c = CHR 0x07 then [CHR 0x5C, CHR ''a'']
      else if c = CHR 0x08 then [CHR 0x5C, CHR ''b'']
      else if c = CHR 0x0C then [CHR 0x5C, CHR ''f'']
      else if c = CHR 0x0A then [CHR 0x5C, CHR ''n'']
      else if c = CHR 0x0D then [CHR 0x5C, CHR ''r'']
      else if c = CHR 0x09 then [CHR 0x5C, CHR ''t'']
      else if c = CHR 0x0B then [CHR 0x5C, CHR ''v'']
      else if (of_char c :: nat) < 32 \<or> c = CHR 0x7F
        then [CHR 0x5C, CHR ''x'', hex_digit (of_char c div 16), hex_digit (of_char c mod 16)]
      else [c])"

definition quote :: "string \<Rightarrow> string" where
  "quote s = [CHR 0x22] @ concat (map quote_char s) @ [CHR 0x22]"

subsection \<open>Lemmas\<close>

lemma error_is_Errorf_iff: "error_is (Errorf x es) t \<longleftrightarrow> (\<exists>e \<in> set es. error_is e t)"
  by (simp add: list_ex_iff)

lemma error_is_join:
  "errors_join es = Some e \<Longrightarrow> error_is e t \<longleftrightarrow> (\<exists>d \<in> set es. error_is d t)"
  by (auto simp: errors_join_def list_ex_iff split: if_splits)

lemma errors_join_None [simp]: "errors_join es = None \<longleftrightarrow> es = []"
  by (simp add: errors_join_def)

lemma as_MQReturn_wrap [simp]: "as_MQReturn (Errorf x [e]) = as_MQReturn e"
  by (simp split: option.splits)

lemma as_MQReturn_append:
  "as_MQReturn_list (es @ fs) =
     (case as_MQReturn_list es of Some rc \<Rightarrow> Some rc | None \<Rightarrow> as_MQReturn_list fs)"
  by (induction es) (auto split: option.splits)

end
