(* ===== verification/MQ_Types.thy ===== *)
theory MQ_Types
  imports Go_Hex
begin

unbundle bit_operations_syntax

text \<open>
  The data of \<^verbatim>\<open>src/mq/types.go\<close> and the open-options merge of
  \<^verbatim>\<open>src/mq/queue_customizer.go\<close>. A nil \<^verbatim>\<open>UserProperties\<close> map is \<^term>\<open>None\<close>;
  a \<^verbatim>\<open>context.Context\<close> is an opaque name.
\<close>

datatype ConnectionState =
    StateConnected
  | StateReconnecting
  | StateFailed
  | StateUnknown
  | StateStopped

text \<open>
  The Go constants are numbered in this order; the listener stores a state as its number
  in an atomic 32-bit integer. The order of the numbers makes the type a linear order.
\<close>

fun state_code :: "ConnectionState \<Rightarrow> int" where
  "state_code StateConnected = 0"
| "state_code StateReconnecting = 1"
| "state_code StateFailed = 2"
| "state_code StateUnknown = 3"
| "state_code StateStopped = 4"

instantiation ConnectionState :: linorder
begin

definition less_eq_ConnectionState :: "ConnectionState \<Rightarrow> ConnectionState \<Rightarrow> bool" where
  "less_eq_ConnectionState a b \<longleftrightarrow> state_code a \<le> state_code b"

definition less_ConnectionState :: "ConnectionState \<Rightarrow> ConnectionState \<Rightarrow> bool" where
  "less_ConnectionState a b \<longleftrightarrow> state_code a < state_code b"

instance
proof
  fix a b :: ConnectionState
  assume "a \<le> b" and "b \<le> a"
  then show "a = b" by (cases a; cases b) (simp_all add: less_eq_ConnectionState_def)
qed (auto simp: less_eq_ConnectionState_def less_ConnectionState_def)

end

lemma state_code_int32: "go_int32 (state_code a) = state_code b \<longleftrightarrow> a = b"
  by (cases a; cases b) (simp_all add: in_int32_def)

datatype RequestReplyMode = TemporaryQueue | FixedQueueSelector

type_synonym ctx = nat

type_synonym properties = "string \<rightharpoonup> string"

record Message =
  ID :: string
  CorrelationID :: string
  ReplyToQueue :: string
  ReplyToQueueManager :: string
  Body :: bytes
  UserProperties :: "properties option"
  TTL :: duration

record QueueOptions =
  TargetClient :: bool
  MQMDReadEnabled :: bool
  MQMDWriteEnabled :: bool
  PutAsyncAllowed :: bool
  ReadAheadAllowed :: bool

record ConnectionStatus =
  QueueManager :: string
  Alive :: bool
  Reason :: string
  Component :: string

record HealthStatus =
  Healthy :: bool
  Details :: "ConnectionStatus list"

text \<open>The zero value of the message struct, with the empty map the library allocates.\<close>

definition empty_message :: Message where
  "empty_message =
     \<lparr>ID = [], CorrelationID = [], ReplyToQueue = [], ReplyToQueueManager = [], Body = [],
      UserProperties = Some Map.empty, TTL = 0\<rparr>"

definition zero_queue_options :: QueueOptions where
  "zero_queue_options =
     \<lparr>TargetClient = False, MQMDReadEnabled = False, MQMDWriteEnabled = False,
      PutAsyncAllowed = False, ReadAheadAllowed = False\<rparr>"

text \<open>The constant \<^verbatim>\<open>ibmmq.MQOO_READ_AHEAD\<close> of the binding is the first argument.\<close>

definition applyQueueOpenOptions :: "32 word \<Rightarrow> QueueOptions \<Rightarrow> 32 word \<Rightarrow> 32 word" where
  "applyQueueOpenOptions MQOO_READ_AHEAD opts oo =
     (if ReadAheadAllowed opts then oo OR MQOO_READ_AHEAD else oo)"

lemma applyQueueOpenOptions_keeps: "applyQueueOpenOptions k opts oo AND oo = oo"
  by (simp add: applyQueueOpenOptions_def bit_eq_iff bit_and_iff bit_or_iff) blast

lemma applyQueueOpenOptions_idem:
  "applyQueueOpenOptions k opts (applyQueueOpenOptions k opts oo) = applyQueueOpenOptions k opts oo"
  by (simp add: applyQueueOpenOptions_def or.assoc)

end
