(* ===== verification/Go_Float.thy ===== *)
theory Go_Float
  imports Complex_Main MQ_Prelude
begin

text \<open>
  Go's \<^verbatim>\<open>float64\<close>, as far as the backoff computation uses it: IEEE 754 binary64 with
  rounding to nearest, ties to even. A finite value is the rational it denotes (the
  sign of zero is not observable here: the library never divides by a float), and a
  product is the exact product, rounded. The conversion to an integer truncates; for a
  value the integer type cannot hold the Go specification leaves the result to the
  implementation, so it is a parameter.
\<close>

datatype float64 = Fin rat | PInf | NInf | NaN

fun bit_size :: "nat \<Rightarrow> nat" where
  "bit_size n = (if n = 0 then 0 else Suc (bit_size (n div 2)))"

declare bit_size.simps [simp del]

text \<open>The exponent \<open>e\<close> with \<open>2\<^sup>e \<le> q < 2\<^sup>e\<^sup>+\<^sup>1\<close> of a positive rational.\<close>

definition rat_exp :: "rat \<Rightarrow> int" where
  "rat_exp q =
     (let (a, b) = quotient_of q;
          e = int (bit_size (nat a)) - int (bit_size (nat b))
      in if 2 powi e \<le> q then e else e - 1)"

definition round_even :: "rat \<Rightarrow> int" where
  "round_even q =
     (let f = \<lfloor>q\<rfloor>; d = q - of_int f in
      if d < 1 / 2 then f else if 1 / 2 < d then f + 1 else if even f then f else f + 1)"

definition f64_scale :: "rat \<Rightarrow> int" where
  "f64_scale q = max (rat_exp \<bar>q\<bar> - 52) (- 1074)"

definition f64_round :: "rat \<Rightarrow> float64" where
  "f64_round q =
     (if q = 0 then Fin 0
      else let s = f64_scale q; v = of_int (round_even (q / 2 powi s)) * 2 powi s in
           if 2 ^ 1024 \<le> v then PInf else if v \<le> - (2 ^ 1024) then NInf else Fin v)"

definition f64_of_int :: "int \<Rightarrow> float64" where
  "f64_of_int i = f64_round (of_int i)"

fun f64_mult :: "float64 \<Rightarrow> float64 \<Rightarrow> float64" where
  "f64_mult (Fin a) (Fin b) = f64_round (a * b)"
| "f64_mult NaN _ = NaN"
| "f64_mult _ NaN = NaN"
| "f64_mult (Fin a) PInf = (if a = 0 then NaN else if 0 < a then PInf else NInf)"
| "f64_mult (Fin a) NInf = (if a = 0 then NaN else if 0 < a then NInf else PInf)"
| "f64_mult PInf (Fin b) = (if b = 0 then NaN else if 0 < b then PInf else NInf)"
| "f64_mult NInf (Fin b) = (if b = 0 then NaN else if 0 < b then NInf else PInf)"
| "f64_mult PInf PInf = PInf"
| "f64_mult PInf NInf = NInf"
| "f64_mult NInf PInf = NInf"
| "f64_mult NInf NInf = PInf"

text \<open>Comparison: every comparison with a NaN is false.\<close>

fun f64_less :: "float64 \<Rightarrow> float64 \<Rightarrow> bool" where
  "f64_less NaN _ = False"
| "f64_less _ NaN = False"
| "f64_less (Fin a) (Fin b) = (a < b)"
| "f64_less NInf y = (y \<noteq> NInf)"
| "f64_less x NInf = False"
| "f64_less x PInf = (x \<noteq> PInf)"
| "f64_less PInf y = False"

definition rat_trunc :: "rat \<Rightarrow> int" where
  "rat_trunc q = (if 0 \<le> q then \<lfloor>q\<rfloor> else \<lceil>q\<rceil>)"

definition f64_to_int64 :: "(float64 \<Rightarrow> int) \<Rightarrow> float64 \<Rightarrow> int" where
  "f64_to_int64 impl x =
     (case x of
        Fin q \<Rightarrow> if in_int64 (rat_trunc q) then rat_trunc q else impl x
      | _ \<Rightarrow> impl x)"

subsection \<open>Exponents\<close>

lemma bit_size_bounds: "0 < n \<Longrightarrow> 2 ^ (bit_size n - 1) \<le> n \<and> n < 2 ^ bit_size n \<and> 0 < bit_size n"
proof (induction n rule: bit_size.induct)
  case (1 n)
  show ?case
  proof (cases "n div 2 = 0")
    case True
    with 1 have "n = 1" by (auto simp: div_eq_0_iff)
    then show ?thesis by (simp add: bit_size.simps)
  next
    case False
    with 1 have IH: "2 ^ (bit_size (n div 2) - 1) \<le> n div 2" "n div 2 < 2 ^ bit_size (n div 2)"
      "0 < bit_size (n div 2)" by auto
    then obtain k where k: "bit_size (n div 2) = Suc k" by (cases "bit_size (n div 2)") auto
    with 1 have "bit_size n = Suc (Suc k)" by (simp add: bit_size.simps [of n])
    with IH k show ?thesis by auto
  qed
qed

lemma powi_less_mono: "(i::int) < j \<Longrightarrow> (2::rat) powi i < 2 powi j"
  by (rule power_int_strict_increasing) simp_all

lemma powi_le_mono: "(i::int) \<le> j \<Longrightarrow> (2::rat) powi i \<le> 2 powi j"
  by (rule power_int_increasing) simp_all

lemma powi_Suc: "(2::rat) powi (e + 1) = 2 * 2 powi e"
  by (simp add: power_int_add)

lemma bit_size_powi:
  assumes "0 < a"
  shows "(2::rat) powi (int (bit_size (nat a)) - 1) \<le> of_int a \<and>
    of_int a < (2::rat) powi (int (bit_size (nat a)))"
proof -
  from bit_size_bounds [of "nat a"] assms obtain k
    where k: "bit_size (nat a) = Suc k" and lo: "2 ^ k \<le> nat a" and hi: "nat a < 2 ^ Suc k"
    by (cases "bit_size (nat a)") auto
  have "(2::rat) ^ k \<le> of_nat (nat a)" "of_nat (nat a) < (2::rat) ^ Suc k"
    using lo hi by (metis of_nat_le_iff of_nat_numeral of_nat_power)
      (metis hi of_nat_less_iff of_nat_numeral of_nat_power)
  moreover have "of_nat (nat a) = (of_int a :: rat)" using assms by simp
  moreover have "(2::rat) powi (int (Suc k)) = 2 ^ Suc k" by (rule power_int_of_nat)
  moreover have "(2::rat) powi (int (Suc k) - 1) = 2 ^ k" by simp
  ultimately show ?thesis unfolding k by simp
qed

lemma rat_exp_bounds:
  assumes "0 < q"
  shows "2 powi (rat_exp q) \<le> q \<and> q < 2 powi (rat_exp q + 1)"
proof -
  obtain a b where ab: "quotient_of q = (a, b)" by (cases "quotient_of q")
  from quotient_of_div [OF ab] have q: "q = of_int a / of_int b" .
  from quotient_of_denom_pos [OF ab] have b: "0 < b" .
  with assms q have a: "0 < a" by (simp add: zero_less_divide_iff)
  define m n where "m = int (bit_size (nat a))" and "n = int (bit_size (nat b))"
  have A: "2 powi (m - 1) \<le> (of_int a :: rat)" "of_int a < (2 powi m :: rat)"
    and B: "2 powi (n - 1) \<le> (of_int b :: rat)" "of_int b < (2 powi n :: rat)"
    using bit_size_powi [OF a] bit_size_powi [OF b] by (simp_all add: m_def n_def)
  have pos: "0 < (2 powi n :: rat)" "0 < (2 powi (n - 1) :: rat)" "0 < (of_int b :: rat)"
    using b by simp_all
  have "2 powi (m - 1) / 2 powi n \<le> q"
    unfolding q using A(1) B(2) pos a by (intro frac_le) simp_all
  then have lo: "2 powi (m - n - 1) \<le> q"
    by (simp add: power_int_diff)
  have "q < 2 powi m / 2 powi (n - 1)"
    unfolding q using A B pos a by (intro frac_less) simp_all
  then have hi: "q < 2 powi (m - n + 1)"
    by (simp add: power_int_diff power_int_add)
  have e: "rat_exp q = (if 2 powi (m - n) \<le> q then m - n else m - n - 1)"
    by (simp add: rat_exp_def ab m_def n_def)
  show ?thesis using lo hi unfolding e by auto
qed

lemma rat_exp_unique:
  assumes "2 powi e \<le> q" and "q < 2 powi (e + 1)"
  shows "rat_exp q = e"
proof -
  have "0 < (2 powi e :: rat)" by simp
  with assms(1) have "0 < q" by linarith
  note b = rat_exp_bounds [OF this]
  have "\<not> rat_exp q + 1 \<le> e" using b assms powi_le_mono [of "rat_exp q + 1" e] by linarith
  moreover have "\<not> e + 1 \<le> rat_exp q" using b assms powi_le_mono [of "e + 1" "rat_exp q"] by linarith
  ultimately show ?thesis by linarith
qed

lemma rat_exp_mono: "0 < p \<Longrightarrow> p \<le> q \<Longrightarrow> rat_exp p \<le> rat_exp q"
proof (rule ccontr)
  assume pq: "0 < p" "p \<le> q" and "\<not> rat_exp p \<le> rat_exp q"
  then have "(2::rat) powi (rat_exp q + 1) \<le> 2 powi (rat_exp p)" by (intro powi_le_mono) simp
  with rat_exp_bounds [of p] rat_exp_bounds [of q] pq show False by linarith
qed

lemma rat_exp_double: "0 < q \<Longrightarrow> rat_exp (2 * q) = rat_exp q + 1"
  using rat_exp_bounds [of q] powi_Suc [of "rat_exp q"] powi_Suc [of "rat_exp q + 1"]
  by (intro rat_exp_unique) linarith+

lemma rat_exp_ge_1: "1 \<le> q \<Longrightarrow> 0 \<le> rat_exp q"
proof -
  assume "1 \<le> q"
  have "rat_exp 1 = 0" by (rule rat_exp_unique) simp_all
  with rat_exp_mono [of 1 q] \<open>1 \<le> q\<close> show ?thesis by simp
qed

subsection \<open>Rounding\<close>

lemma round_even_of_int [simp]: "round_even (of_int k) = k"
  by (simp add: round_even_def)

lemma round_even_ge: "of_int k \<le> q \<Longrightarrow> k \<le> round_even q"
proof -
  assume "of_int k \<le> q"
  then have "k \<le> \<lfloor>q\<rfloor>" by (simp add: le_floor_iff)
  then show ?thesis by (auto simp: round_even_def Let_def)
qed

lemma round_even_le: "q \<le> of_int k \<Longrightarrow> round_even q \<le> k"
proof -
  assume q: "q \<le> of_int k"
  show "round_even q \<le> k"
  proof (cases "q = of_int k")
    case False
    with q have "\<lfloor>q\<rfloor> < k" by (simp add: floor_less_iff)
    then show ?thesis by (auto simp: round_even_def Let_def)
  qed simp
qed

definition f64_rep :: "rat \<Rightarrow> bool" where
  "f64_rep v \<longleftrightarrow> f64_round v = Fin v"

lemma f64_scale_ge_1: "1 \<le> q \<Longrightarrow> f64_scale q = rat_exp q - 52"
  using rat_exp_ge_1 [of q] by (simp add: f64_scale_def)

lemma f64_round_ge_1:
  assumes "1 \<le> q"
  shows "f64_round q =
    (let s = rat_exp q - 52; v = of_int (round_even (q / 2 powi s)) * 2 powi s in
     if 2 ^ 1024 \<le> v then PInf else Fin v)"
proof -
  let ?s = "rat_exp q - 52"
  have "0 \<le> round_even (q / 2 powi ?s)"
    using assms by (intro round_even_ge) simp
  then have "0 \<le> (of_int (round_even (q / 2 powi ?s)) :: rat) * 2 powi ?s" by simp
  moreover have "- (2 ^ 1024) < (0::rat)" by simp
  ultimately have "\<not> (of_int (round_even (q / 2 powi ?s)) :: rat) * 2 powi ?s \<le> - (2 ^ 1024)"
    by linarith
  with assms show ?thesis by (simp add: f64_round_def f64_scale_ge_1 Let_def)
qed

lemma f64_rep_int_multiple:
  assumes "1 \<le> v" and "f64_rep v"
  obtains k where "v = of_int k * 2 powi (rat_exp v - 52)"
proof -
  from assms have "v = of_int (round_even (v / 2 powi (rat_exp v - 52))) * 2 powi (rat_exp v - 52)"
    by (auto simp: f64_rep_def f64_round_ge_1 Let_def split: if_splits)
  then show ?thesis by (rule that)
qed

lemma f64_repI:
  assumes "1 \<le> v" and "v < 2 ^ 1024" and "v = of_int k * 2 powi (rat_exp v - 52)"
  shows "f64_rep v"
proof -
  have "v / 2 powi (rat_exp v - 52) = of_int k"
    by (subst assms(3)) simp
  then have "of_int (round_even (v / 2 powi (rat_exp v - 52))) * 2 powi (rat_exp v - 52) = v"
    using assms(3) by simp
  with assms(1,2) show ?thesis by (simp add: f64_rep_def f64_round_ge_1)
qed

text \<open>Rounding never goes below a representable value that lies below.\<close>

lemma f64_round_ge_rep:
  assumes p: "1 \<le> p" "f64_rep p" and pq: "p \<le> q" and v: "f64_round q = Fin v"
  shows "p \<le> v"
proof -
  define s where "s = rat_exp q - 52"
  have pos: "0 < (2 powi s :: rat)" by simp
  from p pq have q: "1 \<le> q" by simp
  with v have veq: "v = of_int (round_even (q / 2 powi s)) * 2 powi s"
    by (auto simp: f64_round_ge_1 s_def Let_def split: if_splits)
  have le: "rat_exp p \<le> rat_exp q" using p pq by (intro rat_exp_mono) simp_all
  show ?thesis
  proof (cases "rat_exp p = rat_exp q")
    case True
    from f64_rep_int_multiple [OF p] True obtain k where k: "p = of_int k * 2 powi s"
      by (auto simp: s_def)
    with pq pos have "of_int k \<le> q / 2 powi s" by (simp add: pos_le_divide_eq)
    then have "k \<le> round_even (q / 2 powi s)" by (rule round_even_ge)
    then have "(of_int k :: rat) \<le> of_int (round_even (q / 2 powi s))" by simp
    with pos show ?thesis unfolding k veq by (simp add: mult_right_mono)
  next
    case False
    with le have "rat_exp p + 1 \<le> rat_exp q" by simp
    from powi_le_mono [OF this] rat_exp_bounds [of p] p have p_lt: "p < 2 powi (rat_exp q)" by simp
    have split: "(2::rat) powi (rat_exp q) = of_int (2 ^ 52) * 2 powi s"
      by (simp add: s_def power_int_diff)
    have "2 powi (rat_exp q) \<le> q" using rat_exp_bounds [of q] q by simp
    then have "of_int (2 ^ 52) \<le> q / 2 powi s"
      unfolding split using pos by (simp add: pos_le_divide_eq)
    then have "2 ^ 52 \<le> round_even (q / 2 powi s)" by (rule round_even_ge)
    then have "(of_int (2 ^ 52) :: rat) \<le> of_int (round_even (q / 2 powi s))"
      by (simp only: of_int_le_iff)
    then have "2 powi (rat_exp q) \<le> v"
      unfolding split veq using pos by (simp add: mult_right_mono)
    with p_lt show ?thesis by simp
  qed
qed

text \<open>A rounded value is representable.\<close>

lemma f64_round_rep:
  assumes q: "1 \<le> q" and v: "f64_round q = Fin v"
  shows "f64_rep v"
proof -
  define s where "s = rat_exp q - 52"
  define k where "k = round_even (q / 2 powi s)"
  have pos: "0 < (2 powi s :: rat)" by simp
  from q v have veq: "v = of_int k * 2 powi s" and fin: "v < 2 ^ 1024"
    by (auto simp: f64_round_ge_1 s_def k_def Let_def split: if_splits)
  have b: "2 powi (rat_exp q) \<le> q" "q < 2 powi (rat_exp q + 1)"
    using rat_exp_bounds [of q] q by simp_all
  have e: "(2::rat) powi (rat_exp q) = of_int (2 ^ 52) * 2 powi s"
    "(2::rat) powi (rat_exp q + 1) = of_int (2 ^ 53) * 2 powi s"
    by (simp_all add: s_def power_int_diff power_int_add)
  have "of_int (2 ^ 52) \<le> q / 2 powi s" using b(1) pos unfolding e by (simp add: pos_le_divide_eq)
  then have k_lo: "2 ^ 52 \<le> k" unfolding k_def by (rule round_even_ge)
  have "q / 2 powi s \<le> of_int (2 ^ 53)" using b(2) pos unfolding e by (simp add: pos_divide_le_eq)
  then have k_hi: "k \<le> 2 ^ 53" unfolding k_def by (rule round_even_le)
  have "(of_int (2 ^ 52) :: rat) \<le> of_int k" using k_lo by (simp only: of_int_le_iff)
  then have v_lo: "2 powi (rat_exp q) \<le> v"
    unfolding veq e using pos by (simp add: mult_right_mono)
  have "0 \<le> rat_exp q" using q by (rule rat_exp_ge_1)
  then have "(1::rat) \<le> 2 powi (rat_exp q)" using powi_le_mono [of 0 "rat_exp q"] by simp
  with v_lo have v1: "1 \<le> v" by simp
  show ?thesis
  proof (cases "k = 2 ^ 53")
    case True
    then have vv: "v = 2 powi (rat_exp q + 1)" unfolding veq e by simp
    then have "rat_exp v = rat_exp q + 1"
      by (intro rat_exp_unique) (auto intro: powi_less_mono)
    moreover have "v = of_int (2 ^ 52) * 2 powi (rat_exp q + 1 - 52)"
      unfolding vv by (simp add: power_int_diff power_int_add)
    ultimately show ?thesis by (intro f64_repI [OF v1 fin]) simp
  next
    case False
    with k_hi have "k < 2 ^ 53" by simp
    then have "(of_int k :: rat) < of_int (2 ^ 53)" by (simp only: of_int_less_iff)
    then have "v < 2 powi (rat_exp q + 1)"
      unfolding veq e using pos by (simp add: mult_strict_right_mono)
    with v_lo have "rat_exp v = rat_exp q" by (intro rat_exp_unique)
    with veq show ?thesis by (intro f64_repI [OF v1 fin]) (simp add: s_def)
  qed
qed

lemma f64_rep_double:
  assumes "1 \<le> v" and "f64_rep v" and "2 * v < 2 ^ 1024"
  shows "f64_rep (2 * v)"
proof -
  from f64_rep_int_multiple [OF assms(1,2)] obtain k where k: "v = of_int k * 2 powi (rat_exp v - 52)"
    by blast
  have "rat_exp (2 * v) - 52 = (rat_exp v - 52) + 1" using assms(1) by (simp add: rat_exp_double)
  then have "(2::rat) powi (rat_exp (2 * v) - 52) = 2 * 2 powi (rat_exp v - 52)"
    by (simp only: powi_Suc)
  with k assms(1,3) show ?thesis by (intro f64_repI [of _ k]) simp_all
qed

lemma f64_rep_int:
  assumes "1 \<le> i" and "i \<le> 2 ^ 53"
  shows "f64_rep (of_int i)"
proof (cases "i = 2 ^ 53")
  case True
  have "rat_exp (2 powi 53) = 53" by (rule rat_exp_unique) simp_all
  then have "rat_exp (of_int i) = 53" by (simp add: True)
  then show ?thesis by (intro f64_repI [of _ "2 ^ 52"]) (simp_all add: True)
next
  case False
  with assms have i: "i < 2 ^ 53" by simp
  define e where "e = rat_exp (of_int i)"
  have b: "2 powi e \<le> (of_int i :: rat)" using rat_exp_bounds [of "of_int i"] assms(1) by (simp add: e_def)
  have "(of_int i :: rat) < of_int (2 ^ 53)" using i by (simp only: of_int_less_iff)
  with b have "(2::rat) powi e < 2 powi 53" by simp
  then have "e < 53" using powi_le_mono [of 53 e] by linarith
  then have "of_int i = of_int (i * 2 ^ nat (52 - e)) * (2::rat) powi (e - 52)"
    by (simp add: power_int_def field_simps flip: power_add)
  moreover have "(of_int i :: rat) < 2 ^ 1024"
  proof -
    have "(of_int i :: rat) < 2 ^ 53" using \<open>(of_int i :: rat) < of_int (2 ^ 53)\<close> by simp
    also have "(2::rat) ^ 53 \<le> 2 ^ 1024" by (rule power_increasing) simp_all
    finally show ?thesis .
  qed
  ultimately show ?thesis
    using assms(1) by (intro f64_repI [of _ "i * 2 ^ nat (52 - e)"]) (simp_all add: e_def)
qed

end
