(* ===== verification/MQ_Config.thy ===== *)
theory MQ_Config
  imports MQ_Types Go_Float
begin

text \<open>
  \<^verbatim>\<open>src/mq/config.go\<close>: the configuration struct, its defaults and its validation.
  OpenTelemetry providers are opaque handles; a nil provider is \<^term>\<open>None\<close>.
\<close>

record TLSConfig =
  KeyRepository :: string
  CertificateLabel :: string
  CipherSpec :: string
  PeerName :: string
  FIPSRequired :: bool

text \<open>
  The values of the OpenTelemetry interfaces: the no-op providers of the API's noop packages
  or a provider of the application; the no-op propagator of the core package, the one of
  \<^verbatim>\<open>src/otel\<close> or one of the application. In a configuration \<^term>\<open>None\<close> is nil.
\<close>

datatype provider = NoopProvider | AppProvider nat

datatype text_map_propagator = noopTextMapPropagator | noopPropagator | AppPropagator nat

record TelemetryConfig =
  TracerProvider :: "provider option"
  MeterProvider :: "provider option"
  Propagator :: "text_map_propagator option"

record Config =
  QueueManagerName :: string
  ConnectionName :: string
  ChannelName :: string
  Username :: string
  Password :: string
  TLS :: "TLSConfig option"
  InputQueue :: string
  OutputQueue :: string
  ModelQueue :: string
  InputConcurrency :: int
  OutputConcurrency :: int
  ProducerTTL :: duration
  MaxRetries :: int
  InitialRetryInterval :: duration
  RetryMultiplier :: float64
  MaxRetryInterval :: duration
  SetQueueManager :: bool
  Telemetry :: "TelemetryConfig option"

definition applyDefaults :: "Config \<Rightarrow> Config" where
  "applyDefaults c0 =
     (let c1 = (if ModelQueue c0 = [] then c0\<lparr>ModelQueue := ''SYSTEM.DEFAULT.MODEL.QUEUE''\<rparr> else c0);
          c2 = (if InputConcurrency c1 \<le> 0 then c1\<lparr>InputConcurrency := 1\<rparr> else c1);
          c3 = (if OutputConcurrency c2 \<le> 0 then c2\<lparr>OutputConcurrency := 1\<rparr> else c2);
          c4 = (if MaxRetries c3 \<le> 0 then c3\<lparr>MaxRetries := 10\<rparr> else c3);
          c5 = (if InitialRetryInterval c4 \<le> 0
                then c4\<lparr>InitialRetryInterval := 2 * second\<rparr> else c4);
          c6 = (if f64_less (RetryMultiplier c5) (Fin 1) then c5\<lparr>RetryMultiplier := Fin 2\<rparr> else c5);
          c7 = (if MaxRetryInterval c6 \<le> 0 then c6\<lparr>MaxRetryInterval := 30 * second\<rparr> else c6)
      in c7)"

text \<open>The UTF-8 bytes of the sign in ``must be \<open>\<ge>\<close> 1''.\<close>

definition ge_sign :: string where
  "ge_sign = [CHR 0xE2, CHR 0x89, CHR 0xA5]"

definition validation_errors :: "Config \<Rightarrow> string list" where
  "validation_errors c =
     (if QueueManagerName c = [] then [''QueueManagerName is required''] else []) @
     (if ConnectionName c = [] then [''ConnectionName is required''] else []) @
     (if ChannelName c = [] then [''ChannelName is required''] else []) @
     (if InputConcurrency c < 1 then [''InputConcurrency must be '' @ ge_sign @ '' 1''] else []) @
     (if OutputConcurrency c < 1 then [''OutputConcurrency must be '' @ ge_sign @ '' 1''] else []) @
     (if MaxRetries c < 0 then [''MaxRetries must be '' @ ge_sign @ '' 0''] else []) @
     (if f64_less (RetryMultiplier c) (Fin 1)
      then [''RetryMultiplier must be '' @ ge_sign @ '' 1.0''] else []) @
     (if ProducerTTL c < 0 then [''ProducerTTL must be '' @ ge_sign @ '' 0''] else [])"

fun join_errors :: "string \<Rightarrow> string list \<Rightarrow> string" where
  "join_errors msg [] = msg"
| "join_errors msg (e # es) = join_errors (msg @ ''; '' @ e) es"

definition Validate :: "Config \<Rightarrow> go_error option" where
  "Validate c =
     (case validation_errors c of
        [] \<Rightarrow> None
      | e # es \<Rightarrow>
          Some (Errorf (sentinel_text ErrInvalidConfig @ '': '' @ join_errors e es)
                  [Sentinel ErrInvalidConfig]))"

text \<open>The zero value of the struct: no field set by the application.\<close>

definition zero_config :: Config where
  "zero_config =
     \<lparr>QueueManagerName = [], ConnectionName = [], ChannelName = [], Username = [], Password = [],
      TLS = None, InputQueue = [], OutputQueue = [], ModelQueue = [], InputConcurrency = 0,
      OutputConcurrency = 0, ProducerTTL = 0, MaxRetries = 0, InitialRetryInterval = 0,
      RetryMultiplier = Fin 0, MaxRetryInterval = 0, SetQueueManager = False, Telemetry = None\<rparr>"

text \<open>
  Every constrained field is in its documented range. A multiplier of at least one is not the
  same as one that is not less than one: NaN is neither.
\<close>

definition multiplier_ok :: "float64 \<Rightarrow> bool" where
  "multiplier_ok m \<longleftrightarrow> m = Fin 1 \<or> f64_less (Fin 1) m"

definition config_ok :: "Config \<Rightarrow> bool" where
  "config_ok c \<longleftrightarrow>
     QueueManagerName c \<noteq> [] \<and> ConnectionName c \<noteq> [] \<and> ChannelName c \<noteq> [] \<and>
     ModelQueue c \<noteq> [] \<and> 1 \<le> InputConcurrency c \<and> 1 \<le> OutputConcurrency c \<and>
     1 \<le> MaxRetries c \<and> 0 < InitialRetryInterval c \<and> 0 < MaxRetryInterval c \<and>
     multiplier_ok (RetryMultiplier c) \<and> 0 \<le> ProducerTTL c"

subsection \<open>Defaults\<close>

lemma applyDefaults_simps [simp]:
  "QueueManagerName (applyDefaults c) = QueueManagerName c"
  "ConnectionName (applyDefaults c) = ConnectionName c"
  "ChannelName (applyDefaults c) = ChannelName c"
  "Username (applyDefaults c) = Username c"
  "Password (applyDefaults c) = Password c"
  "TLS (applyDefaults c) = TLS c"
  "InputQueue (applyDefaults c) = InputQueue c"
  "OutputQueue (applyDefaults c) = OutputQueue c"
  "ProducerTTL (applyDefaults c) = ProducerTTL c"
  "SetQueueManager (applyDefaults c) = SetQueueManager c"
  "Telemetry (applyDefaults c) = Telemetry c"
  "ModelQueue (applyDefaults c) =
     (if ModelQueue c = [] then ''SYSTEM.DEFAULT.MODEL.QUEUE'' else ModelQueue c)"
  "InputConcurrency (applyDefaults c) = (if InputConcurrency c \<le> 0 then 1 else InputConcurrency c)"
  "OutputConcurrency (applyDefaults c) = (if OutputConcurrency c \<le> 0 then 1 else OutputConcurrency c)"
  "MaxRetries (applyDefaults c) = (if MaxRetries c \<le> 0 then 10 else MaxRetries c)"
  "InitialRetryInterval (applyDefaults c) =
     (if InitialRetryInterval c \<le> 0 then 2 * second else InitialRetryInterval c)"
  "RetryMultiplier (applyDefaults c) =
     (if f64_less (RetryMultiplier c) (Fin 1) then Fin 2 else RetryMultiplier c)"
  "MaxRetryInterval (applyDefaults c) =
     (if MaxRetryInterval c \<le> 0 then 30 * second else MaxRetryInterval c)"
  by (simp_all add: applyDefaults_def Let_def)

lemma applyDefaults_idem: "applyDefaults (applyDefaults c) = applyDefaults c"
  by (rule Config.equality) (simp_all add: second_def)

lemma multiplier_ok_iff: "multiplier_ok m \<longleftrightarrow> \<not> f64_less m (Fin 1) \<and> m \<noteq> NaN"
  by (cases m) (auto simp: multiplier_ok_def)

lemma applyDefaults_id: "config_ok c \<Longrightarrow> applyDefaults c = c"
  by (rule Config.equality) (auto simp: config_ok_def multiplier_ok_iff)

subsection \<open>Validation\<close>

lemma Validate_None: "Validate c = None \<longleftrightarrow> validation_errors c = []"
  by (simp add: Validate_def split: list.splits)

lemma validation_errors_Nil:
  "validation_errors c = [] \<longleftrightarrow>
     QueueManagerName c \<noteq> [] \<and> ConnectionName c \<noteq> [] \<and> ChannelName c \<noteq> [] \<and>
     1 \<le> InputConcurrency c \<and> 1 \<le> OutputConcurrency c \<and> 0 \<le> MaxRetries c \<and>
     \<not> f64_less (RetryMultiplier c) (Fin 1) \<and> 0 \<le> ProducerTTL c"
  by (auto simp: validation_errors_def)

lemma Validate_error:
  "Validate c = Some e \<Longrightarrow> error_is e ErrInvalidConfig"
  by (auto simp: Validate_def split: list.splits)

lemma Validate_credentials:
  "Validate (applyDefaults (c\<lparr>Username := u, Password := p, TLS := t\<rparr>)) = Validate (applyDefaults c)"
  by (simp add: Validate_def validation_errors_def)

text \<open>
  C36: defaults first, validation second, as \<^verbatim>\<open>NewClient\<close> runs them: the configuration is
  accepted exactly when the three required names are set and the producer TTL is not
  negative; an accepted configuration then has every constrained field in its documented range,
  except that a \<^verbatim>\<open>RetryMultiplier\<close> of NaN, which should be at least 1, is neither replaced nor
  refused; running the defaults on it again changes nothing. Every other configuration yields an error
  that wraps \<^verbatim>\<open>ErrInvalidConfig\<close>. The outcome, error text included, is the same whatever
  the credentials are: user name, password and the whole TLS section.
\<close>

theorem validate_after_defaults:
  "(if QueueManagerName c \<noteq> [] \<and> ConnectionName c \<noteq> [] \<and> ChannelName c \<noteq> [] \<and> 0 \<le> ProducerTTL c
    then Validate (applyDefaults c) = None \<and>
         (config_ok (applyDefaults c) \<longleftrightarrow> RetryMultiplier c \<noteq> NaN) \<and>
         config_ok ((applyDefaults c)\<lparr>RetryMultiplier := Fin 1\<rparr>) \<and>
         (RetryMultiplier (applyDefaults c) = NaN \<longleftrightarrow> RetryMultiplier c = NaN) \<and>
         applyDefaults (applyDefaults c) = applyDefaults c
    else \<exists>e. Validate (applyDefaults c) = Some e \<and> error_is e ErrInvalidConfig) \<and>
   Validate (applyDefaults (c\<lparr>Username := u, Password := p, TLS := t\<rparr>)) = Validate (applyDefaults c)"
proof (cases "Validate (applyDefaults c)")
  case None
  then show ?thesis
    unfolding Validate_credentials
    by (auto simp: Validate_None validation_errors_Nil config_ok_def multiplier_ok_iff applyDefaults_idem
        second_def)
next
  case (Some e)
  then have "validation_errors (applyDefaults c) \<noteq> []"
    using Validate_None [of "applyDefaults c"] by simp
  with Validate_error [OF Some] Some show ?thesis
    unfolding Validate_credentials by (auto simp: validation_errors_Nil split: if_splits)
qed

end
