(* ===== verification/MQ_Telemetry.thy ===== *)
theory MQ_Telemetry
  imports MQ_Config "HOL-Library.Multiset"
begin

text \<open>
  \<^verbatim>\<open>src/mq/telemetry.go\<close>: the instruments of a component and the helpers that start and
  end spans, count errors and connections and carry the trace context in a message.
  The OpenTelemetry API is a parameter; every call the library makes on a span or an
  instrument is appended to the component's log, in order, also when
  the provider is a no-op one that ignores it.
\<close>

type_synonym span = nat

datatype SpanKind = SpanKindProducer | SpanKindConsumer | SpanKindClient

datatype instrument = Float64Histogram | Int64ObservableGauge | Int64Counter

datatype tel_event =
    NewInstrument instrument string string string
  | SpanStart span SpanKind string "(string \<times> string) list"
  | SetAttribute span string string
  | RecordError span go_error
  | SetStatusError span string
  | SpanEnd span
  | RecordPublish ctx float64
  | RecordReceive ctx float64
  | AddError ctx string

text \<open>
  The parameter: what context a tracer's \<^verbatim>\<open>Start\<close> returns for a new span and what a
  propagator of the application writes to and reads from a carrier.
\<close>

record otel =
  Tracer_Start :: "provider \<Rightarrow> ctx \<Rightarrow> span \<Rightarrow> ctx"
  Prop_Inject :: "nat \<Rightarrow> ctx \<Rightarrow> properties \<Rightarrow> properties"
  Prop_Extract :: "nat \<Rightarrow> ctx \<Rightarrow> properties \<Rightarrow> ctx"

text \<open>The counter \<^verbatim>\<open>activeConns\<close> is an atomic 64-bit integer; \<open>spans\<close> numbers the spans.\<close>

record mqTelemetry =
  tracer :: provider
  meter :: provider
  propagator :: text_map_propagator
  activeConns :: "64 word"
  spans :: span
  tel_log :: "tel_event list"

definition tel_emit :: "tel_event \<Rightarrow> mqTelemetry \<Rightarrow> mqTelemetry" where
  "tel_emit ev t = t\<lparr>tel_log := tel_log t @ [ev]\<rparr>"

definition newMQTelemetry :: "TelemetryConfig option \<Rightarrow> mqTelemetry" where
  "newMQTelemetry cfg =
     \<lparr>tracer = (case Option.bind cfg TracerProvider of None \<Rightarrow> NoopProvider | Some tp \<Rightarrow> tp),
      meter = (case Option.bind cfg MeterProvider of None \<Rightarrow> NoopProvider | Some mp \<Rightarrow> mp),
      propagator = (case Option.bind cfg Propagator of None \<Rightarrow> noopTextMapPropagator | Some prop \<Rightarrow> prop),
      activeConns = 0, spans = 0,
      tel_log =
        [NewInstrument Float64Histogram ''messaging.publish.duration''
           ''Time from Put call start to Put return'' ''ms'',
         NewInstrument Float64Histogram ''messaging.receive.duration''
           ''Time from message available to handler return'' ''ms'',
         NewInstrument Int64ObservableGauge ''messaging.connection.active''
           ''Count of live MQ connections'' ''{connection}'',
         NewInstrument Int64Counter ''messaging.errors.total''
           ''Count of errors labeled by error.type'' ''{error}'']\<rparr>"

text \<open>The value the gauge's callback observes.\<close>

definition observe_active :: "mqTelemetry \<Rightarrow> int" where
  "observe_active t = sint (activeConns t)"

definition start_span ::
  "otel \<Rightarrow> ctx \<Rightarrow> SpanKind \<Rightarrow> string \<Rightarrow> (string \<times> string) list \<Rightarrow> mqTelemetry \<Rightarrow>
   ctx \<times> span \<times> mqTelemetry" where
  "start_span ot ctx kind name attrs t =
     (Tracer_Start ot (tracer t) ctx (spans t), spans t,
      tel_emit (SpanStart (spans t) kind name attrs) (t\<lparr>spans := spans t + 1\<rparr>))"

definition startProducerSpan ::
  "otel \<Rightarrow> ctx \<Rightarrow> string \<Rightarrow> mqTelemetry \<Rightarrow> ctx \<times> span \<times> mqTelemetry" where
  "startProducerSpan ot ctx queueName t =
     start_span ot ctx SpanKindProducer ''messaging send''
       [(''messaging.system'', ''ibmmq''), (''messaging.destination.name'', queueName),
        (''messaging.operation.type'', ''send'')] t"

definition startConsumerSpan ::
  "otel \<Rightarrow> ctx \<Rightarrow> string \<Rightarrow> string \<Rightarrow> mqTelemetry \<Rightarrow> ctx \<times> span \<times> mqTelemetry" where
  "startConsumerSpan ot ctx queueName msgID t =
     start_span ot ctx SpanKindConsumer ''messaging receive''
       [(''messaging.system'', ''ibmmq''), (''messaging.destination.name'', queueName),
        (''messaging.operation.type'', ''receive''), (''messaging.message.id'', msgID)] t"

definition startClientSpan ::
  "otel \<Rightarrow> ctx \<Rightarrow> string \<Rightarrow> mqTelemetry \<Rightarrow> ctx \<times> span \<times> mqTelemetry" where
  "startClientSpan ot ctx queueName t =
     start_span ot ctx SpanKindClient ''messaging request-reply''
       [(''messaging.system'', ''ibmmq''), (''messaging.destination.name'', queueName),
        (''messaging.operation.type'', ''receive'')] t"

text \<open>A no-op propagator leaves the carrier and the context as they are.\<close>

definition propagator_Inject :: "otel \<Rightarrow> text_map_propagator \<Rightarrow> ctx \<Rightarrow> properties \<Rightarrow> properties" where
  "propagator_Inject ot p ctx carrier =
     (case p of AppPropagator q \<Rightarrow> Prop_Inject ot q ctx carrier | _ \<Rightarrow> carrier)"

definition propagator_Extract :: "otel \<Rightarrow> text_map_propagator \<Rightarrow> ctx \<Rightarrow> properties \<Rightarrow> ctx" where
  "propagator_Extract ot p ctx carrier =
     (case p of AppPropagator q \<Rightarrow> Prop_Extract ot q ctx carrier | _ \<Rightarrow> ctx)"

definition injectToMessage :: "otel \<Rightarrow> mqTelemetry \<Rightarrow> ctx \<Rightarrow> Message \<Rightarrow> Message" where
  "injectToMessage ot t ctx msg =
     (let props = (case UserProperties msg of None \<Rightarrow> Map.empty | Some m \<Rightarrow> m) in
      msg\<lparr>UserProperties := Some (propagator_Inject ot (propagator t) ctx props)\<rparr>)"

text \<open>Reading a nil map finds nothing, as reading an empty one.\<close>

definition extractFromMessage :: "otel \<Rightarrow> mqTelemetry \<Rightarrow> ctx \<Rightarrow> Message \<Rightarrow> ctx" where
  "extractFromMessage ot t ctx msg =
     propagator_Extract ot (propagator t) ctx
       (case UserProperties msg of None \<Rightarrow> Map.empty | Some m \<Rightarrow> m)"

text \<open>\<^verbatim>\<open>float64(d.Microseconds()) / 1000.0\<close> for an elapsed duration \<open>d\<close>.\<close>

definition elapsed_ms :: "duration \<Rightarrow> float64" where
  "elapsed_ms d =
     (case f64_of_int (go_quot d 1000) of Fin q \<Rightarrow> f64_round (q / 1000) | x \<Rightarrow> x)"

definition recordPublishDuration :: "ctx \<Rightarrow> duration \<Rightarrow> mqTelemetry \<Rightarrow> mqTelemetry" where
  "recordPublishDuration ctx elapsed t = tel_emit (RecordPublish ctx (elapsed_ms elapsed)) t"

definition recordReceiveDuration :: "ctx \<Rightarrow> duration \<Rightarrow> mqTelemetry \<Rightarrow> mqTelemetry" where
  "recordReceiveDuration ctx elapsed t = tel_emit (RecordReceive ctx (elapsed_ms elapsed)) t"

definition incConnActive :: "mqTelemetry \<Rightarrow> mqTelemetry" where
  "incConnActive t = t\<lparr>activeConns := activeConns t + 1\<rparr>"

definition decConnActive :: "mqTelemetry \<Rightarrow> mqTelemetry" where
  "decConnActive t = t\<lparr>activeConns := activeConns t - 1\<rparr>"

definition incError :: "ctx \<Rightarrow> string \<Rightarrow> mqTelemetry \<Rightarrow> mqTelemetry" where
  "incError ctx errType t = tel_emit (AddError ctx errType) t"

definition endSpan :: "span \<Rightarrow> go_error option \<Rightarrow> mqTelemetry \<Rightarrow> mqTelemetry" where
  "endSpan sp err t =
     tel_emit (SpanEnd sp)
       (case err of
          None \<Rightarrow> t
        | Some e \<Rightarrow> tel_emit (SetStatusError sp (error_text e)) (tel_emit (RecordError sp e) t))"

subsection \<open>Open spans\<close>

fun span_step :: "span multiset \<Rightarrow> tel_event \<Rightarrow> span multiset" where
  "span_step m (SpanStart n _ _ _) = add_mset n m"
| "span_step m (SpanEnd n) = m - {#n#}"
| "span_step m _ = m"

definition open_spans :: "mqTelemetry \<Rightarrow> span multiset" where
  "open_spans t = foldl span_step {#} (tel_log t)"

lemma tel_emit_simps [simp]:
  "tracer (tel_emit ev t) = tracer t" "meter (tel_emit ev t) = meter t"
  "propagator (tel_emit ev t) = propagator t" "activeConns (tel_emit ev t) = activeConns t"
  "spans (tel_emit ev t) = spans t" "tel_log (tel_emit ev t) = tel_log t @ [ev]"
  "open_spans (tel_emit ev t) = span_step (open_spans t) ev"
  by (simp_all add: tel_emit_def open_spans_def)

lemma open_spans_update [simp]:
  "open_spans (t\<lparr>activeConns := n\<rparr>) = open_spans t"
  "open_spans (t\<lparr>spans := k\<rparr>) = open_spans t"
  by (simp_all add: open_spans_def)

lemma start_span_spec:
  assumes "start_span ot ctx kind name attrs t = (ctx', sp, t')"
  shows "open_spans t' = add_mset sp (open_spans t)" and "activeConns t' = activeConns t"
    and "propagator t' = propagator t"
    and "tel_log t' = tel_log t @ [SpanStart sp kind name attrs]"
  using assms by (auto simp: start_span_def)

lemma startSpan_spec:
  "startProducerSpan ot ctx q t = (ctx', sp, t') \<Longrightarrow>
     open_spans t' = add_mset sp (open_spans t) \<and> activeConns t' = activeConns t"
  "startConsumerSpan ot ctx q m t = (ctx', sp, t') \<Longrightarrow>
     open_spans t' = add_mset sp (open_spans t) \<and> activeConns t' = activeConns t"
  "startClientSpan ot ctx q t = (ctx', sp, t') \<Longrightarrow>
     open_spans t' = add_mset sp (open_spans t) \<and> activeConns t' = activeConns t"
  by (auto simp: startProducerSpan_def startConsumerSpan_def startClientSpan_def
      dest: start_span_spec)

lemma endSpan_open [simp]: "open_spans (endSpan sp err t) = open_spans t - {#sp#}"
  by (simp add: endSpan_def split: option.splits)

lemma endSpan_active [simp]: "activeConns (endSpan sp err t) = activeConns t"
  by (simp add: endSpan_def split: option.splits)

lemma tel_ops_open [simp]:
  "open_spans (incError c x t) = open_spans t"
  "open_spans (recordPublishDuration c d t) = open_spans t"
  "open_spans (recordReceiveDuration c d t) = open_spans t"
  "open_spans (incConnActive t) = open_spans t"
  "open_spans (decConnActive t) = open_spans t"
  by (simp_all add: incError_def recordPublishDuration_def recordReceiveDuration_def
      incConnActive_def decConnActive_def)

lemma tel_ops_active [simp]:
  "activeConns (incError c x t) = activeConns t"
  "activeConns (recordPublishDuration c d t) = activeConns t"
  "activeConns (recordReceiveDuration c d t) = activeConns t"
  "activeConns (incConnActive t) = activeConns t + 1"
  "activeConns (decConnActive t) = activeConns t - 1"
  by (simp_all add: incError_def recordPublishDuration_def recordReceiveDuration_def
      incConnActive_def decConnActive_def)

lemma tel_ops_log [simp]:
  "tel_log (incError c x t) = tel_log t @ [AddError c x]"
  "tel_log (recordPublishDuration c d t) = tel_log t @ [RecordPublish c (elapsed_ms d)]"
  "tel_log (recordReceiveDuration c d t) = tel_log t @ [RecordReceive c (elapsed_ms d)]"
  "tel_log (incConnActive t) = tel_log t"
  "tel_log (decConnActive t) = tel_log t"
  by (simp_all add: incError_def recordPublishDuration_def recordReceiveDuration_def
      incConnActive_def decConnActive_def)

lemma newMQTelemetry_open [simp]: "open_spans (newMQTelemetry cfg) = {#}"
  by (simp add: newMQTelemetry_def open_spans_def)

lemma newMQTelemetry_active [simp]: "activeConns (newMQTelemetry cfg) = 0"
  by (simp add: newMQTelemetry_def)

end
