(* ===== verification/MQ_Api.thy ===== *)
theory MQ_Api
  imports MQ_Telemetry
begin

text \<open>
  What the library calls and does not implement, as a parameter: the IBM MQ binding
  \<^verbatim>\<open>ibmmq\<close> (struct constructors, option constants and MQI calls) and the outside world a
  Go program observes (context cancellation, timers, random numbers, and the
  implementation-dependent float conversion). Every call takes and returns the state
  \<open>'w\<close> of that world, so two observations of a context may differ.

  The library's own view of a run is \<^verbatim>\<open>io\<close>: the world and the trace of the calls made
  so far with their answers, including the calls of the user's message handler and error
  callback. Properties about how often the library dials, what it puts
  and which handles it closes are stated on the trace.
\<close>

record mqmd =
  MsgId :: bytes
  CorrelId :: bytes
  ReplyToQ :: string
  ReplyToQMgr :: string
  Expiry :: int

record mqcd =
  cd_ChannelName :: string
  cd_ConnectionName :: string
  cd_SSLCipherSpec :: string
  cd_SSLPeerName :: string

record mqcsp =
  csp_AuthenticationType :: "32 word"
  csp_UserId :: string
  csp_Password :: string

record mqsco =
  sco_KeyRepository :: string
  sco_CertificateLabel :: string
  sco_FipsRequired :: bool

record mqcno =
  cno_Options :: "32 word"
  cno_ClientConn :: "mqcd option"
  cno_SecurityParms :: "mqcsp option"
  cno_SSLConfig :: "mqsco option"

record mqod =
  ObjectName :: string
  DynamicQName :: string

record mqpmo =
  pmo_Options :: "32 word"

record mqgmo =
  gmo_Options :: "32 word"
  gmo_MatchOptions :: "32 word"
  gmo_WaitInterval :: int

type_synonym handle = nat

record 'w env =
  newMQMD :: mqmd
  newMQCD :: mqcd
  newMQCSP :: mqcsp
  newMQSCO :: mqsco
  newMQCNO :: mqcno
  newMQOD :: mqod
  newMQPMO :: mqpmo
  newMQGMO :: mqgmo
  MQCNO_CLIENT_BINDING :: "32 word"
  MQCSP_AUTH_USER_ID_AND_PWD :: "32 word"
  MQOO_INPUT_AS_Q_DEF :: "32 word"
  MQOO_INPUT_SHARED :: "32 word"
  MQOO_INPUT_EXCLUSIVE :: "32 word"
  MQOO_OUTPUT :: "32 word"
  MQOO_FAIL_IF_QUIESCING :: "32 word"
  MQOO_READ_AHEAD :: "32 word"
  MQPMO_NEW_MSG_ID :: "32 word"
  MQPMO_NO_SYNCPOINT :: "32 word"
  MQGMO_WAIT :: "32 word"
  MQGMO_NO_SYNCPOINT :: "32 word"
  MQMO_MATCH_CORREL_ID :: "32 word"
  Connx :: "string \<Rightarrow> mqcno \<Rightarrow> 'w \<Rightarrow> (go_error + handle) \<times> 'w"
  Disc :: "handle \<Rightarrow> 'w \<Rightarrow> go_error option \<times> 'w"
  OpenQ :: "handle \<Rightarrow> mqod \<Rightarrow> 32 word \<Rightarrow> 'w \<Rightarrow> (go_error + handle \<times> mqod) \<times> 'w"
  CloseQ :: "handle \<Rightarrow> 'w \<Rightarrow> 'w"
  PutQ :: "handle \<Rightarrow> mqmd \<Rightarrow> mqpmo \<Rightarrow> bytes \<Rightarrow> 'w \<Rightarrow> (go_error + mqmd) \<times> 'w"
  GetSliceQ :: "handle \<Rightarrow> mqmd \<Rightarrow> mqgmo \<Rightarrow> nat \<Rightarrow> 'w \<Rightarrow> (go_error + mqmd \<times> bytes) \<times> 'w"
  ctxErr :: "ctx \<Rightarrow> 'w \<Rightarrow> go_error option \<times> 'w"
  timerOrDone :: "ctx \<Rightarrow> duration \<Rightarrow> 'w \<Rightarrow> go_error option \<times> 'w"
  awaitDone :: "ctx \<Rightarrow> 'w \<Rightarrow> (go_error \<times> 'w) option"
  Int63n :: "int \<Rightarrow> 'w \<Rightarrow> int \<times> 'w"
  randRead :: "nat \<Rightarrow> 'w \<Rightarrow> (go_error + bytes) \<times> 'w"
  timeNow :: "'w \<Rightarrow> duration \<times> 'w"
  otel_api :: otel
  f64_impl :: "float64 \<Rightarrow> int"

text \<open>
  \<^item> \<open>Connx\<close> to \<open>GetSliceQ\<close>: the MQI verbs; \<open>OpenQ\<close> also returns the object descriptor it
    wrote back to, \<open>PutQ\<close> and \<open>GetSliceQ\<close> the message descriptor.
  \<^item> \<open>ctxErr\<close>: \<^verbatim>\<open>ctx.Err()\<close>. \<open>timerOrDone\<close>: a \<^verbatim>\<open>select\<close> on a timer and \<^verbatim>\<open>ctx.Done()\<close>; an
    error means the second branch was taken and is the value of \<^verbatim>\<open>ctx.Err()\<close> there.
  \<^item> \<open>awaitDone\<close>: waiting for \<^verbatim>\<open>ctx.Done()\<close> alone; \<^term>\<open>None\<close> means it never fires.
  \<^item> \<open>Int63n\<close>: \<^verbatim>\<open>math/rand\<close>; \<open>randRead\<close>: \<^verbatim>\<open>crypto/rand\<close>; \<open>f64_impl\<close>: the result of an
    out-of-range float conversion.
  \<^item> \<open>timeNow\<close>: the monotonic clock; \<open>otel_api\<close>: OpenTelemetry.
\<close>

datatype mq_event =
    EConnx string mqcno "go_error + handle"
  | EDisc handle
  | EOpen handle string "32 word" "go_error + handle"
  | EClose handle
  | EPut handle mqmd mqpmo bytes "go_error option"
  | EGet handle mqmd mqgmo "go_error + mqmd \<times> bytes"
  | ESleep duration
  | EHandler Message
  | EReport "Message option" go_error

record 'w io =
  world :: 'w
  trace :: "mq_event list"

definition emit :: "mq_event \<Rightarrow> 'w \<Rightarrow> 'w io \<Rightarrow> 'w io" where
  "emit ev w io = io\<lparr>world := w, trace := trace io @ [ev]\<rparr>"

definition mq_Connx ::
  "'w env \<Rightarrow> string \<Rightarrow> mqcno \<Rightarrow> 'w io \<Rightarrow> (go_error + handle) \<times> 'w io" where
  "mq_Connx env name cno io =
     (case Connx env name cno (world io) of (r, w) \<Rightarrow> (r, emit (EConnx name cno r) w io))"

definition mq_Disc :: "'w env \<Rightarrow> handle \<Rightarrow> 'w io \<Rightarrow> go_error option \<times> 'w io" where
  "mq_Disc env h io = (case Disc env h (world io) of (r, w) \<Rightarrow> (r, emit (EDisc h) w io))"

definition mq_Open ::
  "'w env \<Rightarrow> handle \<Rightarrow> mqod \<Rightarrow> 32 word \<Rightarrow> 'w io \<Rightarrow> (go_error + handle \<times> mqod) \<times> 'w io" where
  "mq_Open env h od oo io =
     (case OpenQ env h od oo (world io) of
        (r, w) \<Rightarrow> (r, emit (EOpen h (ObjectName od) oo (map_sum id fst r)) w io))"

definition mq_Close :: "'w env \<Rightarrow> handle \<Rightarrow> 'w io \<Rightarrow> 'w io" where
  "mq_Close env q io = emit (EClose q) (CloseQ env q (world io)) io"

definition mq_Put ::
  "'w env \<Rightarrow> handle \<Rightarrow> mqmd \<Rightarrow> mqpmo \<Rightarrow> bytes \<Rightarrow> 'w io \<Rightarrow> (go_error + mqmd) \<times> 'w io" where
  "mq_Put env q md pmo body io =
     (case PutQ env q md pmo body (world io) of
        (r, w) \<Rightarrow>
          (r, emit (EPut q md pmo body (case r of Inl e \<Rightarrow> Some e | Inr _ \<Rightarrow> None)) w io))"

definition mq_Get ::
  "'w env \<Rightarrow> handle \<Rightarrow> mqmd \<Rightarrow> mqgmo \<Rightarrow> nat \<Rightarrow> 'w io \<Rightarrow> (go_error + mqmd \<times> bytes) \<times> 'w io" where
  "mq_Get env q md gmo n io =
     (case GetSliceQ env q md gmo n (world io) of
        (r, w) \<Rightarrow> (r, emit (EGet q md gmo r) w io))"

definition ctx_Err :: "'w env \<Rightarrow> ctx \<Rightarrow> 'w io \<Rightarrow> go_error option \<times> 'w io" where
  "ctx_Err env ctx io = (case ctxErr env ctx (world io) of (r, w) \<Rightarrow> (r, io\<lparr>world := w\<rparr>))"

definition time_Now :: "'w env \<Rightarrow> 'w io \<Rightarrow> duration \<times> 'w io" where
  "time_Now env io = (case timeNow env (world io) of (d, w) \<Rightarrow> (d, io\<lparr>world := w\<rparr>))"

text \<open>
  User callbacks see and change the world and may panic. A \<^verbatim>\<open>MessageCreator\<close> gets the
  message by pointer and returns an error or nil: its value is that error and the
  message it leaves behind.
\<close>

type_synonym 'w MessageCreator =
  "Message \<Rightarrow> 'w \<Rightarrow> (go_error option \<times> Message) outcome \<times> 'w"

text \<open>A message handler may also change the message it got by pointer.\<close>

type_synonym 'w MessageHandler =
  "ctx \<Rightarrow> Message \<Rightarrow> 'w \<Rightarrow> go_error option outcome \<times> Message \<times> 'w"

type_synonym 'w ListenerErrorHandler =
  "ctx \<Rightarrow> Message option \<Rightarrow> go_error \<Rightarrow> 'w \<Rightarrow> unit outcome \<times> 'w"

subsection \<open>Trace observations\<close>

fun is_connx :: "mq_event \<Rightarrow> bool" where
  "is_connx (EConnx _ _ _) = True"
| "is_connx _ = False"

fun is_sleep :: "mq_event \<Rightarrow> bool" where
  "is_sleep (ESleep _) = True"
| "is_sleep _ = False"

fun is_put :: "mq_event \<Rightarrow> bool" where
  "is_put (EPut _ _ _ _ _) = True"
| "is_put _ = False"

fun is_good_put :: "mq_event \<Rightarrow> bool" where
  "is_good_put (EPut _ _ _ _ None) = True"
| "is_good_put _ = False"

definition dials :: "'w io \<Rightarrow> nat" where
  "dials io = length (filter is_connx (trace io))"

definition sleeps :: "'w io \<Rightarrow> nat" where
  "sleeps io = length (filter is_sleep (trace io))"

definition puts :: "'w io \<Rightarrow> nat" where
  "puts io = length (filter is_put (trace io))"

text \<open>Queue handles that a trace opened and has not closed yet.\<close>

fun handle_step :: "handle multiset \<Rightarrow> mq_event \<Rightarrow> handle multiset" where
  "handle_step m (EOpen _ _ _ (Inr q)) = add_mset q m"
| "handle_step m (EClose q) = m - {#q#}"
| "handle_step m _ = m"

definition open_handles :: "mq_event list \<Rightarrow> handle multiset" where
  "open_handles evs = foldl handle_step {#} evs"

lemma open_handles_append [simp]:
  "open_handles (xs @ ys) = foldl handle_step (open_handles xs) ys"
  by (simp add: open_handles_def)

text \<open>What a call leaves as it was unless it opens, closes or puts: the three queue-level counts.\<close>

definition good_puts :: "'w io \<Rightarrow> nat" where
  "good_puts io = length (filter is_good_put (trace io))"

definition queue_counts :: "'w io \<Rightarrow> nat \<times> nat \<times> handle multiset" where
  "queue_counts io = (puts io, good_puts io, open_handles (trace io))"

lemma emit_simps [simp]:
  "world (emit ev w io) = w" "trace (emit ev w io) = trace io @ [ev]"
  by (simp_all add: emit_def)

lemma ctx_Err_trace [simp]: "trace (snd (ctx_Err env ctx io)) = trace io"
  by (simp add: ctx_Err_def split: prod.splits)

lemma ctx_Err_counts:
  assumes "ctx_Err env ctx io = (r, io')"
  shows "trace io' = trace io"
  using ctx_Err_trace [of env ctx io] assms by simp

lemma time_Now_trace [simp]: "trace (snd (time_Now env io)) = trace io"
  by (simp add: time_Now_def split: prod.splits)

text \<open>
  The events of a trace that are not about the connection itself, and on which alone the
  queue-level counts depend.
\<close>

fun is_link :: "mq_event \<Rightarrow> bool" where
  "is_link (EConnx _ _ _) = True"
| "is_link (EDisc _) = True"
| "is_link (ESleep _) = True"
| "is_link _ = False"

definition queue_trace :: "'w io \<Rightarrow> mq_event list" where
  "queue_trace io = filter (\<lambda>e. \<not> is_link e) (trace io)"

lemma filter_queue_events:
  assumes "\<And>e. P e \<Longrightarrow> \<not> is_link e"
  shows "filter P (filter (\<lambda>e. \<not> is_link e) evs) = filter P evs"
  using assms by (induction evs) auto

lemma link_handle_step: "is_link e \<Longrightarrow> handle_step m e = m"
  by (cases e) simp_all

lemma open_handles_queue_events: "open_handles (filter (\<lambda>e. \<not> is_link e) evs) = open_handles evs"
proof -
  have "foldl handle_step m (filter (\<lambda>e. \<not> is_link e) evs) = foldl handle_step m evs" for m
    by (induction evs arbitrary: m) (simp_all add: link_handle_step)
  then show ?thesis by (simp add: open_handles_def)
qed

lemma queue_counts_events:
  "queue_counts io = (length (filter is_put (queue_trace io)), length (filter is_good_put (queue_trace io)),
     open_handles (queue_trace io))"
proof -
  have "is_put e \<Longrightarrow> \<not> is_link e" "is_good_put e \<Longrightarrow> \<not> is_link e" for e by (cases e; simp)+
  then show ?thesis
    by (simp add: queue_counts_def puts_def good_puts_def queue_trace_def filter_queue_events
        open_handles_queue_events del: filter_filter)
qed

lemma queue_counts_of: "queue_trace io' = queue_trace io \<Longrightarrow> queue_counts io' = queue_counts io"
  by (simp add: queue_counts_events)

lemma queue_trace_of: "trace io' = trace io \<Longrightarrow> queue_trace io' = queue_trace io"
  by (simp add: queue_trace_def)

lemma queue_trace_update [simp]: "queue_trace (io\<lparr>world := w\<rparr>) = queue_trace io"
  by (rule queue_trace_of) simp

lemma ctx_Err_queue_trace:
  "ctx_Err env ctx io = (r, io') \<Longrightarrow> queue_trace io' = queue_trace io"
  by (rule queue_trace_of) (rule ctx_Err_counts)

lemma time_Now_queue_trace:
  "time_Now env io = (d, io') \<Longrightarrow> queue_trace io' = queue_trace io"
  using time_Now_trace [of env io] by (intro queue_trace_of) simp

lemma mq_Disc_queue_trace:
  "mq_Disc env h io = (r, io') \<Longrightarrow> queue_trace io' = queue_trace io"
  by (auto simp: mq_Disc_def queue_trace_def split: prod.splits)

subsection \<open>Components that can be closed\<close>

text \<open>
  The contract between a client and what it closes: closing, if it returns, leaves the
  component closed, and closing a closed component does nothing and reports no error.
\<close>

locale closable =
  fixes shut :: "'c \<Rightarrow> 's \<Rightarrow> (go_error option \<times> 'c \<times> 's) option"
    and is_closed :: "'c \<Rightarrow> bool"
  assumes shut_closes: "shut c s = Some (e, c', s') \<Longrightarrow> is_closed c'"
    and shut_again: "is_closed c \<Longrightarrow> shut c s = Some (None, c, s)"
begin

lemma shut_twice: "shut c s = Some (e, c', s') \<Longrightarrow> shut c' t = Some (None, c', t)"
  by (rule shut_again) (rule shut_closes)

lemma shut_stays: "is_closed c \<Longrightarrow> shut c s = Some (e, c', s') \<Longrightarrow> c' = c \<and> s' = s \<and> e = None"
  by (simp add: shut_again)

end

subsection \<open>A scripted world\<close>

text \<open>
  A concrete instance of the parameter: a world that answers every kind of call from a
  script and, once the script is used up, as a healthy queue manager and a live context
  do. It shows that the hypotheses about the parameter can hold and lets the examples
  of the development run.
\<close>

record script =
  q_connx :: "(go_error + handle) list"
  q_open :: "go_error option list"
  q_put :: "go_error option list"
  q_get :: "(go_error + mqmd \<times> bytes) list"
  q_ctx :: "go_error option list"
  q_timer :: "go_error option list"

definition quiet_script :: script where
  "quiet_script = \<lparr>q_connx = [], q_open = [], q_put = [], q_get = [], q_ctx = [], q_timer = []\<rparr>"

definition script_mqmd :: mqmd where
  "script_mqmd =
     \<lparr>MsgId = replicate 24 0, CorrelId = replicate 24 0, ReplyToQ = [], ReplyToQMgr = [],
      Expiry = - 1\<rparr>"

definition script_env :: "script env" where
  "script_env =
     \<lparr>newMQMD = script_mqmd,
      newMQCD = \<lparr>cd_ChannelName = [], cd_ConnectionName = [], cd_SSLCipherSpec = [], cd_SSLPeerName = []\<rparr>,
      newMQCSP = \<lparr>csp_AuthenticationType = 0, csp_UserId = [], csp_Password = []\<rparr>,
      newMQSCO = \<lparr>sco_KeyRepository = [], sco_CertificateLabel = [], sco_FipsRequired = False\<rparr>,
      newMQCNO = \<lparr>cno_Options = 0, cno_ClientConn = None, cno_SecurityParms = None,
                  cno_SSLConfig = None\<rparr>,
      newMQOD = \<lparr>ObjectName = [], DynamicQName = []\<rparr>,
      newMQPMO = \<lparr>pmo_Options = 0\<rparr>,
      newMQGMO = \<lparr>gmo_Options = 0, gmo_MatchOptions = 3, gmo_WaitInterval = 0\<rparr>,
      MQCNO_CLIENT_BINDING = 2048, MQCSP_AUTH_USER_ID_AND_PWD = 1, MQOO_INPUT_AS_Q_DEF = 1,
      MQOO_INPUT_SHARED = 2, MQOO_INPUT_EXCLUSIVE = 4, MQOO_OUTPUT = 16,
      MQOO_FAIL_IF_QUIESCING = 8192, MQOO_READ_AHEAD = 1048576, MQPMO_NEW_MSG_ID = 64,
      MQPMO_NO_SYNCPOINT = 4, MQGMO_WAIT = 1, MQGMO_NO_SYNCPOINT = 4, MQMO_MATCH_CORREL_ID = 2,
      Connx = (\<lambda>name cno w.
        case q_connx w of [] \<Rightarrow> (Inr 1, w) | r # rs \<Rightarrow> (r, w\<lparr>q_connx := rs\<rparr>)),
      Disc = (\<lambda>h w. (None, w)),
      OpenQ = (\<lambda>h od oo w.
        case q_open w of
          [] \<Rightarrow> (Inr (2, od), w)
        | Some e # rs \<Rightarrow> (Inl e, w\<lparr>q_open := rs\<rparr>)
        | None # rs \<Rightarrow> (Inr (2, od), w\<lparr>q_open := rs\<rparr>)),
      CloseQ = (\<lambda>q w. w),
      PutQ = (\<lambda>q md pmo body w.
        case q_put w of
          [] \<Rightarrow> (Inr (md\<lparr>MsgId := replicate 24 7\<rparr>), w)
        | Some e # rs \<Rightarrow> (Inl e, w\<lparr>q_put := rs\<rparr>)
        | None # rs \<Rightarrow> (Inr (md\<lparr>MsgId := replicate 24 7\<rparr>), w\<lparr>q_put := rs\<rparr>)),
      GetSliceQ = (\<lambda>q md gmo n w.
        case q_get w of
          [] \<Rightarrow> (Inl (MQReturn 2 2033 ''MQRC_NO_MSG_AVAILABLE''), w)
        | r # rs \<Rightarrow> (r, w\<lparr>q_get := rs\<rparr>)),
      ctxErr = (\<lambda>ctx w. case q_ctx w of [] \<Rightarrow> (None, w) | r # rs \<Rightarrow> (r, w\<lparr>q_ctx := rs\<rparr>)),
      timerOrDone = (\<lambda>ctx d w.
        case q_timer w of [] \<Rightarrow> (None, w) | r # rs \<Rightarrow> (r, w\<lparr>q_timer := rs\<rparr>)),
      awaitDone = (\<lambda>ctx w. None),
      Int63n = (\<lambda>n w. (0, w)),
      randRead = (\<lambda>n w. (Inr (replicate n 9), w)),
      timeNow = (\<lambda>w. (0, w)),
      otel_api = \<lparr>Tracer_Start = (\<lambda>p ctx n. ctx), Prop_Inject = (\<lambda>p ctx m. m),
                  Prop_Extract = (\<lambda>p ctx m. ctx)\<rparr>,
      f64_impl = (\<lambda>x. - (2 ^ 63))\<rparr>"

definition start_io :: "script \<Rightarrow> script io" where
  "start_io w = \<lparr>world = w, trace = []\<rparr>"

end
