(* ===== verification/MQ_Connection.thy ===== *)
theory MQ_Connection
  imports MQ_Api
begin

text \<open>
  \<^verbatim>\<open>src/mq/connection.go\<close>: backoff and jitter, dialling, the two retry loops, error
  classification and sanitising. The connection struct is a record; its mutex only makes
  the single-field updates atomic. The two retry loops share a contract, the locale
  \<open>retry_loop\<close>, which both interpret.
\<close>

subsection \<open>Backoff\<close>

text \<open>The loop \<^verbatim>\<open>for range attempt\<close> runs \<^verbatim>\<open>attempt\<close> times, not at all when it is negative.\<close>

primrec scale_up :: "nat \<Rightarrow> float64 \<Rightarrow> float64 \<Rightarrow> float64" where
  "scale_up 0 multiplier d = d"
| "scale_up (Suc n) multiplier d = scale_up n multiplier (f64_mult d multiplier)"

definition BackoffDuration :: "(float64 \<Rightarrow> int) \<Rightarrow> duration \<Rightarrow> float64 \<Rightarrow> int \<Rightarrow> duration" where
  "BackoffDuration impl initial multiplier attempt =
     f64_to_int64 impl (scale_up (nat attempt) multiplier (f64_of_int initial))"

definition retryDelay :: "(float64 \<Rightarrow> int) \<Rightarrow> Config \<Rightarrow> int \<Rightarrow> duration" where
  "retryDelay impl cfg attempt =
     (let d = BackoffDuration impl (InitialRetryInterval cfg) (RetryMultiplier cfg) attempt in
      if MaxRetryInterval cfg < d then MaxRetryInterval cfg else d)"

definition sleep_base :: "duration \<Rightarrow> duration" where
  "sleep_base d = (if d \<le> 0 then millisecond else d)"

definition jitterCeil :: "duration \<Rightarrow> int" where
  "jitterCeil d = (let j = go_quot d 10 in if j \<le> 0 then 1 else j)"

definition sleepWithJitterCtx ::
  "'w env \<Rightarrow> ctx \<Rightarrow> duration \<Rightarrow> 'w io \<Rightarrow> go_error option \<times> 'w io" where
  "sleepWithJitterCtx env ctx d0 io =
     (let d = sleep_base d0 in
      case Int63n env (jitterCeil d) (world io) of (r, w) \<Rightarrow>
      let t = go_int64 (d + r) in
      case timerOrDone env ctx t w of (e, w') \<Rightarrow> (e, emit (ESleep t) w' io))"

subsection \<open>Error classification\<close>

text \<open>The reason codes, as the documentation of \<^verbatim>\<open>IsConnectionError\<close> lists them.\<close>

definition connection_reasons :: "int list" where
  "connection_reasons = [2009, 2018, 2059, 2161, 2162, 2202, 2203, 2223, 2273, 2521, 2528]"

definition MQRC_NO_MSG_AVAILABLE :: int where
  "MQRC_NO_MSG_AVAILABLE = 2033"

definition IsConnectionError :: "go_error option \<Rightarrow> bool" where
  "IsConnectionError err =
     (case Option.bind err as_MQReturn of
        None \<Rightarrow> False
      | Some rc \<Rightarrow> rc \<in> set connection_reasons)"

definition IsEmptyQueueError :: "go_error option \<Rightarrow> bool" where
  "IsEmptyQueueError err =
     (case Option.bind err as_MQReturn of
        None \<Rightarrow> False
      | Some rc \<Rightarrow> rc = MQRC_NO_MSG_AVAILABLE)"

definition sanitizeError :: "go_error \<Rightarrow> go_error" where
  "sanitizeError err =
     (case as_MQReturn err of
        Some _ \<Rightarrow> err
      | None \<Rightarrow> ErrorString ''IBM MQ operation failed'')"

text \<open>\<^verbatim>\<open>fmt.Errorf\<close> with a final \<^verbatim>\<open>: %w\<close>.\<close>

definition wrap_error :: "string \<Rightarrow> go_error \<Rightarrow> go_error" where
  "wrap_error text err = Errorf (text @ '': '' @ error_text err) [err]"

subsection \<open>Connections\<close>

record connection =
  queueManager :: handle
  config :: Config
  conn_state :: ConnectionState
  lastError :: "go_error option"

definition fresh_connection :: "Config \<Rightarrow> connection" where
  "fresh_connection cfg =
     \<lparr>queueManager = 0, config = cfg, conn_state = StateReconnecting, lastError = None\<rparr>"

definition conn_setState :: "ConnectionState \<Rightarrow> connection \<Rightarrow> connection" where
  "conn_setState s c = c\<lparr>conn_state := s\<rparr>"

definition setLastError :: "go_error option \<Rightarrow> connection \<Rightarrow> connection" where
  "setLastError e c = c\<lparr>lastError := e\<rparr>"

definition dial_options :: "'w env \<Rightarrow> Config \<Rightarrow> mqcno" where
  "dial_options env cfg =
     (let mqcd0 = (newMQCD env)\<lparr>cd_ChannelName := ChannelName cfg,
                               cd_ConnectionName := ConnectionName cfg\<rparr>;
          mqcd1 = (case TLS cfg of
                     None \<Rightarrow> mqcd0
                   | Some t \<Rightarrow> mqcd0\<lparr>cd_SSLCipherSpec := CipherSpec t, cd_SSLPeerName := PeerName t\<rparr>);
          cno0 = (newMQCNO env)\<lparr>cno_Options := MQCNO_CLIENT_BINDING env, cno_ClientConn := Some mqcd1\<rparr>;
          cno1 = (if Username cfg \<noteq> []
                  then cno0\<lparr>cno_SecurityParms :=
                         Some ((newMQCSP env)\<lparr>csp_AuthenticationType := MQCSP_AUTH_USER_ID_AND_PWD env,
                                             csp_UserId := Username cfg,
                                             csp_Password := Password cfg\<rparr>)\<rparr>
                  else cno0)
      in (case TLS cfg of
            None \<Rightarrow> cno1
          | Some t \<Rightarrow>
              cno1\<lparr>cno_SSLConfig :=
                Some ((newMQSCO env)\<lparr>sco_KeyRepository := KeyRepository t,
                                    sco_CertificateLabel := CertificateLabel t,
                                    sco_FipsRequired := FIPSRequired t\<rparr>)\<rparr>))"

definition dial_error :: "Config \<Rightarrow> go_error \<Rightarrow> go_error" where
  "dial_error cfg err =
     wrap_error (''commons-mq-go: failed to connect to queue manager '' @
       quote (QueueManagerName cfg) @ '' on '' @ quote (ConnectionName cfg)) (sanitizeError err)"

definition dial :: "'w env \<Rightarrow> connection \<Rightarrow> 'w io \<Rightarrow> go_error option \<times> connection \<times> 'w io" where
  "dial env c io =
     (let cfg = config c in
      case mq_Connx env (QueueManagerName cfg) (dial_options env cfg) io of
        (Inl err, io') \<Rightarrow>
          (Some (dial_error cfg err), setLastError (Some err) (conn_setState StateFailed c), io')
      | (Inr qmgr, io') \<Rightarrow>
          (None, setLastError None (conn_setState StateConnected (c\<lparr>queueManager := qmgr\<rparr>)), io'))"

definition newConnection :: "'w env \<Rightarrow> Config \<Rightarrow> 'w io \<Rightarrow> (go_error + connection) \<times> 'w io" where
  "newConnection env cfg io =
     (case dial env (fresh_connection cfg) io of
        (Some err, _, io') \<Rightarrow> (Inl err, io')
      | (None, c, io') \<Rightarrow> (Inr c, io'))"

definition retry_attempts :: "Config \<Rightarrow> int" where
  "retry_attempts cfg = (if MaxRetries cfg < 1 then 1 else MaxRetries cfg)"

text \<open>
  How a retry loop ends: a dial succeeded, the context stopped it, or the attempts are
  used up. \<open>n\<close> is the number of attempts, \<open>k\<close> how many are left: \<open>n - k\<close> is the source's
  index \<^verbatim>\<open>attempt\<close> at the head of the loop.
\<close>

datatype loop_end = Dialed | Stopped go_error | Exhausted "go_error option"

fun connect_loop ::
  "'w env \<Rightarrow> ctx \<Rightarrow> Config \<Rightarrow> nat \<Rightarrow> nat \<Rightarrow> go_error option \<Rightarrow> connection \<times> 'w io \<Rightarrow>
   loop_end \<times> connection \<times> 'w io" where
  "connect_loop env ctx cfg n 0 lastErr s = (Exhausted lastErr, s)"
| "connect_loop env ctx cfg n (Suc k) lastErr (c, io) =
     (case ctx_Err env ctx io of
        (Some err, io1) \<Rightarrow> (Stopped err, c, io1)
      | (None, io1) \<Rightarrow>
          (case dial env (fresh_connection cfg) io1 of
             (None, c', io2) \<Rightarrow> (Dialed, c', io2)
           | (Some err, c', io2) \<Rightarrow>
               (if 0 < k
                then (case sleepWithJitterCtx env ctx
                             (retryDelay (f64_impl env) cfg (int (n - Suc k))) io2 of
                        (Some e, io3) \<Rightarrow> (Stopped e, c', io3)
                      | (None, io3) \<Rightarrow> connect_loop env ctx cfg n k (Some err) (c', io3))
                else connect_loop env ctx cfg n k (Some err) (c', io2))))"

definition exhausted_error :: "string \<Rightarrow> string \<Rightarrow> Config \<Rightarrow> go_error option \<Rightarrow> go_error" where
  "exhausted_error before after cfg lastErr =
     Errorf (sentinel_text ErrConnectionFailed @ '': queue manager '' @ quote (QueueManagerName cfg) @
        before @ itoa (retry_attempts cfg) @ after @ '': '' @
        (case lastErr of None \<Rightarrow> ''%!w(<nil>)'' | Some e \<Rightarrow> error_text e))
       (Sentinel ErrConnectionFailed # (case lastErr of None \<Rightarrow> [] | Some e \<Rightarrow> [e]))"

definition newConnectionWithRetry ::
  "'w env \<Rightarrow> ctx \<Rightarrow> Config \<Rightarrow> 'w io \<Rightarrow> (go_error + connection) \<times> 'w io" where
  "newConnectionWithRetry env ctx cfg io =
     (let n = nat (retry_attempts cfg) in
      case connect_loop env ctx cfg n n None (fresh_connection cfg, io) of
        (Dialed, c, io') \<Rightarrow> (Inr c, io')
      | (Stopped err, c, io') \<Rightarrow> (Inl err, io')
      | (Exhausted lastErr, c, io') \<Rightarrow>
          (Inl (exhausted_error '' failed to connect after '' '' attempts'' cfg lastErr), io'))"

fun reconnect_loop ::
  "'w env \<Rightarrow> ctx \<Rightarrow> nat \<Rightarrow> nat \<Rightarrow> go_error option \<Rightarrow> connection \<times> 'w io \<Rightarrow>
   loop_end \<times> connection \<times> 'w io" where
  "reconnect_loop env ctx n 0 lastErr s = (Exhausted lastErr, s)"
| "reconnect_loop env ctx n (Suc k) lastErr (c, io) =
     (case ctx_Err env ctx io of
        (Some err, io1) \<Rightarrow> (Stopped err, c, io1)
      | (None, io1) \<Rightarrow>
          (case mq_Disc env (queueManager c) io1 of (_, io2) \<Rightarrow>
           (case dial env c io2 of
             (None, c', io3) \<Rightarrow> (Dialed, c', io3)
           | (Some err, c', io3) \<Rightarrow>
               (if 0 < k
                then (case sleepWithJitterCtx env ctx
                             (retryDelay (f64_impl env) (config c) (int (n - Suc k))) io3 of
                        (Some e, io4) \<Rightarrow> (Stopped e, c', io4)
                      | (None, io4) \<Rightarrow> reconnect_loop env ctx n k (Some err) (c', io4))
                else reconnect_loop env ctx n k (Some err) (c', io3)))))"

definition Reconnect ::
  "'w env \<Rightarrow> ctx \<Rightarrow> connection \<Rightarrow> 'w io \<Rightarrow> go_error option \<times> connection \<times> 'w io" where
  "Reconnect env ctx c io =
     (let cfg = config c; n = nat (retry_attempts cfg) in
      case reconnect_loop env ctx n n None (conn_setState StateReconnecting c, io) of
        (Dialed, c', io') \<Rightarrow> (None, c', io')
      | (Stopped err, c', io') \<Rightarrow> (Some err, c', io')
      | (Exhausted lastErr, c', io') \<Rightarrow>
          (Some (exhausted_error '' exhausted '' '' reconnect attempts'' cfg lastErr),
           conn_setState StateFailed c', io'))"

definition conn_Close :: "'w env \<Rightarrow> connection \<Rightarrow> 'w io \<Rightarrow> go_error option \<times> connection \<times> 'w io" where
  "conn_Close env c io =
     (let c' = conn_setState StateFailed c in
      case mq_Disc env (queueManager c') io of
        (Some err, io') \<Rightarrow>
          (Some (wrap_error (''commons-mq-go: failed to disconnect from queue manager '' @
              quote (QueueManagerName (config c'))) (sanitizeError err)), c', io')
      | (None, io') \<Rightarrow> (None, c', io'))"

subsection \<open>Backoff: the cap, the formula, monotonicity\<close>

lemma jitterCeil_pos: "0 < jitterCeil d"
  by (simp add: jitterCeil_def Let_def)

lemma sleep_base_pos: "0 < sleep_base d"
  by (simp add: sleep_base_def millisecond_def)

lemma jitterCeil_le: "0 < d \<Longrightarrow> jitterCeil d \<le> max 1 (d div 10)"
  by (auto simp: jitterCeil_def Let_def)

lemma scale_up_add: "scale_up (a + b) m d = scale_up b m (scale_up a m d)"
  by (induction a arbitrary: d) simp_all

text \<open>What repeated multiplication by a factor of at least one does to a value of at least one.\<close>

definition grows :: "float64 \<Rightarrow> float64 \<Rightarrow> bool" where
  "grows x y \<longleftrightarrow> (case x of
     Fin v \<Rightarrow> (case y of Fin u \<Rightarrow> 1 \<le> v \<and> v \<le> u \<and> f64_rep v \<and> f64_rep u | PInf \<Rightarrow> True | _ \<Rightarrow> False)
   | PInf \<Rightarrow> y = PInf
   | _ \<Rightarrow> False)"

lemma grows_refl: "1 \<le> v \<Longrightarrow> f64_rep v \<Longrightarrow> grows (Fin v) (Fin v)"
  by (simp add: grows_def)

lemma grows_trans: "grows x y \<Longrightarrow> grows y z \<Longrightarrow> grows x z"
  by (auto simp: grows_def split: float64.splits)

lemma f64_round_ge_1_cases:
  assumes "1 \<le> q"
  obtains "f64_round q = PInf" | v where "f64_round q = Fin v"
  using f64_round_ge_1 [OF assms] that by (auto simp: Let_def split: if_splits)

lemma grows_mult:
  assumes "1 \<le> v" and rep: "f64_rep v" and "1 \<le> m"
  shows "grows (Fin v) (f64_mult (Fin v) (Fin m))"
proof -
  have "v * 1 \<le> v * m" using assms by (intro mult_left_mono) simp_all
  then have le: "v \<le> v * m" by simp
  with assms(1) have one: "1 \<le> v * m" by (rule order_trans)
  show ?thesis
  proof (cases rule: f64_round_ge_1_cases [OF one])
    case 1
    then show ?thesis by (simp add: grows_def)
  next
    case (2 u)
    with f64_round_ge_rep [OF assms(1) rep le 2] f64_round_rep [OF one 2] assms(1) rep
    show ?thesis by (simp add: grows_def)
  qed
qed

lemma grows_scale_up:
  assumes "1 \<le> m" and "grows x x"
  shows "grows x (scale_up n (Fin m) x)"
  using assms(2)
proof (induction n arbitrary: x)
  case 0
  then show ?case by simp
next
  case (Suc n)
  have step: "grows x (f64_mult x (Fin m))"
  proof (cases x)
    case (Fin v)
    with Suc.prems have "1 \<le> v" "f64_rep v" by (simp_all add: grows_def)
    with grows_mult assms(1) show ?thesis by (simp only: Fin)
  qed (use Suc.prems assms(1) in \<open>simp_all add: grows_def\<close>)
  then have "grows (f64_mult x (Fin m)) (f64_mult x (Fin m))"
    using Suc.prems by (auto simp: grows_def split: float64.splits)
  from Suc.IH [OF this] have "grows (f64_mult x (Fin m)) (scale_up n (Fin m) (f64_mult x (Fin m)))" .
  with step show ?case by (auto intro: grows_trans)
qed

lemma grows_of_int: "1 \<le> i \<Longrightarrow> grows (f64_of_int i) (f64_of_int i)"
proof -
  assume "1 \<le> i"
  then have i: "1 \<le> (of_int i :: rat)" by simp
  have one: "f64_rep 1" using f64_rep_int [of 1] by simp
  show ?thesis
  proof (cases rule: f64_round_ge_1_cases [OF i])
    case 1
    then show ?thesis by (simp add: grows_def f64_of_int_def)
  next
    case (2 v)
    with f64_round_ge_rep [OF _ one i 2] f64_round_rep [OF i 2] show ?thesis
      by (simp add: grows_def f64_of_int_def)
  qed
qed

lemma scale_up_double:
  assumes "1 \<le> v" and "f64_rep v" and "v * 2 ^ n < 2 ^ 1024"
  shows "scale_up n (Fin 2) (Fin v) = Fin (v * 2 ^ n)"
  using assms
proof (induction n arbitrary: v)
  case 0
  then show ?case by simp
next
  case (Suc n)
  have "2 * v * 2 ^ n < 2 ^ 1024" using Suc.prems(3) by (simp add: mult.assoc mult.left_commute)
  moreover have "2 * v * 1 \<le> 2 * v * 2 ^ n" using Suc.prems(1) by (intro mult_left_mono) simp_all
  ultimately have lt: "2 * v < 2 ^ 1024" by simp
  then have rep: "f64_rep (2 * v)" using Suc.prems by (intro f64_rep_double)
  then have "f64_mult (Fin v) (Fin 2) = Fin (2 * v)" by (simp add: f64_rep_def mult.commute)
  with Suc.IH [of "2 * v"] rep Suc.prems \<open>2 * v * 2 ^ n < 2 ^ 1024\<close> show ?case
    by (simp add: mult.assoc mult.left_commute)
qed

lemma rat_trunc_of_int [simp]: "rat_trunc (of_int i) = i"
  by (simp add: rat_trunc_def)

lemma scale_up_double_int:
  assumes "1 \<le> i" and "i \<le> 2 ^ 53" and "i * 2 ^ n < 2 ^ 1024"
  shows "scale_up n (Fin 2) (f64_of_int i) = Fin (of_int (i * 2 ^ n))"
proof -
  have rep: "f64_rep (of_int i)" using assms by (intro f64_rep_int)
  have "(of_int (i * 2 ^ n) :: rat) < of_int (2 ^ 1024)" using assms(3) by (simp only: of_int_less_iff)
  then have "(of_int i :: rat) * 2 ^ n < 2 ^ 1024" by simp
  with assms(1) rep have "scale_up n (Fin 2) (Fin (of_int i)) = Fin (of_int i * 2 ^ n)"
    by (intro scale_up_double) simp_all
  with rep show ?thesis by (simp add: f64_of_int_def f64_rep_def)
qed

lemma backoff_double:
  assumes "1 \<le> i" and "i \<le> 2 ^ 53" and "i * 2 ^ n < 2 ^ 1024"
  shows "BackoffDuration impl i (Fin 2) (int n) =
    (if i * 2 ^ n < 2 ^ 63 then i * 2 ^ n else impl (Fin (of_int (i * 2 ^ n))))"
proof -
  have "0 \<le> i * 2 ^ n" using assms(1) by simp
  then have "in_int64 (i * 2 ^ n) \<longleftrightarrow> i * 2 ^ n < 2 ^ 63" by (simp add: in_int64_def)
  moreover have "BackoffDuration impl i (Fin 2) (int n) =
      f64_to_int64 impl (Fin (of_int (i * 2 ^ n)))"
    using scale_up_double_int [OF assms] by (simp only: BackoffDuration_def nat_int)
  ultimately show ?thesis
    by (simp only: f64_to_int64_def float64.case rat_trunc_of_int)
qed

text \<open>
  The conversion of amd64 processors, where every out-of-range value becomes the least
  64-bit integer.
\<close>

definition amd64_conversion :: "float64 \<Rightarrow> int" where
  "amd64_conversion x = - (2 ^ 63)"

lemma backoff_overflow:
  "retryDelay amd64_conversion (applyDefaults zero_config) 32 = 30 * second \<and>
   retryDelay amd64_conversion (applyDefaults zero_config) 33 = - (2 ^ 63) \<and>
   sleep_base (retryDelay amd64_conversion (applyDefaults zero_config) 33) = millisecond"
proof -
  let ?cfg = "applyDefaults zero_config"
  have cfg: "InitialRetryInterval ?cfg = 2 * second" "RetryMultiplier ?cfg = Fin 2"
    "MaxRetryInterval ?cfg = 30 * second"
    by (simp_all add: zero_config_def)
  have "BackoffDuration amd64_conversion (2 * second) (Fin 2) (int 32) = 2 * second * 2 ^ 32"
    using backoff_double [of "2 * second" 32 amd64_conversion] by (simp add: second_def)
  moreover have "BackoffDuration amd64_conversion (2 * second) (Fin 2) (int 33) = - (2 ^ 63)"
    using backoff_double [of "2 * second" 33 amd64_conversion]
    by (simp add: second_def amd64_conversion_def)
  ultimately have "retryDelay amd64_conversion ?cfg 32 = 30 * second"
    "retryDelay amd64_conversion ?cfg 33 = - (2 ^ 63)"
    unfolding retryDelay_def cfg by (simp_all add: second_def)
  then show ?thesis by (simp add: sleep_base_def)
qed

text \<open>
  C35: the documented backoff formula. With multiplier 2 (the default) the delay before
  retry number \<open>attempt\<close> is exactly the smaller of \<^verbatim>\<open>InitialRetryInterval\<close> times
  \<open>2\<close> to the \<open>attempt\<close> and \<^verbatim>\<open>MaxRetryInterval\<close>, for every initial interval up to
  \<open>2\<^sup>5\<^sup>3\<close> nanoseconds, as long as the product fits a 64-bit duration: the floating point
  computation loses nothing. Beyond that the cap is lost: with the default intervals and
  the amd64 conversion, attempt 32 waits the capped 30 seconds, but attempt 33 gets a
  negative delay, which the sleep turns into one millisecond.
\<close>

theorem retry_delay_formula:
  assumes "RetryMultiplier cfg = Fin 2"
    and "1 \<le> InitialRetryInterval cfg" and "InitialRetryInterval cfg \<le> 2 ^ 53"
    and "InitialRetryInterval cfg * 2 ^ attempt < 2 ^ 63"
  shows "retryDelay impl cfg (int attempt) =
    min (InitialRetryInterval cfg * 2 ^ attempt) (MaxRetryInterval cfg) \<and>
    retryDelay amd64_conversion (applyDefaults zero_config) 32 = 30 * second \<and>
    retryDelay amd64_conversion (applyDefaults zero_config) 33 = - (2 ^ 63) \<and>
    sleep_base (retryDelay amd64_conversion (applyDefaults zero_config) 33) = millisecond"
proof -
  have "(2::int) ^ 63 \<le> 2 ^ 1024" by (rule power_increasing) simp_all
  with assms(4) have "InitialRetryInterval cfg * 2 ^ attempt < 2 ^ 1024" by (rule order_less_le_trans)
  from backoff_double [OF assms(2,3) this] assms(1,4)
  have "retryDelay impl cfg (int attempt) = min (InitialRetryInterval cfg * 2 ^ attempt) (MaxRetryInterval cfg)"
    by (simp add: retryDelay_def Let_def)
  with backoff_overflow show ?thesis by blast
qed

theorem retry_delay_formula_witness:
  "retryDelay (\<lambda>_. 0) (applyDefaults zero_config) (int 3) = 16 * second \<and>
   retryDelay (\<lambda>_. 0) (applyDefaults zero_config) (int 4) = 30 * second"
  using retry_delay_formula [of "applyDefaults zero_config" 3 "\<lambda>_. 0"]
    retry_delay_formula [of "applyDefaults zero_config" 4 "\<lambda>_. 0"]
  by (simp add: zero_config_def second_def)

lemma retryDelay_cap: "retryDelay impl cfg attempt \<le> MaxRetryInterval cfg"
  by (simp add: retryDelay_def Let_def)

lemma rat_trunc_mono: "0 \<le> p \<Longrightarrow> p \<le> q \<Longrightarrow> rat_trunc p \<le> rat_trunc q"
  by (simp add: rat_trunc_def floor_mono)

lemma rat_trunc_ge_1: "1 \<le> p \<Longrightarrow> 1 \<le> rat_trunc p"
  by (simp add: rat_trunc_def le_floor_iff)

text \<open>
  The retry delay never exceeds \<^verbatim>\<open>MaxRetryInterval\<close>, and for any finite multiplier of at
  least 1 it does not decrease from one attempt to a later one, is at least a
  nanosecond and stays so for as long as the exponential backoff of the later attempt
  fits a 64-bit duration.
\<close>

theorem retry_delay_monotone:
  assumes "RetryMultiplier cfg = Fin m" and "1 \<le> m"
    and "1 \<le> InitialRetryInterval cfg" and "1 \<le> MaxRetryInterval cfg" and "a \<le> b"
    and fits: "scale_up b (Fin m) (f64_of_int (InitialRetryInterval cfg)) = Fin q"
      "in_int64 (rat_trunc q)"
  shows "1 \<le> retryDelay impl cfg (int a) \<and>
    retryDelay impl cfg (int a) \<le> retryDelay impl cfg (int b) \<and>
    retryDelay impl cfg (int b) \<le> MaxRetryInterval cfg"
proof -
  let ?x = "f64_of_int (InitialRetryInterval cfg)"
  have x: "grows ?x ?x" using assms(3) by (rule grows_of_int)
  have xa: "grows ?x (scale_up a (Fin m) ?x)" using assms(2) x by (rule grows_scale_up)
  then have "grows (scale_up a (Fin m) ?x) (scale_up a (Fin m) ?x)"
    by (auto simp: grows_def split: float64.splits)
  with assms(2) have "grows (scale_up a (Fin m) ?x) (scale_up (b - a) (Fin m) (scale_up a (Fin m) ?x))"
    by (rule grows_scale_up)
  then have "grows (scale_up a (Fin m) ?x) (Fin q)"
    using fits(1) assms(5) by (simp flip: scale_up_add)
  then obtain p where p: "scale_up a (Fin m) ?x = Fin p" "1 \<le> p" "p \<le> q"
    by (auto simp: grows_def split: float64.splits)
  have ab: "1 \<le> rat_trunc p" "rat_trunc p \<le> rat_trunc q"
    using p by (simp_all add: rat_trunc_ge_1 rat_trunc_mono)
  with fits(2) have "in_int64 (rat_trunc p)" by (simp add: in_int64_def)
  with p(1) fits ab assms(1,4) show ?thesis
    by (simp add: retryDelay_def BackoffDuration_def f64_to_int64_def Let_def)
qed

theorem retry_delay_monotone_witness:
  "retryDelay (\<lambda>_. 0) (applyDefaults zero_config) (int 1) \<le>
   retryDelay (\<lambda>_. 0) (applyDefaults zero_config) (int 2)"
proof -
  have s: "scale_up 2 (Fin 2) (f64_of_int (2 * second)) = Fin (of_int (8 * second))"
    using scale_up_double_int [of "2 * second" 2] by (simp add: second_def)
  have "in_int64 (rat_trunc (of_int (8 * second)))"
    unfolding rat_trunc_of_int by (simp add: in_int64_def second_def)
  with retry_delay_monotone [of "applyDefaults zero_config" 2 1 2 "of_int (8 * second)" "\<lambda>_. 0"] s
  show ?thesis by (simp add: zero_config_def second_def)
qed

text \<open>
  The wait between two dials. Whatever delay is asked for, the timer is armed for a
  positive duration of at least that delay (a millisecond for a delay that is not
  positive) plus a jitter below 10 percent of it, provided the random source keeps its
  contract and the sum fits a 64-bit duration; the wait is recorded once and its outcome
  is that of the \<^verbatim>\<open>select\<close> on the timer and the context.
\<close>

theorem sleep_with_jitter_bounds:
  assumes rnd: "\<And>n w. 0 < n \<Longrightarrow> 0 \<le> fst (Int63n env n w) \<and> fst (Int63n env n w) < n"
    and fits: "sleep_base d + sleep_base d div 10 < 2 ^ 63 - 1"
  shows "\<exists>t e w. sleepWithJitterCtx env ctx d io = (e, emit (ESleep t) w io) \<and>
    d \<le> t \<and> 0 < t \<and> sleep_base d \<le> t \<and> t < sleep_base d + max 1 (sleep_base d div 10)"
proof -
  let ?b = "sleep_base d"
  obtain r w where r: "Int63n env (jitterCeil ?b) (world io) = (r, w)"
    by (cases "Int63n env (jitterCeil ?b) (world io)")
  from rnd [OF jitterCeil_pos, of ?b "world io"] r have "0 \<le> r" "r < jitterCeil ?b" by simp_all
  with jitterCeil_le [OF sleep_base_pos, of d] have rb: "0 \<le> r" "r < max 1 (?b div 10)" by simp_all
  have "in_int64 (?b + r)"
    using rb fits sleep_base_pos [of d] by (auto simp: in_int64_def)
  then have t: "go_int64 (?b + r) = ?b + r" by simp
  have "sleepWithJitterCtx env ctx d io =
      (fst (timerOrDone env ctx (?b + r) w), emit (ESleep (?b + r)) (snd (timerOrDone env ctx (?b + r) w)) io)"
    by (simp add: sleepWithJitterCtx_def r t Let_def split: prod.splits)
  moreover have "d \<le> ?b" by (simp add: sleep_base_def millisecond_def)
  ultimately show ?thesis using rb sleep_base_pos [of d] by fastforce
qed

theorem sleep_with_jitter_bounds_witness:
  "\<exists>t e w. sleepWithJitterCtx script_env 0 (4 * second) \<lparr>world = quiet_script, trace = []\<rparr> =
      (e, emit (ESleep t) w \<lparr>world = quiet_script, trace = []\<rparr>) \<and>
    4 * second \<le> t \<and> t < 4 * second + max 1 (4 * second div 10)"
  using sleep_with_jitter_bounds [of script_env "4 * second" 0 "\<lparr>world = quiet_script, trace = []\<rparr>"]
  by (simp add: script_env_def sleep_base_def second_def) blast

subsection \<open>Classification survives sanitising and wrapping\<close>

lemma sanitize_reason [simp]: "as_MQReturn (sanitizeError e) = as_MQReturn e"
  by (simp add: sanitizeError_def split: option.splits)

lemma wrap_reason [simp]: "as_MQReturn (wrap_error t e) = as_MQReturn e"
  by (simp add: wrap_error_def split: option.splits)

lemma IsConnectionError_simps [simp]:
  "IsConnectionError None = False"
  "IsConnectionError (Some (sanitizeError e)) = IsConnectionError (Some e)"
  "IsConnectionError (Some (wrap_error t e)) = IsConnectionError (Some e)"
  "IsConnectionError (Some (MQReturn cc rc x)) = (rc \<in> set connection_reasons)"
  "IsConnectionError (Some (ErrorString x)) = False"
  "IsConnectionError (Some (Sentinel s)) = False"
  by (simp_all add: IsConnectionError_def)

lemma IsEmptyQueueError_simps [simp]:
  "IsEmptyQueueError None = False"
  "IsEmptyQueueError (Some (sanitizeError e)) = IsEmptyQueueError (Some e)"
  "IsEmptyQueueError (Some (wrap_error t e)) = IsEmptyQueueError (Some e)"
  "IsEmptyQueueError (Some (MQReturn cc rc x)) = (rc = MQRC_NO_MSG_AVAILABLE)"
  "IsEmptyQueueError (Some (ErrorString x)) = False"
  "IsEmptyQueueError (Some (Sentinel s)) = False"
  by (simp_all add: IsEmptyQueueError_def)

lemma empty_queue_not_connection: "IsEmptyQueueError e \<Longrightarrow> \<not> IsConnectionError e"
  by (auto simp: IsEmptyQueueError_def IsConnectionError_def connection_reasons_def
      MQRC_NO_MSG_AVAILABLE_def split: option.splits)

text \<open>
  C37: errors never echo credentials. A failed dial returns an error that names the queue
  manager and the connection name and wraps the sanitised MQI error; its text is the
  MQI reason text when the cause is an \<^verbatim>\<open>MQReturn\<close> and a fixed phrase otherwise, so two
  configurations that differ in user, password and TLS settings only report the same
  error for the same cause. Sanitising and wrapping never change how an error is
  classified.
\<close>

theorem dial_error_hides_credentials:
  assumes "dial env c io = (Some e, c', io')"
  shows "\<exists>err. trace io' = trace io @
      [EConnx (QueueManagerName (config c)) (dial_options env (config c)) (Inl err)] \<and>
    e = dial_error (config c) err \<and>
    e = dial_error ((config c)\<lparr>Username := u, Password := p, TLS := t\<rparr>) err \<and>
    error_text e = ''commons-mq-go: failed to connect to queue manager '' @
      quote (QueueManagerName (config c)) @ '' on '' @ quote (ConnectionName (config c)) @ '': '' @
      (if as_MQReturn err = None then ''IBM MQ operation failed'' else error_text err) \<and>
    IsConnectionError (Some e) = IsConnectionError (Some err) \<and>
    IsEmptyQueueError (Some e) = IsEmptyQueueError (Some err)"
proof -
  from assms obtain err where err: "fst (mq_Connx env (QueueManagerName (config c))
      (dial_options env (config c)) io) = Inl err"
    and e: "e = dial_error (config c) err"
    and io': "io' = snd (mq_Connx env (QueueManagerName (config c)) (dial_options env (config c)) io)"
    by (auto simp: dial_def Let_def split: prod.splits sum.splits)
  from err io' have "trace io' = trace io @
      [EConnx (QueueManagerName (config c)) (dial_options env (config c)) (Inl err)]"
    by (auto simp: mq_Connx_def split: prod.splits)
  moreover have "error_text (sanitizeError err) =
      (if as_MQReturn err = None then ''IBM MQ operation failed'' else error_text err)"
    by (simp add: sanitizeError_def split: option.splits)
  moreover have "IsConnectionError (Some e) = IsConnectionError (Some err)"
    "IsEmptyQueueError (Some e) = IsEmptyQueueError (Some err)"
    unfolding e dial_error_def by simp_all
  ultimately show ?thesis
    by (intro exI [of _ err]) (simp add: e dial_error_def wrap_error_def)
qed

definition demo_config :: Config where
  "demo_config =
     zero_config\<lparr>QueueManagerName := ''QM1'', ConnectionName := ''localhost(1414)'',
       ChannelName := ''DEV.APP.SVRCONN'', Username := ''app'', Password := ''passw0rd'',
       MaxRetries := 1\<rparr>"

definition down_error :: go_error where
  "down_error = MQReturn 2 2059 ''MQRC_Q_MGR_NOT_AVAILABLE''"

definition down_script :: script where
  "down_script = quiet_script\<lparr>q_connx := [Inl down_error]\<rparr>"

lemma dial_down:
  "dial script_env (fresh_connection demo_config) \<lparr>world = down_script, trace = evs\<rparr> =
     (Some (dial_error demo_config down_error),
      (fresh_connection demo_config)\<lparr>conn_state := StateFailed, lastError := Some down_error\<rparr>,
      \<lparr>world = quiet_script,
       trace = evs @ [EConnx ''QM1'' (dial_options script_env demo_config) (Inl down_error)]\<rparr>)"
proof -
  have "Connx script_env name cno down_script = (Inl down_error, quiet_script)" for name cno
    by (simp add: script_env_def down_script_def quiet_script_def)
  moreover have "QueueManagerName demo_config = ''QM1''" by (simp add: demo_config_def)
  ultimately show ?thesis
    by (simp add: dial_def mq_Connx_def fresh_connection_def conn_setState_def setLastError_def
        emit_def Let_def)
qed

theorem dial_error_hides_credentials_witness:
  "error_text (dial_error demo_config down_error) =
     ''commons-mq-go: failed to connect to queue manager '' @ quote ''QM1'' @ '' on '' @
     quote ''localhost(1414)'' @ '': MQRC_Q_MGR_NOT_AVAILABLE''"
  using dial_error_hides_credentials [OF dial_down [of "[]"]]
  by (auto simp: demo_config_def fresh_connection_def down_error_def)

subsection \<open>The retry loops\<close>

text \<open>
  The contract both loops share. A round polls the context, dials, and pauses before the
  next round unless it was the last; \<open>dialed\<close> and \<open>paused\<close> count the dials and the
  pauses seen so far.
\<close>

locale retry_loop =
  fixes poll :: "'s \<Rightarrow> go_error option \<times> 's"
    and try_dial :: "'s \<Rightarrow> go_error option \<times> 's"
    and pause :: "nat \<Rightarrow> 's \<Rightarrow> go_error option \<times> 's"
    and loop :: "nat \<Rightarrow> nat \<Rightarrow> go_error option \<Rightarrow> 's \<Rightarrow> loop_end \<times> 's"
    and dialed :: "'s \<Rightarrow> nat"
    and paused :: "'s \<Rightarrow> nat"
  assumes loop_0: "loop n 0 l s = (Exhausted l, s)"
    and loop_Suc: "loop n (Suc k) l s =
      (case poll s of
         (Some e, s1) \<Rightarrow> (Stopped e, s1)
       | (None, s1) \<Rightarrow>
           (case try_dial s1 of
              (None, s2) \<Rightarrow> (Dialed, s2)
            | (Some e, s2) \<Rightarrow>
                (if 0 < k
                 then (case pause (n - Suc k) s2 of
                         (Some e', s3) \<Rightarrow> (Stopped e', s3)
                       | (None, s3) \<Rightarrow> loop n k (Some e) s3)
                 else loop n k (Some e) s2)))"
    and poll_counts: "poll s = (r, t) \<Longrightarrow> dialed t = dialed s \<and> paused t = paused s"
    and dial_counts: "try_dial s = (r, t) \<Longrightarrow> dialed t = Suc (dialed s) \<and> paused t = paused s"
    and pause_counts: "pause i s = (r, t) \<Longrightarrow> dialed t = dialed s \<and> paused t = Suc (paused s)"
begin

lemma loop_cases:
  assumes "loop n (Suc k) l s = (out, t)"
  obtains (cancelled) e where "poll s = (Some e, t)" "out = Stopped e"
    | (success) s1 where "poll s = (None, s1)" "try_dial s1 = (None, t)" "out = Dialed"
    | (interrupted) s1 e s2 e' where "poll s = (None, s1)" "try_dial s1 = (Some e, s2)"
        "0 < k" "pause (n - Suc k) s2 = (Some e', t)" "out = Stopped e'"
    | (again) s1 e s2 s3 where "poll s = (None, s1)" "try_dial s1 = (Some e, s2)" "0 < k"
        "pause (n - Suc k) s2 = (None, s3)" "loop n k (Some e) s3 = (out, t)"
    | (last) s1 e where "poll s = (None, s1)" "try_dial s1 = (Some e, t)" "k = 0"
        "out = Exhausted (Some e)"
  using assms unfolding loop_Suc
  by (auto split: prod.splits option.splits if_splits simp: loop_0)

lemma loop_counts:
  assumes "loop n k l s = (out, t)"
  shows "dialed s \<le> dialed t \<and> dialed t \<le> dialed s + k \<and>
    (out = Dialed \<longrightarrow> dialed s < dialed t) \<and>
    (\<forall>e. out = Exhausted e \<longrightarrow> dialed t = dialed s + k \<and> paused t = paused s + (k - 1))"
  using assms
proof (induction k arbitrary: l s)
  case 0
  then show ?case by (auto simp: loop_0)
next
  case (Suc k)
  from Suc.prems show ?case
  proof (cases rule: loop_cases)
    case (again s1 e s2 s3)
    with Suc.IH [OF again(5)] poll_counts [OF again(1)] dial_counts [OF again(2)]
      pause_counts [OF again(4)]
    show ?thesis by auto
  next
    case (cancelled e)
    with poll_counts [OF cancelled(1)] show ?thesis by simp
  next
    case (success s1)
    with poll_counts [OF success(1)] dial_counts [OF success(2)] show ?thesis by simp
  next
    case (interrupted s1 e s2 e')
    with poll_counts [OF interrupted(1)] dial_counts [OF interrupted(2)] pause_counts [OF interrupted(4)]
    show ?thesis by simp
  next
    case (last s1 e)
    with poll_counts [OF last(1)] dial_counts [OF last(2)] show ?thesis by simp
  qed
qed

lemma loop_dialed:
  assumes "loop n k l s = (Dialed, t)"
  obtains s' where "try_dial s' = (None, t)"
  using assms
proof (induction k arbitrary: l s)
  case 0
  then show ?case by (simp add: loop_0)
next
  case (Suc k)
  from Suc.prems(2) show ?case by (cases rule: loop_cases) (auto intro: Suc.prems(1) Suc.IH)
qed

lemma loop_exhausted:
  assumes "loop n k l s = (Exhausted r, t)" and "0 < k"
  shows "\<exists>e s'. r = Some e \<and> try_dial s' = (Some e, t)"
  using assms
proof (induction k arbitrary: l s)
  case 0
  then show ?case by simp
next
  case (Suc k)
  from Suc.prems(1) show ?case
  proof (cases rule: loop_cases)
    case (again s1 e s2 s3)
    from Suc.IH [OF again(5,3)] show ?thesis .
  qed auto
qed

lemma loop_stopped:
  assumes "loop n k l s = (Stopped e, t)"
  shows "(\<exists>s'. poll s' = (Some e, t)) \<or> (\<exists>i s'. pause i s' = (Some e, t))"
  using assms
proof (induction k arbitrary: l s)
  case 0
  then show ?case by (simp add: loop_0)
next
  case (Suc k)
  from Suc.prems show ?case by (cases rule: loop_cases) (auto dest: Suc.IH)
qed

lemma loop_invariant:
  assumes "loop n k l s = (out, t)" and "I s"
    and poll: "\<And>s r t. poll s = (r, t) \<Longrightarrow> I s \<Longrightarrow> I t"
    and dial: "\<And>s e t. try_dial s = (Some e, t) \<Longrightarrow> I s \<Longrightarrow> I t"
    and pause: "\<And>i s r t. pause i s = (r, t) \<Longrightarrow> I s \<Longrightarrow> I t"
  shows "if out = Dialed then (\<exists>s'. I s' \<and> try_dial s' = (None, t)) else I t"
  using assms(1,2)
proof (induction k arbitrary: l s)
  case 0
  then show ?case by (auto simp: loop_0)
next
  case (Suc k)
  from Suc.prems(1) show ?case
  proof (cases rule: loop_cases)
    case (again s1 e s2 s3)
    with Suc.prems(2) have "I s3" by (blast intro: poll dial pause)
    from Suc.IH [OF again(5) this] show ?thesis .
  next
    case (success s1)
    with Suc.prems(2) have "I s1" by (blast intro: poll)
    with success show ?thesis by auto
  next
    case (interrupted s1 e s2 e')
    with Suc.prems(2) have "I t" by (blast intro: poll dial pause)
    with interrupted show ?thesis by simp
  qed (use Suc.prems(2) in \<open>auto intro: poll dial\<close>)
qed

lemma loop_keeps:
  assumes "loop n k l s = (out, t)"
    and poll: "\<And>s r t. poll s = (r, t) \<Longrightarrow> f t = f s"
    and dial: "\<And>s r t. try_dial s = (r, t) \<Longrightarrow> f t = f s"
    and pause: "\<And>i s r t. pause i s = (r, t) \<Longrightarrow> f t = f s"
  shows "f t = f s"
  using assms(1)
proof (induction k arbitrary: l s)
  case 0
  then show ?case by (auto simp: loop_0)
next
  case (Suc k)
  from Suc.prems show ?case
    by (cases rule: loop_cases) (auto dest!: poll dial pause Suc.IH)
qed

text \<open>A context that is never done cannot stop the loop: it dials or runs out of attempts.\<close>

lemma loop_runs:
  assumes "loop n k l s = (out, t)" and "\<And>s. fst (poll s) = None" and "\<And>i s. fst (pause i s) = None"
  shows "out = Dialed \<or> (\<exists>r. out = Exhausted r \<and> dialed t = dialed s + k)"
proof (cases out)
  case (Stopped e)
  from loop_stopped [OF assms(1) [unfolded Stopped]] assms(2,3) show ?thesis
    by (metis fst_conv option.distinct(1))
next
  case (Exhausted r)
  with loop_counts [OF assms(1)] show ?thesis by simp
qed simp

end

definition loop_poll ::
  "'w env \<Rightarrow> ctx \<Rightarrow> connection \<times> 'w io \<Rightarrow> go_error option \<times> connection \<times> 'w io" where
  "loop_poll env ctx s = (case ctx_Err env ctx (snd s) of (r, io) \<Rightarrow> (r, fst s, io))"

definition connect_try ::
  "'w env \<Rightarrow> Config \<Rightarrow> connection \<times> 'w io \<Rightarrow> go_error option \<times> connection \<times> 'w io" where
  "connect_try env cfg s = dial env (fresh_connection cfg) (snd s)"

definition connect_pause ::
  "'w env \<Rightarrow> ctx \<Rightarrow> Config \<Rightarrow> nat \<Rightarrow> connection \<times> 'w io \<Rightarrow> go_error option \<times> connection \<times> 'w io" where
  "connect_pause env ctx cfg i s =
     (case sleepWithJitterCtx env ctx (retryDelay (f64_impl env) cfg (int i)) (snd s) of
        (r, io) \<Rightarrow> (r, fst s, io))"

definition reconnect_try ::
  "'w env \<Rightarrow> connection \<times> 'w io \<Rightarrow> go_error option \<times> connection \<times> 'w io" where
  "reconnect_try env s = dial env (fst s) (snd (mq_Disc env (queueManager (fst s)) (snd s)))"

definition reconnect_pause ::
  "'w env \<Rightarrow> ctx \<Rightarrow> nat \<Rightarrow> connection \<times> 'w io \<Rightarrow> go_error option \<times> connection \<times> 'w io" where
  "reconnect_pause env ctx i s = connect_pause env ctx (config (fst s)) i s"

lemma dial_cases:
  assumes "dial env c io = (r, c', io')"
  obtains (ok) h where "r = None" "c' = c\<lparr>queueManager := h, conn_state := StateConnected, lastError := None\<rparr>"
      "trace io' = trace io @ [EConnx (QueueManagerName (config c)) (dial_options env (config c)) (Inr h)]"
    | (fail) err where "r = Some (dial_error (config c) err)"
      "c' = c\<lparr>conn_state := StateFailed, lastError := Some err\<rparr>"
      "trace io' = trace io @ [EConnx (QueueManagerName (config c)) (dial_options env (config c)) (Inl err)]"
  using assms
  by (auto simp: dial_def Let_def mq_Connx_def conn_setState_def setLastError_def
      split: prod.splits sum.splits)

lemma dial_config: "dial env c io = (r, c', io') \<Longrightarrow> config c' = config c"
  by (erule dial_cases) auto

lemma dial_trace_counts:
  assumes "dial env c io = (r, c', io')"
  shows "dials io' = Suc (dials io)" and "sleeps io' = sleeps io"
  using assms by (auto elim!: dial_cases simp: dials_def sleeps_def)

lemma sleep_trace_counts:
  assumes "sleepWithJitterCtx env ctx d io = (r, io')"
  shows "dials io' = dials io" and "sleeps io' = Suc (sleeps io)"
  using assms by (auto simp: sleepWithJitterCtx_def Let_def dials_def sleeps_def split: prod.splits)

lemma poll_trace_counts:
  assumes "ctx_Err env ctx io = (r, io')"
  shows "dials io' = dials io" and "sleeps io' = sleeps io"
  using ctx_Err_counts [OF assms] by (simp_all add: dials_def sleeps_def)

lemma disc_trace_counts:
  "dials (snd (mq_Disc env h io)) = dials io" "sleeps (snd (mq_Disc env h io)) = sleeps io"
  by (simp_all add: mq_Disc_def dials_def sleeps_def split: prod.splits)

lemmas trace_counts = dial_trace_counts sleep_trace_counts poll_trace_counts disc_trace_counts

interpretation connect: retry_loop "loop_poll env ctx" "connect_try env cfg"
  "connect_pause env ctx cfg" "connect_loop env ctx cfg" "\<lambda>s. dials (snd s)" "\<lambda>s. sleeps (snd s)"
  for env ctx cfg
proof (unfold_locales, goal_cases)
  case (2 n k l s)
  then show ?case
    by (cases s) (simp add: loop_poll_def connect_try_def connect_pause_def
        split: prod.splits option.splits)
qed (auto simp: loop_poll_def connect_try_def connect_pause_def trace_counts split: prod.splits)

interpretation reconnect: retry_loop "loop_poll env ctx" "reconnect_try env"
  "reconnect_pause env ctx" "reconnect_loop env ctx" "\<lambda>s. dials (snd s)" "\<lambda>s. sleeps (snd s)"
  for env ctx
proof (unfold_locales, goal_cases)
  case (2 n k l s)
  then show ?case
    by (cases s) (auto simp: loop_poll_def reconnect_try_def reconnect_pause_def connect_pause_def
        dial_config split: prod.splits option.splits)
qed (auto simp: loop_poll_def reconnect_try_def reconnect_pause_def connect_pause_def trace_counts
    split: prod.splits)

text \<open>An error that the context reported, directly or during a wait.\<close>

definition ctx_reports :: "'w env \<Rightarrow> ctx \<Rightarrow> go_error \<Rightarrow> bool" where
  "ctx_reports env ctx e \<longleftrightarrow>
     (\<exists>w. fst (ctxErr env ctx w) = Some e) \<or> (\<exists>d w. fst (timerOrDone env ctx d w) = Some e)"

lemma loop_poll_reports: "loop_poll env ctx s = (Some e, t) \<Longrightarrow> ctx_reports env ctx e"
  by (auto simp: loop_poll_def ctx_Err_def ctx_reports_def split: prod.splits)
    (metis fst_conv)

lemma connect_pause_reports: "connect_pause env ctx cfg i s = (Some e, t) \<Longrightarrow> ctx_reports env ctx e"
  by (auto simp: connect_pause_def sleepWithJitterCtx_def Let_def ctx_reports_def split: prod.splits)
    (metis fst_conv)

lemma retry_attempts_pos: "1 \<le> retry_attempts cfg"
  by (simp add: retry_attempts_def)

lemma exhausted_is_failed: "error_is (exhausted_error a b cfg l) ErrConnectionFailed"
  by (simp add: exhausted_error_def)

text \<open>The connects that succeeded.\<close>

fun is_connected :: "mq_event \<Rightarrow> bool" where
  "is_connected (EConnx _ _ (Inr _)) = True"
| "is_connected _ = False"

definition connects :: "'w io \<Rightarrow> nat" where
  "connects io = length (filter is_connected (trace io))"

lemma dial_connects:
  "dial env c io = (r, c', io') \<Longrightarrow> connects io' = (case r of None \<Rightarrow> Suc (connects io) | Some _ \<Rightarrow> connects io)"
  by (erule dial_cases) (simp_all add: connects_def)

lemma wait_connects:
  "loop_poll env ctx s = (p, t) \<Longrightarrow> connects (snd t) = connects (snd s)"
  "connect_pause env ctx cfg i s = (p, t) \<Longrightarrow> connects (snd t) = connects (snd s)"
  by (auto simp: loop_poll_def connect_pause_def sleepWithJitterCtx_def Let_def connects_def
      dest: ctx_Err_counts split: prod.splits)

lemma connect_loop_connects:
  assumes "connect_loop env ctx cfg n k l (c0, io) = (out, c, iot)"
  shows "connects iot = (if out = Dialed then Suc (connects io) else connects io)"
proof -
  let ?I = "\<lambda>s. connects (snd s) = connects io"
  have "if out = Dialed then \<exists>s'. ?I s' \<and> connect_try env cfg s' = (None, c, iot) else ?I (c, iot)"
    by (rule connect.loop_invariant [where I = ?I, OF assms])
      (auto simp: wait_connects connect_try_def dest: dial_connects)
  then show ?thesis by (auto simp: connect_try_def dest: dial_connects split: if_splits)
qed

text \<open>
  C19: \<^verbatim>\<open>newConnectionWithRetry\<close> always returns, after at least no and at most
  \<open>max 1 MaxRetries\<close> dials. It returns a connection exactly when one of its dials succeeded,
  which is then its only success and its very last call: the connection is in \<^verbatim>\<open>StateConnected\<close>,
  holds the handle of that dial and has no error left. Otherwise none of its dials has
  succeeded and it returns either the error of the cancelled context, or, after using
  up every attempt with a wait between any two of them, an error wrapping
  \<^verbatim>\<open>ErrConnectionFailed\<close> and the error of its last dial.
\<close>

theorem connect_with_retry_outcome:
  assumes "newConnectionWithRetry env ctx cfg io = (r, io')"
  shows "dials io \<le> dials io' \<and> int (dials io') \<le> int (dials io) + retry_attempts cfg \<and>
    connects io' = (case r of Inr _ \<Rightarrow> connects io + 1 | Inl _ \<Rightarrow> connects io) \<and>
    (case r of
       Inr c \<Rightarrow> (\<exists>h pre. c = \<lparr>queueManager = h, config = cfg, conn_state = StateConnected, lastError = None\<rparr> \<and>
         trace io' = pre @ [EConnx (QueueManagerName cfg) (dial_options env cfg) (Inr h)])
     | Inl e \<Rightarrow> ctx_reports env ctx e \<or>
         (error_is e ErrConnectionFailed \<and> int (dials io') = int (dials io) + retry_attempts cfg \<and>
          int (sleeps io') = int (sleeps io) + retry_attempts cfg - 1 \<and>
          (\<exists>err pre. trace io' = pre @ [EConnx (QueueManagerName cfg) (dial_options env cfg) (Inl err)] \<and>
             e = exhausted_error '' failed to connect after '' '' attempts'' cfg (Some (dial_error cfg err)))))"
proof -
  define n where "n = nat (retry_attempts cfg)"
  have n: "int n = retry_attempts cfg" "0 < n" using retry_attempts_pos [of cfg] by (simp_all add: n_def)
  obtain out c iot where run: "connect_loop env ctx cfg n n None (fresh_connection cfg, io) = (out, c, iot)"
    by (cases "connect_loop env ctx cfg n n None (fresh_connection cfg, io)")
  note cnt = connect.loop_counts [OF run] connect_loop_connects [OF run]
  show ?thesis
  proof (cases out)
    case Dialed
    with assms run have r: "r = Inr c" "io' = iot"
      by (simp_all add: newConnectionWithRetry_def n_def)
    from run [unfolded Dialed] obtain s' where "connect_try env cfg s' = (None, c, iot)"
      by (rule connect.loop_dialed)
    then have "dial env (fresh_connection cfg) (snd s') = (None, c, iot)" by (simp add: connect_try_def)
    then show ?thesis using cnt n(1) r Dialed
      by (elim dial_cases) (auto simp: fresh_connection_def)
  next
    case (Stopped e)
    with assms run have r: "r = Inl e" "io' = iot"
      by (simp_all add: newConnectionWithRetry_def n_def)
    from connect.loop_stopped [OF run [unfolded Stopped]] have "ctx_reports env ctx e"
      by (auto dest: loop_poll_reports connect_pause_reports)
    with cnt n(1) r Stopped show ?thesis by simp
  next
    case (Exhausted l)
    with assms run have r: "r = Inl (exhausted_error '' failed to connect after '' '' attempts'' cfg l)"
      "io' = iot"
      by (simp_all add: newConnectionWithRetry_def n_def)
    from connect.loop_exhausted [OF run [unfolded Exhausted] n(2)] obtain e s' where
      e: "l = Some e" "dial env (fresh_connection cfg) (snd s') = (Some e, c, iot)"
      by (auto simp: connect_try_def)
    from e(2) obtain err where "e = dial_error cfg err"
      "trace iot = trace (snd s') @ [EConnx (QueueManagerName cfg) (dial_options env cfg) (Inl err)]"
      by (rule dial_cases) (auto simp: fresh_connection_def)
    with cnt n r Exhausted e(1) show ?thesis by (auto simp: exhausted_is_failed)
  qed
qed

theorem connect_with_retry_outcome_witness:
  "\<exists>r io'. newConnectionWithRetry script_env 0 demo_config (start_io down_script) = (r, io') \<and>
     dials io' \<le> 1"
proof -
  obtain r io' where run: "newConnectionWithRetry script_env 0 demo_config (start_io down_script) = (r, io')"
    by (cases "newConnectionWithRetry script_env 0 demo_config (start_io down_script)")
  moreover have "retry_attempts demo_config = 1"
    by (simp add: demo_config_def retry_attempts_def)
  ultimately have "dials io' \<le> 1"
    using connect_with_retry_outcome [OF run] by (simp add: start_io_def dials_def)
  with run show ?thesis by blast
qed

text \<open>Between two dials of \<^verbatim>\<open>Reconnect\<close> the link is down.\<close>

definition broken_link :: "Config \<Rightarrow> connection \<times> 'w io \<Rightarrow> bool" where
  "broken_link cfg s \<longleftrightarrow>
     config (fst s) = cfg \<and> conn_state (fst s) \<in> {StateReconnecting, StateFailed}"

lemma broken_link_poll: "loop_poll env ctx s = (r, t) \<Longrightarrow> broken_link cfg s \<Longrightarrow> broken_link cfg t"
  by (auto simp: loop_poll_def broken_link_def split: prod.splits)

lemma broken_link_dial: "reconnect_try env s = (Some e, t) \<Longrightarrow> broken_link cfg s \<Longrightarrow> broken_link cfg t"
  by (cases t) (auto simp: reconnect_try_def broken_link_def elim!: dial_cases)

lemma broken_link_pause:
  "reconnect_pause env ctx i s = (r, t) \<Longrightarrow> broken_link cfg s \<Longrightarrow> broken_link cfg t"
  by (auto simp: reconnect_pause_def connect_pause_def broken_link_def split: prod.splits)

text \<open>
  C20: \<^verbatim>\<open>Reconnect\<close> leaves the connection in \<^verbatim>\<open>StateConnected\<close> exactly when it returns no
  error. When it runs out of attempts it has dialled \<open>max 1 MaxRetries\<close> times, returns
  an error wrapping \<^verbatim>\<open>ErrConnectionFailed\<close> and leaves \<^verbatim>\<open>StateFailed\<close>; any other error is
  the cancelled context's, and then the state is \<^verbatim>\<open>StateReconnecting\<close> or
  \<^verbatim>\<open>StateFailed\<close>. The configuration never changes.
\<close>

theorem reconnect_outcome:
  assumes "Reconnect env ctx c io = (r, c', io')"
  shows "config c' = config c \<and>
    dials io \<le> dials io' \<and> int (dials io') \<le> int (dials io) + retry_attempts (config c) \<and>
    (case r of
       None \<Rightarrow> conn_state c' = StateConnected \<and> lastError c' = None \<and> dials io < dials io'
     | Some e \<Rightarrow>
         (ctx_reports env ctx e \<and> conn_state c' \<in> {StateReconnecting, StateFailed}) \<or>
         (error_is e ErrConnectionFailed \<and> conn_state c' = StateFailed \<and>
          int (dials io') = int (dials io) + retry_attempts (config c)))"
proof -
  define n where "n = nat (retry_attempts (config c))"
  have n: "int n = retry_attempts (config c)" using retry_attempts_pos [of "config c"] by (simp add: n_def)
  let ?s = "(conn_setState StateReconnecting c, io)"
  obtain out d iot where run: "reconnect_loop env ctx n n None ?s = (out, d, iot)"
    by (cases "reconnect_loop env ctx n n None ?s")
  note cnt = reconnect.loop_counts [OF run]
  have "broken_link (config c) ?s" by (simp add: broken_link_def conn_setState_def)
  from reconnect.loop_invariant [where I = "broken_link (config c)",
      OF run this broken_link_poll broken_link_dial broken_link_pause]
  have inv: "if out = Dialed then \<exists>s'. broken_link (config c) s' \<and> reconnect_try env s' = (None, d, iot)
    else broken_link (config c) (d, iot)" .
  show ?thesis
  proof (cases out)
    case Dialed
    with assms run have r: "r = None" "c' = d" "io' = iot"
      by (simp_all add: Reconnect_def n_def Let_def)
    from inv Dialed obtain s' where "broken_link (config c) s'" "reconnect_try env s' = (None, d, iot)"
      by auto
    then have "config d = config c \<and> conn_state d = StateConnected \<and> lastError d = None"
      by (auto simp: broken_link_def reconnect_try_def elim!: dial_cases)
    with cnt n r Dialed show ?thesis by simp
  next
    case (Stopped e)
    with assms run have r: "r = Some e" "c' = d" "io' = iot"
      by (simp_all add: Reconnect_def n_def Let_def)
    from reconnect.loop_stopped [OF run [unfolded Stopped]] have "ctx_reports env ctx e"
      by (auto simp: reconnect_pause_def dest: loop_poll_reports connect_pause_reports)
    with cnt n r inv Stopped show ?thesis by (simp add: broken_link_def)
  next
    case (Exhausted l)
    with assms run have r: "c' = conn_setState StateFailed d" "io' = iot"
      "r = Some (exhausted_error '' exhausted '' '' reconnect attempts'' (config c) l)"
      by (simp_all add: Reconnect_def n_def Let_def)
    with cnt n inv Exhausted show ?thesis
      by (simp add: exhausted_is_failed conn_setState_def broken_link_def)
  qed
qed

theorem reconnect_outcome_witness:
  "\<exists>r c' io'. Reconnect script_env 0 (fresh_connection demo_config) (start_io down_script) = (r, c', io') \<and>
     config c' = demo_config \<and> dials io' \<le> 1"
proof -
  obtain r c' io' where
    run: "Reconnect script_env 0 (fresh_connection demo_config) (start_io down_script) = (r, c', io')"
    by (cases "Reconnect script_env 0 (fresh_connection demo_config) (start_io down_script)")
  moreover have "retry_attempts demo_config = 1" "config (fresh_connection demo_config) = demo_config"
    by (simp_all add: demo_config_def retry_attempts_def fresh_connection_def)
  ultimately have "config c' = demo_config \<and> dials io' \<le> 1"
    using reconnect_outcome [OF run] by (simp add: start_io_def dials_def)
  with run show ?thesis by blast
qed

subsection \<open>Connecting does not touch queues\<close>

lemma dial_queue_trace:
  "dial env c io = (r, c', io') \<Longrightarrow> queue_trace io' = queue_trace io"
  by (erule dial_cases) (simp_all add: queue_trace_def)

lemma pause_queue_trace:
  "connect_pause env ctx cfg i s = (r, t) \<Longrightarrow> queue_trace (snd t) = queue_trace (snd s)"
  by (auto simp: connect_pause_def sleepWithJitterCtx_def Let_def queue_trace_def split: prod.splits)

lemma reconnect_pause_queue_trace:
  "reconnect_pause env ctx i s = (r, t) \<Longrightarrow> queue_trace (snd t) = queue_trace (snd s)"
  unfolding reconnect_pause_def by (rule pause_queue_trace)

lemma loop_poll_queue_trace:
  "loop_poll env ctx s = (r, t) \<Longrightarrow> queue_trace (snd t) = queue_trace (snd s)"
  by (auto simp: loop_poll_def ctx_Err_queue_trace split: prod.splits)

lemma reconnect_try_queue_trace:
  "reconnect_try env s = (r, t) \<Longrightarrow> queue_trace (snd t) = queue_trace (snd s)"
  by (cases "mq_Disc env (queueManager (fst s)) (snd s)"; cases t)
    (auto simp: reconnect_try_def mq_Disc_queue_trace dest!: dial_queue_trace)

lemma connect_try_queue_trace:
  "connect_try env cfg s = (r, t) \<Longrightarrow> queue_trace (snd t) = queue_trace (snd s)"
  by (cases t) (auto simp: connect_try_def dest!: dial_queue_trace)

lemma newConnectionWithRetry_queue_trace:
  assumes "newConnectionWithRetry env ctx cfg io = (r, io')"
  shows "queue_trace io' = queue_trace io"
proof -
  let ?n = "nat (retry_attempts cfg)"
  obtain out c iot where run: "connect_loop env ctx cfg ?n ?n None (fresh_connection cfg, io) = (out, c, iot)"
    by (cases "connect_loop env ctx cfg ?n ?n None (fresh_connection cfg, io)")
  from connect.loop_keeps [where f = "\<lambda>s. queue_trace (snd s)", OF run
      loop_poll_queue_trace connect_try_queue_trace pause_queue_trace]
  have "queue_trace iot = queue_trace io" by simp
  with assms run show ?thesis
    by (cases out) (simp_all add: newConnectionWithRetry_def)
qed

lemma Reconnect_queue_trace:
  assumes "Reconnect env ctx c io = (r, c', io')"
  shows "queue_trace io' = queue_trace io"
proof -
  let ?n = "nat (retry_attempts (config c))" and ?s = "(conn_setState StateReconnecting c, io)"
  obtain out d iot where run: "reconnect_loop env ctx ?n ?n None ?s = (out, d, iot)"
    by (cases "reconnect_loop env ctx ?n ?n None ?s")
  from reconnect.loop_keeps [where f = "\<lambda>s. queue_trace (snd s)", OF run
      loop_poll_queue_trace reconnect_try_queue_trace
      reconnect_pause_queue_trace]
  have "queue_trace iot = queue_trace io" by simp
  with assms run show ?thesis
    by (cases out) (simp_all add: Reconnect_def Let_def)
qed

lemma conn_Close_queue_trace:
  "conn_Close env c io = (r, c', io') \<Longrightarrow> queue_trace io' = queue_trace io"
  by (auto simp: conn_Close_def Let_def split: prod.splits option.splits dest: mq_Disc_queue_trace)

lemmas link_queue_trace =
  ctx_Err_queue_trace time_Now_queue_trace newConnectionWithRetry_queue_trace
  Reconnect_queue_trace conn_Close_queue_trace

lemmas link_queue_counts = link_queue_trace [THEN queue_counts_of]

lemmas newConnectionWithRetry_queue_counts = newConnectionWithRetry_queue_trace [THEN queue_counts_of]

lemmas Reconnect_queue_counts = Reconnect_queue_trace [THEN queue_counts_of]

lemmas conn_Close_queue_counts = conn_Close_queue_trace [THEN queue_counts_of]

lemmas dial_queue_counts = dial_queue_trace [THEN queue_counts_of]

subsection \<open>Connections are not leaked\<close>

text \<open>
  The handles that are connected after the calls of a trace: each successful connect adds one,
  each disconnect of a connected handle takes it away. A second connect before the
  disconnect leaves two.
\<close>

fun live_step :: "handle multiset \<Rightarrow> mq_event \<Rightarrow> handle multiset" where
  "live_step m (EConnx _ _ (Inr h)) = add_mset h m"
| "live_step m (EDisc h) = m - {#h#}"
| "live_step m _ = m"

text \<open>Of the handles connected since \<open>io0\<close> at most that of \<open>c\<close>, or none at all, is still connected.\<close>

definition link_ok :: "'w io \<Rightarrow> connection \<Rightarrow> 'w io \<Rightarrow> bool" where
  "link_ok io0 c io \<longleftrightarrow>
     (\<exists>seg. trace io = trace io0 @ seg \<and> foldl live_step {#} seg \<subseteq># {#queueManager c#})"

definition link_closed :: "'w io \<Rightarrow> 'w io \<Rightarrow> bool" where
  "link_closed io0 io \<longleftrightarrow> (\<exists>seg. trace io = trace io0 @ seg \<and> foldl live_step {#} seg = {#})"

lemma link_closed_refl: "trace io = trace io0 \<Longrightarrow> link_closed io0 io"
  by (simp add: link_closed_def)

lemma link_ok_extend:
  assumes "link_ok io0 c io" and "trace io' = trace io @ seg" and "\<And>cur. foldl live_step cur seg = cur"
  shows "link_ok io0 c io'"
  using assms by (auto simp: link_ok_def)

lemma link_closed_trans:
  assumes "link_closed io0 io1" and "link_closed io1 io2"
  shows "link_closed io0 io2"
proof -
  from assms obtain a b where "trace io2 = trace io0 @ (a @ b)" "foldl live_step {#} (a @ b) = {#}"
    by (auto simp: link_closed_def)
  then show ?thesis unfolding link_closed_def by blast
qed

lemma link_closed_extend:
  assumes "link_closed io0 io" and "trace io' = trace io @ seg" and "\<And>cur. foldl live_step cur seg = cur"
  shows "link_closed io0 io'"
  using assms by (auto simp: link_closed_def)

lemma link_trace:
  "trace io' = trace io \<Longrightarrow> link_ok io0 c io' = link_ok io0 c io"
  "trace io' = trace io \<Longrightarrow> link_closed io0 io' = link_closed io0 io"
  by (simp_all add: link_ok_def link_closed_def)

lemma dial_link:
  assumes "dial env c io = (r, c', io')" and "link_closed io0 io"
  shows "case r of None \<Rightarrow> link_ok io0 c' io' | Some _ \<Rightarrow> link_closed io0 io'"
  using assms(1)
proof (cases rule: dial_cases)
  case (ok h)
  with assms(2) show ?thesis by (auto simp: link_ok_def link_closed_def)
next
  case (fail err)
  with assms(2) show ?thesis by (auto simp: link_closed_def)
qed

lemma disc_link:
  assumes "mq_Disc env (queueManager c) io = (r, io')" and "link_ok io0 c io"
  shows "link_closed io0 io'"
  using assms by (auto simp: mq_Disc_def link_ok_def link_closed_def Diff_eq_empty_iff_mset split: prod.splits)

lemma pause_link:
  assumes "connect_pause env ctx cfg i s = (r, t)"
  shows "\<exists>d. trace (snd t) = trace (snd s) @ [ESleep d]"
  using assms by (auto simp: connect_pause_def sleepWithJitterCtx_def Let_def split: prod.splits)

lemma poll_link: "loop_poll env ctx s = (r, t) \<Longrightarrow> trace (snd t) = trace (snd s) \<and> fst t = fst s"
  by (auto simp: loop_poll_def dest: ctx_Err_counts split: prod.splits)

lemma newConnectionWithRetry_link:
  assumes "newConnectionWithRetry env ctx cfg io = (r, io')"
  shows "case r of Inr c \<Rightarrow> link_ok io c io' | Inl _ \<Rightarrow> link_closed io io'"
proof -
  let ?n = "nat (retry_attempts cfg)" and ?I = "\<lambda>s. link_closed io (snd s)"
  obtain out c iot where run: "connect_loop env ctx cfg ?n ?n None (fresh_connection cfg, io) = (out, c, iot)"
    by (cases "connect_loop env ctx cfg ?n ?n None (fresh_connection cfg, io)")
  have "if out = Dialed then \<exists>s'. ?I s' \<and> connect_try env cfg s' = (None, c, iot) else ?I (c, iot)"
  proof (rule connect.loop_invariant [where I = ?I, OF run])
    show "?I (fresh_connection cfg, io)" by (simp add: link_closed_refl)
    show "?I t" if "loop_poll env ctx s = (r, t)" "?I s" for s r t
      using poll_link [OF that(1)] that(2) by (simp add: link_closed_def)
    show "?I t" if "connect_try env cfg s = (Some e, t)" "?I s" for s e t
      using that by (cases t) (auto simp: connect_try_def dest!: dial_link)
    show "?I t" if "connect_pause env ctx cfg i s = (r, t)" "?I s" for i s r t
      using pause_link [OF that(1)] that(2) by (auto intro: link_closed_extend)
  qed
  with assms run show ?thesis
    by (cases out) (auto simp: newConnectionWithRetry_def connect_try_def dest!: dial_link)
qed

lemma Reconnect_link:
  assumes "Reconnect env ctx c io = (r, c', io')" and "link_ok io0 c io"
  shows "link_ok io0 c' io'"
proof -
  let ?n = "nat (retry_attempts (config c))" and ?s = "(conn_setState StateReconnecting c, io)"
  let ?I = "\<lambda>s. link_ok io0 (fst s) (snd s)"
  have closed_ok: "link_closed io0 x \<Longrightarrow> link_ok io0 d x" for d and x :: "'a io"
    by (auto simp: link_ok_def link_closed_def)
  have again: "link_ok io0 d x" if "reconnect_try env s = (q, d, x)" "?I s" for s q d x
  proof -
    obtain y io1 where disc: "mq_Disc env (queueManager (fst s)) (snd s) = (y, io1)"
      by (cases "mq_Disc env (queueManager (fst s)) (snd s)")
    from dial_link [OF _ disc_link [OF disc that(2)], of env "fst s" q d x] that(1) disc
    show ?thesis by (cases q) (auto simp: reconnect_try_def closed_ok)
  qed
  obtain out d iot where run: "reconnect_loop env ctx ?n ?n None ?s = (out, d, iot)"
    by (cases "reconnect_loop env ctx ?n ?n None ?s")
  have "if out = Dialed then \<exists>s'. ?I s' \<and> reconnect_try env s' = (None, d, iot) else ?I (d, iot)"
  proof (rule reconnect.loop_invariant [where I = ?I, OF run])
    show "?I ?s" using assms(2) by (simp add: link_ok_def conn_setState_def)
    show "?I t" if "loop_poll env ctx s = (r, t)" "?I s" for s r t
      using poll_link [OF that(1)] that(2) by (simp add: link_ok_def)
    show "?I t" if "reconnect_try env s = (Some e, t)" "?I s" for s e t
      using that again by (cases t) auto
    show "?I t" if "reconnect_pause env ctx i s = (r, t)" "?I s" for i s r t
    proof -
      from that(1) have "fst t = fst s"
        by (auto simp: reconnect_pause_def connect_pause_def split: prod.splits)
      with pause_link [OF that(1) [unfolded reconnect_pause_def]] that(2) show ?thesis
        by (auto intro: link_ok_extend)
    qed
  qed
  then have "link_ok io0 d iot" using again by (auto split: if_splits)
  with assms(1) run show ?thesis
    by (cases out) (auto simp: Reconnect_def Let_def link_ok_def conn_setState_def)
qed

lemma conn_Close_link:
  assumes "conn_Close env c io = (r, c', io')" and "link_ok io0 c io"
  shows "link_closed io0 io'"
proof -
  from assms(1) obtain x where "mq_Disc env (queueManager c) io = (x, io')"
    by (auto simp: conn_Close_def Let_def conn_setState_def split: prod.splits option.splits)
  from disc_link [OF this assms(2)] show ?thesis .
qed

end
