(* ===== verification/MQ_Sender.thy ===== *)
theory MQ_Sender
  imports MQ_Connection Go_Channel
begin

unbundle bit_operations_syntax

text \<open>
  \<^verbatim>\<open>src/mq/sender.go\<close>: sending through a pool of connections. The definitions follow one
  call from beginning to end; \<^term>\<open>None\<close> means that the call never returns. How the
  atomic sections of concurrent calls interleave is the subject of the theory
  \<open>Sender_Pool\<close>.
\<close>

record Sender =
  s_cfg :: Config
  s_queue :: string
  s_pool :: "connection chan"
  s_created :: int
  s_maxConns :: int
  s_closed :: bool
  s_state :: ConnectionState
  s_lastErr :: "go_error option"
  s_wg :: nat
  s_tel :: mqTelemetry

definition WithSenderConcurrency :: "int \<Rightarrow> Sender \<Rightarrow> Sender" where
  "WithSenderConcurrency n s =
     (if 1 \<le> n then s\<lparr>s_maxConns := n, s_pool := make_chan (nat n)\<rparr> else s)"

text \<open>The struct \<^verbatim>\<open>NewSender\<close> of \<^verbatim>\<open>src/mq/client.go\<close> builds before it applies the options.\<close>

definition new_sender :: "Config \<Rightarrow> string \<Rightarrow> Sender" where
  "new_sender cfg destinationQueue =
     \<lparr>s_cfg = cfg,
      s_queue = (if destinationQueue = [] then OutputQueue cfg else destinationQueue),
      s_pool = make_chan (nat (OutputConcurrency cfg)),
      s_created = 0, s_maxConns = OutputConcurrency cfg, s_closed = False,
      s_state = StateUnknown, s_lastErr = None, s_wg = 0, s_tel = newMQTelemetry (Telemetry cfg)\<rparr>"

definition s_setState :: "ConnectionState \<Rightarrow> go_error option \<Rightarrow> Sender \<Rightarrow> Sender" where
  "s_setState st err s = s\<lparr>s_state := st, s_lastErr := err\<rparr>"

definition on_tel :: "(mqTelemetry \<Rightarrow> mqTelemetry) \<Rightarrow> Sender \<Rightarrow> Sender" where
  "on_tel f s = s\<lparr>s_tel := f (s_tel s)\<rparr>"

subsection \<open>Putting one message\<close>

definition run_creator ::
  "'w MessageCreator option \<Rightarrow> Message \<Rightarrow> 'w io \<Rightarrow> (go_error option \<times> Message) outcome \<times> 'w io" where
  "run_creator creator msg io =
     (case creator of
        None \<Rightarrow> (Returns (None, msg), io)
      | Some f \<Rightarrow> (case f msg (world io) of (r, w) \<Rightarrow> (r, io\<lparr>world := w\<rparr>)))"

text \<open>The creator both clients hand down: the user's, then the trace context.\<close>

definition wrappedCreator ::
  "otel \<Rightarrow> mqTelemetry \<Rightarrow> ctx \<Rightarrow> 'w MessageCreator option \<Rightarrow> 'w MessageCreator" where
  "wrappedCreator ot tel spanCtx creator msg w =
     (case (case creator of None \<Rightarrow> (Returns (None, msg), w) | Some f \<Rightarrow> f msg w) of
        (Returns (None, msg'), w') \<Rightarrow> (Returns (None, injectToMessage ot tel spanCtx msg'), w')
      | (Returns (Some err, msg'), w') \<Rightarrow> (Returns (Some err, msg'), w')
      | (Panics v, w') \<Rightarrow> (Panics v, w'))"

definition expiry_tenths :: "duration \<Rightarrow> int" where
  "expiry_tenths ttl = go_int32 (go_quot ttl (100 * millisecond))"

text \<open>A correlation id that is not hex or is longer than the field is dropped silently.\<close>

definition apply_correlation :: "string \<Rightarrow> bytes \<Rightarrow> bytes" where
  "apply_correlation cid field =
     (if cid = [] then field
      else case DecodeString cid of
             None \<Rightarrow> field
           | Some decoded \<Rightarrow> if length decoded \<le> 24 then go_copy field decoded else field)"

definition put_descriptor :: "'w env \<Rightarrow> Config \<Rightarrow> Message \<Rightarrow> mqmd" where
  "put_descriptor env cfg msg =
     (let md0 = newMQMD env;
          ttl = (if TTL msg = 0 then ProducerTTL cfg else TTL msg);
          md1 = (if 0 < ttl then md0\<lparr>Expiry := expiry_tenths ttl\<rparr> else md0);
          md2 = md1\<lparr>CorrelId := apply_correlation (CorrelationID msg) (CorrelId md1)\<rparr>;
          md3 = md2\<lparr>ReplyToQ := ReplyToQueue msg, ReplyToQMgr := ReplyToQueueManager msg\<rparr>
      in (if ReplyToQ md3 \<noteq> [] \<and> ReplyToQMgr md3 = [] \<and> SetQueueManager cfg
          then md3\<lparr>ReplyToQMgr := QueueManagerName cfg\<rparr> else md3))"

definition put_options :: "'w env \<Rightarrow> mqpmo" where
  "put_options env =
     (newMQPMO env)\<lparr>pmo_Options := MQPMO_NEW_MSG_ID env OR MQPMO_NO_SYNCPOINT env\<rparr>"

definition output_options :: "'w env \<Rightarrow> 32 word" where
  "output_options env = MQOO_OUTPUT env OR MQOO_FAIL_IF_QUIESCING env"

definition creator_error :: "go_error \<Rightarrow> go_error" where
  "creator_error err = wrap_error ''commons-mq-go: MessageCreator returned error'' err"

text \<open>The part of \<^verbatim>\<open>put\<close> that runs while the queue is open.\<close>

definition put_open ::
  "'w env \<Rightarrow> Config \<Rightarrow> handle \<Rightarrow> string \<Rightarrow> 'w MessageCreator option \<Rightarrow> 'w io \<Rightarrow>
   (go_error + string) outcome \<times> 'w io" where
  "put_open env cfg q queueName creator io =
     (case run_creator creator empty_message io of
        (Panics v, io1) \<Rightarrow> (Panics v, io1)
      | (Returns (Some err, msg), io1) \<Rightarrow> (Returns (Inl (creator_error err)), io1)
      | (Returns (None, msg), io1) \<Rightarrow>
          (case mq_Put env q (put_descriptor env cfg msg) (put_options env) (Body msg) io1 of
             (Inl err, io2) \<Rightarrow>
               (Returns (Inl (wrap_error (''commons-mq-go: failed to put message to queue '' @
                  quote queueName) (sanitizeError err))), io2)
           | (Inr md, io2) \<Rightarrow> (Returns (Inr (EncodeToString (MsgId md))), io2)))"

definition put ::
  "'w env \<Rightarrow> Config \<Rightarrow> connection \<Rightarrow> string \<Rightarrow> 'w MessageCreator option \<Rightarrow> 'w io \<Rightarrow>
   (go_error + string) outcome \<times> 'w io" where
  "put env cfg conn queueName creator io =
     (case mq_Open env (queueManager conn) ((newMQOD env)\<lparr>ObjectName := queueName\<rparr>)
             (output_options env) io of
        (Inl err, io1) \<Rightarrow>
          (Returns (Inl (wrap_error (''commons-mq-go: failed to open queue '' @ quote queueName @
             '' for output'') (sanitizeError err))), io1)
      | (Inr (q, od), io1) \<Rightarrow>
          (case put_open env cfg q queueName creator io1 of (r, io2) \<Rightarrow> (r, mq_Close env q io2)))"

subsection \<open>The pool\<close>

definition acquireConn ::
  "'w env \<Rightarrow> ctx \<Rightarrow> Sender \<Rightarrow> 'w io \<Rightarrow> ((go_error + connection) \<times> Sender \<times> 'w io) option" where
  "acquireConn env ctx s io =
     (case ctx_Err env ctx io of
        (Some err, io1) \<Rightarrow> Some (Inl err, s, io1)
      | (None, io1) \<Rightarrow>
          (case try_recv (s_pool s) of
             Some (conn, pool) \<Rightarrow>
               Some (Inr conn, s_setState StateConnected None (s\<lparr>s_pool := pool\<rparr>), io1)
           | None \<Rightarrow>
               (if s_created s < s_maxConns s
                then (let s1 = s\<lparr>s_created := s_created s + 1\<rparr> in
                      case newConnectionWithRetry env ctx (s_cfg s1) io1 of
                        (Inl err, io2) \<Rightarrow>
                          (let s2 = s1\<lparr>s_created := s_created s1 - 1\<rparr> in
                           case ctx_Err env ctx io2 of
                             (None, io3) \<Rightarrow> Some (Inl err, s_setState StateFailed (Some err) s2, io3)
                           | (Some _, io3) \<Rightarrow> Some (Inl err, s2, io3))
                      | (Inr conn, io2) \<Rightarrow>
                          Some (Inr conn, s_setState StateConnected None (on_tel incConnActive s1), io2))
                else (case awaitDone env ctx (world io1) of
                        None \<Rightarrow> None
                      | Some (err, w) \<Rightarrow> Some (Inl err, s, io1\<lparr>world := w\<rparr>)))))"

text \<open>A send to a channel that is full and that nobody reads never returns.\<close>

definition releaseConn :: "connection \<Rightarrow> Sender \<Rightarrow> Sender option" where
  "releaseConn conn s = map_option (\<lambda>pool. s\<lparr>s_pool := pool\<rparr>) (try_send conn (s_pool s))"

definition discardConn :: "'w env \<Rightarrow> connection \<Rightarrow> Sender \<Rightarrow> 'w io \<Rightarrow> Sender \<times> 'w io" where
  "discardConn env conn s io =
     (case conn_Close env conn io of
        (_, _, io') \<Rightarrow> (on_tel decConnActive (s\<lparr>s_created := s_created s - 1\<rparr>), io'))"

subsection \<open>Sending\<close>

text \<open>The last part of \<^verbatim>\<open>SendWithCreator\<close>: the connection is healthy and goes back to the pool.\<close>

definition send_finish ::
  "'w env \<Rightarrow> ctx \<Rightarrow> span \<Rightarrow> duration \<Rightarrow> connection \<Rightarrow> go_error + string \<Rightarrow> Sender \<Rightarrow> 'w io \<Rightarrow>
   ((go_error + string) outcome \<times> Sender \<times> 'w io) option" where
  "send_finish env spanCtx sp start conn r s io =
     (let s1 = (case r of Inr _ \<Rightarrow> s_setState StateConnected None s | Inl _ \<Rightarrow> s) in
      case time_Now env io of (now, io1) \<Rightarrow>
      let s2 = on_tel (recordPublishDuration spanCtx (now - start)) s1;
          s3 = (case r of
                  Inl _ \<Rightarrow> on_tel (incError spanCtx ''put_failed'') s2
                | Inr msgID \<Rightarrow>
                    if msgID \<noteq> [] then on_tel (tel_emit (SetAttribute sp ''messaging.message.id'' msgID)) s2
                    else s2);
          s4 = on_tel (endSpan sp (case r of Inl e \<Rightarrow> Some e | Inr _ \<Rightarrow> None)) s3
      in map_option (\<lambda>s5. (Returns r, s5, io1)) (releaseConn conn s4))"

text \<open>After a put failed on a broken connection: reconnect and put once more.\<close>

definition send_retry ::
  "'w env \<Rightarrow> ctx \<Rightarrow> ctx \<Rightarrow> span \<Rightarrow> duration \<Rightarrow> connection \<Rightarrow> string \<Rightarrow> 'w MessageCreator \<Rightarrow>
   go_error \<Rightarrow> Sender \<Rightarrow> 'w io \<Rightarrow> ((go_error + string) outcome \<times> Sender \<times> 'w io) option" where
  "send_retry env ctx spanCtx sp start conn destination creator putErr s io =
     (let s0 = s_setState StateReconnecting (Some putErr) s in
      case Reconnect env ctx conn io of
        (Some reconnErr, conn', io1) \<Rightarrow>
          (case discardConn env conn' s0 io1 of
             (s1, io2) \<Rightarrow>
               Some (Returns (Inl reconnErr),
                 on_tel (endSpan sp (Some reconnErr) \<circ> incError spanCtx ''connection_failed'')
                   (s_setState StateFailed (Some reconnErr) s1), io2))
      | (None, conn', io1) \<Rightarrow>
          (let s1 = s_setState StateConnected None s0 in
           case put env (s_cfg s1) conn' destination (Some creator) io1 of
             (Panics v, io2) \<Rightarrow> Some (Panics v, s1, io2)
           | (Returns (Inl putErr'), io2) \<Rightarrow>
               (case discardConn env conn' s1 io2 of
                  (s2, io3) \<Rightarrow>
                    Some (Returns (Inl putErr'),
                      on_tel (endSpan sp (Some putErr') \<circ> incError spanCtx ''put_failed'')
                        (if IsConnectionError (Some putErr')
                         then s_setState StateFailed (Some putErr') s2 else s2), io3))
           | (Returns (Inr msgID), io2) \<Rightarrow>
               send_finish env spanCtx sp start conn' (Inr msgID) s1 io2))"

definition send_on ::
  "'w env \<Rightarrow> ctx \<Rightarrow> ctx \<Rightarrow> span \<Rightarrow> duration \<Rightarrow> connection \<Rightarrow> string \<Rightarrow> 'w MessageCreator \<Rightarrow>
   Sender \<Rightarrow> 'w io \<Rightarrow> ((go_error + string) outcome \<times> Sender \<times> 'w io) option" where
  "send_on env ctx spanCtx sp start conn destination creator s io =
     (case put env (s_cfg s) conn destination (Some creator) io of
        (Panics v, io1) \<Rightarrow> Some (Panics v, s, io1)
      | (Returns (Inl putErr), io1) \<Rightarrow>
          (if IsConnectionError (Some putErr)
           then send_retry env ctx spanCtx sp start conn destination creator putErr s io1
           else send_finish env spanCtx sp start conn (Inl putErr) s io1)
      | (Returns (Inr msgID), io1) \<Rightarrow> send_finish env spanCtx sp start conn (Inr msgID) s io1)"

definition wg_done :: "'r \<times> Sender \<times> 'i \<Rightarrow> 'r \<times> Sender \<times> 'i" where
  "wg_done x = (case x of (r, s, io) \<Rightarrow> (r, s\<lparr>s_wg := s_wg s - 1\<rparr>, io))"

definition no_destination :: go_error where
  "no_destination =
     ErrorString ''commons-mq-go: no destination queue specified and Config.OutputQueue is empty''"

definition SendWithCreator ::
  "'w env \<Rightarrow> ctx \<Rightarrow> string \<Rightarrow> 'w MessageCreator option \<Rightarrow> Sender \<Rightarrow> 'w io \<Rightarrow>
   ((go_error + string) outcome \<times> Sender \<times> 'w io) option" where
  "SendWithCreator env ctx destination0 creator s io =
     (let destination = (if destination0 = [] then s_queue s else destination0) in
      if destination = [] then Some (Returns (Inl no_destination), s, io)
      else if s_closed s then Some (Returns (Inl (Sentinel ErrClientClosed)), s, io)
      else
        (let s0 = s\<lparr>s_wg := s_wg s + 1\<rparr> in
         case startProducerSpan (otel_api env) ctx destination (s_tel s0) of (spanCtx, sp, tel1) \<Rightarrow>
         let s1 = s0\<lparr>s_tel := tel1\<rparr> in
         case time_Now env io of (start, io1) \<Rightarrow>
         map_option wg_done
           (case acquireConn env ctx s1 io1 of
              None \<Rightarrow> None
            | Some (Inl err, s2, io2) \<Rightarrow>
                Some (Returns (Inl err),
                  on_tel (endSpan sp (Some err) \<circ> incError ctx ''connection_failed'') s2, io2)
            | Some (Inr conn, s2, io2) \<Rightarrow>
                send_on env ctx spanCtx sp start conn destination
                  (wrappedCreator (otel_api env) tel1 spanCtx creator) s2 io2)))"

definition string_bytes :: "string \<Rightarrow> bytes" where
  "string_bytes t = map (\<lambda>c. word_of_nat (of_char c)) t"

definition payload_creator :: "string \<Rightarrow> 'w MessageCreator" where
  "payload_creator payload msg w = (Returns (None, msg\<lparr>Body := string_bytes payload\<rparr>), w)"

definition Send ::
  "'w env \<Rightarrow> ctx \<Rightarrow> string \<Rightarrow> Sender \<Rightarrow> 'w io \<Rightarrow>
   ((go_error + string) outcome \<times> Sender \<times> 'w io) option" where
  "Send env ctx payload s io = SendWithCreator env ctx [] (Some (payload_creator payload)) s io"

definition SendTo ::
  "'w env \<Rightarrow> ctx \<Rightarrow> string \<Rightarrow> string \<Rightarrow> Sender \<Rightarrow> 'w io \<Rightarrow>
   ((go_error + string) outcome \<times> Sender \<times> 'w io) option" where
  "SendTo env ctx destination payload s io =
     SendWithCreator env ctx destination (Some (payload_creator payload)) s io"

subsection \<open>Closing\<close>

text \<open>The loop \<^verbatim>\<open>for range created\<close> with its non-blocking receive.\<close>

primrec drain_pool ::
  "'w env \<Rightarrow> nat \<Rightarrow> connection chan \<Rightarrow> 'w io \<Rightarrow> go_error list \<Rightarrow>
   go_error list \<times> connection chan \<times> 'w io" where
  "drain_pool env 0 pool io errs = (errs, pool, io)"
| "drain_pool env (Suc n) pool io errs =
     (case try_recv pool of
        None \<Rightarrow> drain_pool env n pool io errs
      | Some (conn, pool') \<Rightarrow>
          (case conn_Close env conn io of
             (Some err, _, io') \<Rightarrow> drain_pool env n pool' io' (errs @ [err])
           | (None, _, io') \<Rightarrow> drain_pool env n pool' io' errs))"

text \<open>\<^verbatim>\<open>s.wg.Wait()\<close> with no other goroutine running returns only at zero.\<close>

definition Sender_close ::
  "'w env \<Rightarrow> Sender \<Rightarrow> 'w io \<Rightarrow> (go_error option \<times> Sender \<times> 'w io) option" where
  "Sender_close env s io =
     (if s_closed s then Some (None, s, io)
      else
        (let s1 = s\<lparr>s_closed := True, s_state := StateStopped, s_lastErr := None\<rparr>;
             created = s_created s1 in
         if s_wg s1 \<noteq> 0 then None
         else (case drain_pool env (nat created) (s_pool s1) io [] of
                 (errs, pool, io') \<Rightarrow> Some (errors_join errs, s1\<lparr>s_pool := pool\<rparr>, io'))))"

interpretation sender_life: closable "Sender_close env" s_closed for env
  by unfold_locales (auto simp: Sender_close_def Let_def split: if_splits prod.splits)

subsection \<open>What a put does to the queue manager\<close>

definition open_failed :: "string \<Rightarrow> go_error \<Rightarrow> go_error" where
  "open_failed queueName err =
     wrap_error (''commons-mq-go: failed to open queue '' @ quote queueName @ '' for output'')
       (sanitizeError err)"

definition put_failed :: "string \<Rightarrow> go_error \<Rightarrow> go_error" where
  "put_failed queueName err =
     wrap_error (''commons-mq-go: failed to put message to queue '' @ quote queueName)
       (sanitizeError err)"

definition put_open_event :: "'w env \<Rightarrow> connection \<Rightarrow> string \<Rightarrow> go_error + handle \<Rightarrow> mq_event" where
  "put_open_event env conn queueName r =
     EOpen (queueManager conn) queueName (output_options env) r"

definition put_event :: "'w env \<Rightarrow> Config \<Rightarrow> handle \<Rightarrow> Message \<Rightarrow> go_error option \<Rightarrow> mq_event" where
  "put_event env cfg q msg r = EPut q (put_descriptor env cfg msg) (put_options env) (Body msg) r"

lemmas put_event_defs = put_open_event_def put_event_def open_failed_def put_failed_def

lemma put_open_cases:
  assumes "put_open env cfg q qn creator io = (r, io')"
  obtains (panicked) v io1 where "run_creator creator empty_message io = (Panics v, io1)"
      "r = Panics v" "trace io' = trace io"
    | (refused) err msg io1 where "run_creator creator empty_message io = (Returns (Some err, msg), io1)"
      "r = Returns (Inl (creator_error err))" "trace io' = trace io"
    | (failed) msg io1 err where "run_creator creator empty_message io = (Returns (None, msg), io1)"
      "r = Returns (Inl (put_failed qn err))" "trace io' = trace io @ [put_event env cfg q msg (Some err)]"
    | (completed) msg io1 md where "run_creator creator empty_message io = (Returns (None, msg), io1)"
      "fst (PutQ env q (put_descriptor env cfg msg) (put_options env) (Body msg) (world io1)) = Inr md"
      "r = Returns (Inr (EncodeToString (MsgId md)))" "trace io' = trace io @ [put_event env cfg q msg None]"
proof -
  obtain x io1 where x: "run_creator creator empty_message io = (x, io1)"
    by (cases "run_creator creator empty_message io")
  then have io1: "trace io1 = trace io"
    by (auto simp: run_creator_def split: option.splits prod.splits)
  show thesis
  proof (cases x)
    case (Returns y)
    then obtain e msg where y: "x = Returns (e, msg)" by (cases y) simp
    show thesis
    proof (cases e)
      case None
      with assms x y io1 that(3,4) show thesis
        by (auto simp: put_open_def mq_Put_def put_event_defs split: prod.splits sum.splits)
    next
      case (Some err)
      with assms x y io1 that(2) show thesis by (auto simp: put_open_def)
    qed
  next
    case (Panics v)
    with assms x io1 that(1) show thesis by (auto simp: put_open_def)
  qed
qed

lemma put_cases:
  assumes "put env cfg conn qn creator io = (r, io')"
  obtains (not_opened) err where "r = Returns (Inl (open_failed qn err))"
      "trace io' = trace io @ [put_open_event env conn qn (Inl err)]"
    | (opened) q io1 io2 where "put_open env cfg q qn creator io1 = (r, io2)"
      "trace io1 = trace io @ [put_open_event env conn qn (Inr q)]" "trace io' = trace io2 @ [EClose q]"
  using assms
  by (auto simp: put_def mq_Open_def mq_Close_def put_event_defs emit_def
      split: prod.splits sum.splits)

text \<open>The creator answered \<open>x\<close> for a fresh message in some world.\<close>

definition creator_gives ::
  "'w MessageCreator option \<Rightarrow> (go_error option \<times> Message) outcome \<Rightarrow> bool" where
  "creator_gives creator x \<longleftrightarrow> (\<exists>io io'. run_creator creator empty_message io = (x, io'))"

lemma creator_givesI: "run_creator creator empty_message io = (x, io') \<Longrightarrow> creator_gives creator x"
  by (auto simp: creator_gives_def)

text \<open>
  C5: what one \<^verbatim>\<open>put\<close> does. The events it adds to the trace are an open of the destination
  for output and, if that succeeded, at most one MQPUT and always the close of the
  handle: no queue handle is left open on any path, a panic of the creator included.
  It reports success exactly when the MQPUT succeeded, and then the id it returns is the
  hex text of the message id the queue manager assigned, and the descriptor and body put
  are those of the message the creator left.
\<close>

theorem put_outcome:
  assumes "put env cfg conn qn creator io = (r, io')"
  shows "(\<exists>seg. trace io' = trace io @ seg \<and>
      ((\<exists>err. seg = [put_open_event env conn qn (Inl err)] \<and> r = Returns (Inl (open_failed qn err))) \<or>
       (\<exists>q mid. seg = put_open_event env conn qn (Inr q) # mid @ [EClose q] \<and>
          (case r of
             Panics v \<Rightarrow> mid = [] \<and> creator_gives creator (Panics v)
           | Returns (Inl e) \<Rightarrow>
               (\<exists>msg err. mid = [] \<and> creator_gives creator (Returns (Some err, msg)) \<and> e = creator_error err) \<or>
               (\<exists>msg err. mid = [put_event env cfg q msg (Some err)] \<and>
                  creator_gives creator (Returns (None, msg)) \<and> e = put_failed qn err)
           | Returns (Inr msgID) \<Rightarrow>
               (\<exists>msg md w. mid = [put_event env cfg q msg None] \<and>
                  creator_gives creator (Returns (None, msg)) \<and> msgID = EncodeToString (MsgId md) \<and>
                  fst (PutQ env q (put_descriptor env cfg msg) (put_options env) (Body msg) w) = Inr md))))) \<and>
    open_handles (trace io') = open_handles (trace io)"
  using assms
proof (cases rule: put_cases)
  case (not_opened err)
  then show ?thesis by (simp add: put_event_defs)
next
  case (opened q io1 io2)
  from opened(1) show ?thesis
  proof (cases rule: put_open_cases)
    case (panicked v io3)
    with opened creator_givesI [OF panicked(1)] show ?thesis by (simp add: put_event_defs)
  next
    case (refused err msg io3)
    with opened creator_givesI [OF refused(1)] show ?thesis by (auto simp: put_event_defs)
  next
    case (failed msg io3 err)
    with opened creator_givesI [OF failed(1)] show ?thesis by (auto simp: put_event_defs)
  next
    case (completed msg io3 md)
    with opened creator_givesI [OF completed(1)] show ?thesis by (auto simp: put_event_defs)
  qed
qed

theorem put_outcome_witness:
  "open_handles (trace (snd (put script_env demo_config (fresh_connection demo_config) ''Q.OUT''
     (Some (payload_creator ''hi'')) (start_io quiet_script)))) = {#}"
proof -
  let ?p = "put script_env demo_config (fresh_connection demo_config) ''Q.OUT''
     (Some (payload_creator ''hi'')) (start_io quiet_script)"
  have "?p = (fst ?p, snd ?p)" by simp
  from put_outcome [OF this] show ?thesis by (simp add: start_io_def open_handles_def)
qed

lemma put_queue_counts:
  assumes "put env cfg conn qn creator io = (r, io')"
  shows "puts io' \<le> puts io + 1" and "open_handles (trace io') = open_handles (trace io)"
    and "good_puts io' = good_puts io + (if \<exists>x. r = Returns (Inr x) then 1 else 0)"
proof -
  have "puts io' \<le> puts io + 1 \<and> open_handles (trace io') = open_handles (trace io) \<and>
    good_puts io' = good_puts io + (if \<exists>x. r = Returns (Inr x) then 1 else 0)"
    using assms
  proof (cases rule: put_cases)
    case (not_opened err)
    then show ?thesis by (simp add: put_event_defs puts_def good_puts_def)
  next
    case (opened q io1 io2)
    from opened(1) show ?thesis
      by (cases rule: put_open_cases)
        (use opened in \<open>simp_all add: put_event_defs puts_def good_puts_def\<close>)
  qed
  then show "puts io' \<le> puts io + 1" "open_handles (trace io') = open_handles (trace io)"
    "good_puts io' = good_puts io + (if \<exists>x. r = Returns (Inr x) then 1 else 0)"
    by simp_all
qed

subsection \<open>The message descriptor\<close>

lemma put_descriptor_fields:
  "Expiry (put_descriptor env cfg msg) =
     (let ttl = (if TTL msg = 0 then ProducerTTL cfg else TTL msg) in
      if 0 < ttl then expiry_tenths ttl else Expiry (newMQMD env))"
  "CorrelId (put_descriptor env cfg msg) = apply_correlation (CorrelationID msg) (CorrelId (newMQMD env))"
  "MsgId (put_descriptor env cfg msg) = MsgId (newMQMD env)"
  "ReplyToQ (put_descriptor env cfg msg) = ReplyToQueue msg"
  "ReplyToQMgr (put_descriptor env cfg msg) =
     (if ReplyToQueue msg \<noteq> [] \<and> ReplyToQueueManager msg = [] \<and> SetQueueManager cfg
      then QueueManagerName cfg else ReplyToQueueManager msg)"
  by (simp_all add: put_descriptor_def Let_def)

lemma expiry_tenths_exact:
  assumes "0 < ttl" and "ttl div (100 * millisecond) < 2 ^ 31"
  shows "expiry_tenths ttl = ttl div (100 * millisecond)"
proof -
  have "0 \<le> ttl div (100 * millisecond)" using assms(1) by (simp add: millisecond_def)
  with assms have "in_int32 (ttl div (100 * millisecond))" by (simp add: in_int32_def)
  with assms(1) show ?thesis by (simp add: expiry_tenths_def millisecond_def)
qed

lemma expiry_boundaries:
  "expiry_tenths (99 * millisecond) = 0" "expiry_tenths (2 ^ 32 * (100 * millisecond)) = 0"
  by (simp_all add: expiry_tenths_def go_int32_def millisecond_def signed_take_bit_eq_if_positive
      take_bit_eq_mod bit_iff_odd)

text \<open>
  The expiry of a message. The message's own time to live wins over the
  configuration's, and for a positive one whose number of tenths of a second fits 32
  bits the expiry is rounded down: the message never outlives its time to live and
  expires less than a tenth of a second early. Without any the descriptor keeps the
  binding's default. At the boundaries, a time to live of 99 milliseconds becomes the
  expiry 0, and one of \<open>2\<^sup>3\<^sup>2\<close> tenths wraps to 0 as well.
\<close>

lemma put_expiry:
  assumes "ttl = (if TTL msg = 0 then ProducerTTL cfg else TTL msg)"
    and "ttl < 2 ^ 31 * (100 * millisecond)"
  shows "(if 0 < ttl
    then 0 \<le> Expiry (put_descriptor env cfg msg) \<and>
      Expiry (put_descriptor env cfg msg) * (100 * millisecond) \<le> ttl \<and>
      ttl < (Expiry (put_descriptor env cfg msg) + 1) * (100 * millisecond)
    else Expiry (put_descriptor env cfg msg) = Expiry (newMQMD env)) \<and>
    Expiry (put_descriptor env cfg (msg\<lparr>TTL := 99 * millisecond\<rparr>)) = 0 \<and>
    Expiry (put_descriptor env cfg (msg\<lparr>TTL := 2 ^ 32 * (100 * millisecond)\<rparr>)) = 0"
proof -
  have e: "Expiry (put_descriptor env cfg msg) = (if 0 < ttl then expiry_tenths ttl else Expiry (newMQMD env))"
    unfolding assms(1) put_descriptor_fields Let_def by (rule refl)
  have "ttl div (100 * millisecond) < 2 ^ 31"
    using assms(2) by (simp add: millisecond_def)
  with e have "0 < ttl \<Longrightarrow> Expiry (put_descriptor env cfg msg) = ttl div (100 * millisecond)"
    by (simp add: expiry_tenths_exact)
  moreover have "0 < ttl \<Longrightarrow> 0 \<le> ttl div (100 * millisecond)" by (simp add: millisecond_def)
  moreover have "ttl div (100 * millisecond) * (100 * millisecond) + ttl mod (100 * millisecond) = ttl"
    "0 \<le> ttl mod (100 * millisecond)" "ttl mod (100 * millisecond) < 100 * millisecond"
    by (simp_all only: div_mult_mod_eq, simp_all add: millisecond_def)
  ultimately have "if 0 < ttl
    then 0 \<le> Expiry (put_descriptor env cfg msg) \<and>
      Expiry (put_descriptor env cfg msg) * (100 * millisecond) \<le> ttl \<and>
      ttl < (Expiry (put_descriptor env cfg msg) + 1) * (100 * millisecond)
    else Expiry (put_descriptor env cfg msg) = Expiry (newMQMD env)"
    using e by (simp add: distrib_right)
  moreover have "Expiry (put_descriptor env cfg (msg\<lparr>TTL := t\<rparr>)) = expiry_tenths t" if "0 < t" for t
    using that by (simp add: put_descriptor_def Let_def)
  from this [of "99 * millisecond"] this [of "2 ^ 32 * (100 * millisecond)"]
  have "Expiry (put_descriptor env cfg (msg\<lparr>TTL := 99 * millisecond\<rparr>)) = 0 \<and>
      Expiry (put_descriptor env cfg (msg\<lparr>TTL := 2 ^ 32 * (100 * millisecond)\<rparr>)) = 0"
    by (simp only: expiry_boundaries) (simp add: millisecond_def)
  ultimately show ?thesis by blast
qed

lemma apply_correlation_hex:
  assumes "b \<noteq> []" and "length b \<le> 24"
  shows "apply_correlation (EncodeToString b) field = go_copy field b"
  using assms hex.dec_enc [of b] by (simp add: apply_correlation_def)

lemma put_wrapped:
  "put env cfg conn qn (Some (wrappedCreator ot tel spanCtx creator)) io =
   put env cfg conn qn creator io"
proof -
  have md: "put_descriptor env cfg (injectToMessage ot tel spanCtx msg) = put_descriptor env cfg msg"
    "Body (injectToMessage ot tel spanCtx msg) = Body msg" for msg
    by (simp_all add: put_descriptor_def injectToMessage_def Let_def)
  have "put_open env cfg q qn (Some (wrappedCreator ot tel spanCtx creator)) io' =
      put_open env cfg q qn creator io'" for q io'
    by (auto simp: put_open_def run_creator_def wrappedCreator_def md
        split: option.splits prod.splits outcome.splits)
  then show ?thesis by (simp add: put_def split: prod.splits sum.splits)
qed

text \<open>
  C34: the trace context never reaches the queue manager. Wrapping a creator so that it
  injects the span context into the user properties changes neither the calls a put
  makes, nor their arguments, nor its result, whatever propagator is configured: user
  properties are not written to the message.
\<close>

theorem trace_context_not_sent:
  "put env cfg conn qn (Some (wrappedCreator ot tel spanCtx creator)) io =
   put env cfg conn qn creator io"
  by (rule put_wrapped)

subsection \<open>The pool's accounts\<close>

text \<open>
  The invariant of the pool when \<open>held\<close> connections are checked out: every created
  connection is idle in the pool or held, the pool has room for all of them, and the
  gauge counts them.
\<close>

definition sender_inv :: "nat \<Rightarrow> Sender \<Rightarrow> bool" where
  "sender_inv held s \<longleftrightarrow>
     1 \<le> s_maxConns s \<and> int (chan_cap (s_pool s)) = s_maxConns s \<and>
     s_created s = int (length (chan_buf (s_pool s))) + int held \<and>
     s_created s \<le> s_maxConns s \<and> activeConns (s_tel s) = word_of_int (s_created s)"

text \<open>What no operation of a send changes.\<close>

definition same_setup :: "Sender \<Rightarrow> Sender \<Rightarrow> bool" where
  "same_setup s t \<longleftrightarrow>
     s_cfg t = s_cfg s \<and> s_queue t = s_queue s \<and> s_maxConns t = s_maxConns s \<and>
     s_closed t = s_closed s \<and> s_wg t = s_wg s"

lemma same_setup_refl [simp]: "same_setup s s"
  by (simp add: same_setup_def)

lemma same_setup_trans: "same_setup s t \<Longrightarrow> same_setup t u \<Longrightarrow> same_setup s u"
  by (simp add: same_setup_def)

lemma sender_inv_state [simp]: "sender_inv k (s_setState st e s) = sender_inv k s"
  by (simp add: sender_inv_def s_setState_def)

lemma same_setup_simps [simp]:
  "same_setup s (s_setState st e t) = same_setup s t"
  "same_setup (s_setState st e s) t = same_setup s t"
  "same_setup s (on_tel f t) = same_setup s t"
  "same_setup (on_tel f s) t = same_setup s t"
  by (simp_all add: same_setup_def s_setState_def on_tel_def)

lemma s_tel_simps [simp]:
  "s_tel (s_setState st e s) = s_tel s" "s_tel (on_tel f s) = f (s_tel s)"
  "s_cfg (s_setState st e s) = s_cfg s" "s_created (s_setState st e s) = s_created s"
  "s_created (on_tel f s) = s_created s" "s_pool (on_tel f s) = s_pool s"
  "s_pool (s_setState st e s) = s_pool s" "s_wg (on_tel f s) = s_wg s"
  by (simp_all add: s_setState_def on_tel_def)

lemma sender_inv_tel:
  "(\<And>t. activeConns (f t) = activeConns t) \<Longrightarrow> sender_inv k (on_tel f s) = sender_inv k s"
  by (simp add: sender_inv_def on_tel_def)

lemma acquireConn_progress:
  assumes "sender_inv 0 s"
  shows "\<exists>r s' io'. acquireConn env ctx s io = Some (r, s', io') \<and>
    sender_inv (case r of Inl _ \<Rightarrow> 0 | Inr _ \<Rightarrow> 1) s' \<and> same_setup s s' \<and>
    open_spans (s_tel s') = open_spans (s_tel s) \<and> queue_counts io' = queue_counts io"
proof -
  obtain e io1 where poll: "ctx_Err env ctx io = (e, io1)" by (cases "ctx_Err env ctx io")
  note poll_counts = link_queue_counts(1) [OF poll]
  consider (cancelled) x where "e = Some x" | (idle) conn pool where "e = None" "try_recv (s_pool s) = Some (conn, pool)"
    | (create) "e = None" "try_recv (s_pool s) = None"
    by (cases e; cases "try_recv (s_pool s)") auto
  then show ?thesis
  proof cases
    case cancelled
    with poll assms poll_counts show ?thesis by (simp add: acquireConn_def)
  next
    case idle
    from chan.recv_Some [OF idle(2)] have "sender_inv 1 (s\<lparr>s_pool := pool\<rparr>)"
      using assms by (simp add: sender_inv_def)
    with poll idle poll_counts show ?thesis by (simp add: acquireConn_def same_setup_def s_setState_def sender_inv_def)
  next
    case create
    then have lt: "s_created s < s_maxConns s" using assms chan.recv_None [of "s_pool s"] by (simp add: sender_inv_def)
    obtain r io2 where new: "newConnectionWithRetry env ctx (s_cfg s) io1 = (r, io2)"
      by (cases "newConnectionWithRetry env ctx (s_cfg s) io1")
    obtain e' io3 where again: "ctx_Err env ctx io2 = (e', io3)" by (cases "ctx_Err env ctx io2")
    note counts = poll_counts link_queue_counts(3) [OF new] link_queue_counts(1) [OF again]
    show ?thesis
    proof (cases r)
      case (Inl err)
      with poll create lt new again counts assms show ?thesis
        by (cases e') (simp_all add: acquireConn_def)
    next
      case (Inr conn)
      have "sender_inv 1 (on_tel incConnActive (s\<lparr>s_created := s_created s + 1\<rparr>))"
        using assms lt by (simp add: sender_inv_def on_tel_def)
      with Inr poll create lt new counts show ?thesis
        by (simp add: acquireConn_def) (simp add: same_setup_def)
    qed
  qed
qed

lemma releaseConn_room:
  assumes "sender_inv (Suc k) s"
  shows "\<exists>s'. releaseConn conn s = Some s' \<and> sender_inv k s' \<and> same_setup s s' \<and> s_tel s' = s_tel s"
proof -
  from assms have inv: "int (chan_cap (s_pool s)) = s_maxConns s" "s_created s \<le> s_maxConns s"
    "s_created s = int (length (chan_buf (s_pool s))) + int (Suc k)" "1 \<le> s_maxConns s"
    and act: "activeConns (s_tel s) = word_of_int (s_created s)"
    unfolding sender_inv_def by blast+
  then have "length (chan_buf (s_pool s)) < chan_cap (s_pool s)" by linarith
  then obtain pool where pool: "try_send conn (s_pool s) = Some pool"
    using chan.send_enabled [of "s_pool s" conn] by auto
  from chan.send_Some [OF pool] inv
  have "s_created s = int (length (chan_buf pool)) + int k" "int (chan_cap pool) = s_maxConns s" by auto
  then have "sender_inv k (s\<lparr>s_pool := pool\<rparr>)"
    using inv(2,4) act by (simp add: sender_inv_def)
  with pool show ?thesis by (simp add: releaseConn_def same_setup_def)
qed

lemma discardConn_accounts:
  assumes "discardConn env conn s io = (s', io')" and "sender_inv (Suc k) s"
  shows "sender_inv k s' \<and> same_setup s s' \<and> queue_counts io' = queue_counts io \<and>
    open_spans (s_tel s') = open_spans (s_tel s)"
proof -
  obtain r c io1 where cl: "conn_Close env conn io = (r, c, io1)" by (cases "conn_Close env conn io")
  with assms(1) have "s' = on_tel decConnActive (s\<lparr>s_created := s_created s - 1\<rparr>)" "io' = io1"
    by (simp_all add: discardConn_def)
  with assms(2) link_queue_counts(5) [OF cl] show ?thesis
    by (simp add: sender_inv_def same_setup_def on_tel_def)
qed

text \<open>
  The postcondition of the parts of a send that own a connection: \<open>n\<close> bounds the number
  of MQPUT calls, \<open>sp\<close> is the span of the call.
\<close>

definition send_post ::
  "nat \<Rightarrow> span \<Rightarrow> Sender \<Rightarrow> 'w io \<Rightarrow> (go_error + string) outcome \<times> Sender \<times> 'w io \<Rightarrow> bool" where
  "send_post n sp s io x \<longleftrightarrow>
     (case x of (r, s', io') \<Rightarrow>
        same_setup s s' \<and>
        puts io' \<le> puts io + n \<and>
        good_puts io' = good_puts io + (if \<exists>y. r = Returns (Inr y) then 1 else 0) \<and>
        open_handles (trace io') = open_handles (trace io) \<and>
        (case r of
           Panics v \<Rightarrow> sender_inv 1 s'
         | Returns _ \<Rightarrow> sender_inv 0 s' \<and> open_spans (s_tel s') = open_spans (s_tel s) - {#sp#}))"

lemma send_post_state [simp]: "send_post n sp (s_setState st e s) io x = send_post n sp s io x"
  by (simp add: send_post_def split: prod.splits outcome.splits)

lemma send_finish_post:
  assumes "sender_inv 1 s" and "puts io \<le> puts io0 + n"
    and "good_puts io = good_puts io0 + (case r of Inl _ \<Rightarrow> 0 | Inr _ \<Rightarrow> 1)"
    and "open_handles (trace io) = open_handles (trace io0)"
  shows "\<exists>x. send_finish env spanCtx sp start conn r s io = Some x \<and> send_post n sp s io0 x"
proof -
  obtain now io1 where now: "time_Now env io = (now, io1)" by (cases "time_Now env io")
  define s2 where "s2 = on_tel (recordPublishDuration spanCtx (now - start))
    (case r of Inr _ \<Rightarrow> s_setState StateConnected None s | Inl _ \<Rightarrow> s)"
  define s3 where "s3 = (case r of
      Inl _ \<Rightarrow> on_tel (incError spanCtx ''put_failed'') s2
    | Inr msgID \<Rightarrow>
        if msgID \<noteq> [] then on_tel (tel_emit (SetAttribute sp ''messaging.message.id'' msgID)) s2
        else s2)"
  define s4 where "s4 = on_tel (endSpan sp (case r of Inl e \<Rightarrow> Some e | Inr _ \<Rightarrow> None)) s3"
  have s4: "sender_inv (Suc 0) s4" "same_setup s s4" "open_spans (s_tel s4) = open_spans (s_tel s) - {#sp#}"
    using assms(1) by (simp_all add: s4_def s3_def s2_def sender_inv_tel split: sum.splits)
  from releaseConn_room [OF s4(1), of conn] obtain s5 where
    s5: "releaseConn conn s4 = Some s5" "sender_inv 0 s5" "same_setup s4 s5" "s_tel s5 = s_tel s4" by blast
  have "send_finish env spanCtx sp start conn r s io =
      map_option (\<lambda>s5. (Returns r, s5, io1)) (releaseConn conn s4)"
    by (simp only: send_finish_def now prod.case Let_def s2_def s3_def s4_def)
  with s5(1) have "send_finish env spanCtx sp start conn r s io = Some (Returns r, s5, io1)" by simp
  moreover have "send_post n sp s io0 (Returns r, s5, io1)"
    using s4 s5 assms link_queue_counts(2) [OF now]
    by (cases r) (auto simp: send_post_def queue_counts_def intro: same_setup_trans)
  ultimately show ?thesis by blast
qed

lemma send_retry_post:
  assumes inv: "sender_inv 1 s"
  shows "\<exists>x. send_retry env ctx spanCtx sp start conn destination creator putErr s io = Some x \<and>
    send_post 1 sp s io x"
proof -
  let ?s0 = "s_setState StateReconnecting (Some putErr) s"
  let ?s1 = "s_setState StateConnected None ?s0"
  obtain e conn' io1 where rec: "Reconnect env ctx conn io = (e, conn', io1)"
    by (cases "Reconnect env ctx conn io")
  note c1 = link_queue_counts(4) [OF rec]
  show ?thesis
  proof (cases e)
    case (Some err)
    obtain s1 io2 where d: "discardConn env conn' ?s0 io1 = (s1, io2)"
      by (cases "discardConn env conn' ?s0 io1")
    from discardConn_accounts [OF d, of 0] inv c1 d rec Some show ?thesis
      by (auto simp: send_retry_def send_post_def queue_counts_def sender_inv_tel)
  next
    case None
    obtain r io2 where p: "put env (s_cfg ?s1) conn' destination (Some creator) io1 = (r, io2)"
      by (cases "put env (s_cfg ?s1) conn' destination (Some creator) io1")
    obtain s2 io3 where d: "discardConn env conn' ?s1 io2 = (s2, io3)"
      by (cases "discardConn env conn' ?s1 io2")
    note counts = put_queue_counts [OF p] c1 discardConn_accounts [OF d, of 0]
    consider (panic) v where "r = Panics v" | (err) y where "r = Returns (Inl y)"
      | (ok) msgID where "r = Returns (Inr msgID)" by (metis outcome.exhaust sum.exhaust)
    then show ?thesis
    proof cases
      case panic
      with rec None p counts inv show ?thesis
        by (auto simp: send_retry_def send_post_def queue_counts_def)
    next
      case err
      with rec None p d counts inv show ?thesis
        by (auto simp: send_retry_def send_post_def queue_counts_def sender_inv_tel)
    next
      case ok
      have "\<exists>x. send_finish env spanCtx sp start conn' (Inr msgID) ?s1 io2 = Some x \<and> send_post 1 sp ?s1 io x"
        using ok counts inv by (intro send_finish_post) (simp_all add: queue_counts_def)
      with ok rec None p show ?thesis by (auto simp: send_retry_def)
    qed
  qed
qed

lemma send_on_post:
  assumes inv: "sender_inv 1 s"
  shows "\<exists>x. send_on env ctx spanCtx sp start conn destination creator s io = Some x \<and>
    send_post 2 sp s io x"
proof -
  obtain r io1 where p: "put env (s_cfg s) conn destination (Some creator) io = (r, io1)"
    by (cases "put env (s_cfg s) conn destination (Some creator) io")
  note counts = put_queue_counts [OF p]
  consider (panic) v where "r = Panics v" | (error) e where "r = Returns (Inl e)"
    | (ok) m where "r = Returns (Inr m)" by (metis outcome.exhaust sum.exhaust)
  then show ?thesis
  proof cases
    case panic
    with p counts inv show ?thesis by (auto simp: send_on_def send_post_def)
  next
    case (error e)
    show ?thesis
    proof (cases "IsConnectionError (Some e)")
      case True
      from send_retry_post [OF inv, of env ctx spanCtx sp start conn destination creator e io1]
      obtain x where "send_retry env ctx spanCtx sp start conn destination creator e s io1 = Some x"
        "send_post 1 sp s io1 x" by blast
      moreover from this(2) counts error have "send_post 2 sp s io x"
        by (auto simp: send_post_def split: prod.splits)
      ultimately show ?thesis using p error True by (simp add: send_on_def)
    next
      case False
      with p error counts send_finish_post [OF inv, of io1 io 2 "Inl e"] show ?thesis
        by (simp add: send_on_def)
    qed
  next
    case (ok m)
    with p counts send_finish_post [OF inv, of io1 io 2 "Inr m"] show ?thesis
      by (simp add: send_on_def)
  qed
qed

lemma wg_done_simps:
  "wg_done (r, s, io) = (r, s\<lparr>s_wg := s_wg s - 1\<rparr>, io)"
  by (simp add: wg_done_def)

lemma sender_inv_wg [simp]: "sender_inv k (s\<lparr>s_wg := n\<rparr>) = sender_inv k s"
  by (simp add: sender_inv_def)

text \<open>A send that is neither refused nor without a destination: it counts itself in flight, opens its
  span, takes a connection and puts on it; \<open>send_acquired\<close> is what follows the acquisition.\<close>

abbreviation send_acquired where
  "send_acquired env ctx spanCtx sp start dest wrapped \<equiv> (\<lambda>(r, s, io).
     case r of
       Inl err \<Rightarrow> Some (Returns (Inl err), on_tel (endSpan sp (Some err) \<circ> incError ctx ''connection_failed'') s, io)
     | Inr conn \<Rightarrow> send_on env ctx spanCtx sp start conn dest wrapped s io)"

lemma SendWithCreator_admitted:
  assumes dest: "dest = (if destination = [] then s_queue s else destination)" "dest \<noteq> []" "\<not> s_closed s"
    and span: "startProducerSpan (otel_api env) ctx dest (s_tel s) = (spanCtx, sp, tel1)"
    and now: "time_Now env io = (start, io1)"
    and acq: "acquireConn env ctx (s\<lparr>s_wg := s_wg s + 1, s_tel := tel1\<rparr>) io1 = Some a"
  shows "SendWithCreator env ctx destination creator s io = map_option wg_done
    (send_acquired env ctx spanCtx sp start dest (wrappedCreator (otel_api env) tel1 spanCtx creator) a)"
  using dest(2,3) span now acq
  by (simp add: SendWithCreator_def Let_def flip: dest(1) split: sum.splits prod.splits)

lemma send_acquired_post:
  assumes "sender_inv (case r of Inl _ \<Rightarrow> 0 | Inr _ \<Rightarrow> 1) s"
  shows "\<exists>x. send_acquired env ctx spanCtx sp start dest wrapped (r, s, io) = Some x \<and> send_post 2 sp s io x"
proof (cases r)
  case (Inl err)
  with assms show ?thesis by (simp add: send_post_def sender_inv_tel)
next
  case (Inr conn)
  with assms send_on_post show ?thesis by simp
qed

lemma SendWithCreator_progress:
  assumes "sender_inv 0 s"
  shows "\<exists>r s' io'. SendWithCreator env ctx destination creator s io = Some (r, s', io') \<and>
    same_setup s s' \<and> puts io' \<le> puts io + 2 \<and>
    good_puts io' = good_puts io + (if \<exists>msgID. r = Returns (Inr msgID) then 1 else 0) \<and>
    open_handles (trace io') = open_handles (trace io) \<and>
    (case r of
       Returns _ \<Rightarrow> sender_inv 0 s' \<and> open_spans (s_tel s') = open_spans (s_tel s)
     | Panics _ \<Rightarrow> sender_inv 1 s')"
proof -
  define dest where "dest = (if destination = [] then s_queue s else destination)"
  show ?thesis
  proof (cases "dest = [] \<or> s_closed s")
    case True
    then have "\<exists>e. SendWithCreator env ctx destination creator s io = Some (Returns (Inl e), s, io)"
      by (auto simp: SendWithCreator_def dest_def Let_def)
    then show ?thesis using assms by auto
  next
    case False
    obtain spanCtx sp tel1 where span: "startProducerSpan (otel_api env) ctx dest (s_tel s) = (spanCtx, sp, tel1)"
      by (cases "startProducerSpan (otel_api env) ctx dest (s_tel s)")
    let ?s1 = "s\<lparr>s_wg := s_wg s + 1, s_tel := tel1\<rparr>"
    note sp = startSpan_spec(1) [OF span]
    obtain start io1 where now: "time_Now env io = (start, io1)" by (cases "time_Now env io")
    have "sender_inv 0 ?s1" using assms sp by (simp add: sender_inv_def)
    from acquireConn_progress [OF this, of env ctx io1] obtain r s2 io2 where
      acq: "acquireConn env ctx ?s1 io1 = Some (r, s2, io2)"
        "sender_inv (case r of Inl _ \<Rightarrow> 0 | Inr _ \<Rightarrow> 1) s2" "same_setup ?s1 s2"
        "open_spans (s_tel s2) = open_spans tel1" "queue_counts io2 = queue_counts io1" by auto
    from send_acquired_post [OF acq(2)] obtain res s' io' where
      x: "send_acquired env ctx spanCtx sp start dest
           (wrappedCreator (otel_api env) tel1 spanCtx creator) (r, s2, io2) = Some (res, s', io')"
        "send_post 2 sp s2 io2 (res, s', io')" by fastforce
    from x(2) acq(3) have "same_setup s (s'\<lparr>s_wg := s_wg s' - 1\<rparr>)"
      by (auto simp: send_post_def same_setup_def)
    moreover have "SendWithCreator env ctx destination creator s io = Some (wg_done (res, s', io'))"
      using SendWithCreator_admitted [OF dest_def _ _ span now acq(1)] False x(1) by simp
    ultimately show ?thesis using x(2) acq(4,5) link_queue_counts(2) [OF now] sp
      by (cases res) (simp_all add: wg_done_simps send_post_def queue_counts_def)
  qed
qed

subsection \<open>What a send puts\<close>

text \<open>
  The queue-level events of a send: opens of its destination, puts of messages its
  creator made, and closes.
\<close>

definition send_events ::
  "'w env \<Rightarrow> Config \<Rightarrow> string \<Rightarrow> 'w MessageCreator option \<Rightarrow> 'w io \<Rightarrow> 'w io \<Rightarrow> bool" where
  "send_events env cfg dest creator io io' \<longleftrightarrow>
     (\<exists>seg. queue_trace io' = queue_trace io @ seg \<and>
        (\<forall>e \<in> set seg. (\<exists>h oo x. e = EOpen h dest oo x) \<or> (\<exists>q. e = EClose q) \<or>
           (\<exists>q msg r. e = put_event env cfg q msg r \<and> creator_gives creator (Returns (None, msg)))))"

lemma send_events_refl: "queue_trace io' = queue_trace io \<Longrightarrow> send_events env cfg dest creator io io'"
  by (simp add: send_events_def)

lemma send_events_trans:
  assumes "send_events env cfg dest creator io io1" and "send_events env cfg dest creator io1 io2"
  shows "send_events env cfg dest creator io io2"
proof -
  let ?ok = "\<lambda>e. (\<exists>h oo x. e = EOpen h dest oo x) \<or> (\<exists>q. e = EClose q) \<or>
    (\<exists>q msg r. e = put_event env cfg q msg r \<and> creator_gives creator (Returns (None, msg)))"
  from assms obtain a b where "queue_trace io2 = queue_trace io @ (a @ b)" "\<forall>e \<in> set (a @ b). ?ok e"
    unfolding send_events_def by (metis (no_types, lifting) Un_iff append.assoc set_append)
  then show ?thesis unfolding send_events_def by blast
qed

lemma put_event_link: "\<not> is_link (put_event env cfg q msg r)"
  by (simp add: put_event_def)

lemma send_events_put:
  assumes "queue_trace io' = queue_trace io @ [EOpen h dest oo x, put_event env cfg q msg r, EClose q]"
    and "creator_gives creator (Returns (None, msg))"
  shows "send_events env cfg dest creator io io'"
proof -
  from assms(2) have "\<exists>q' msg' r'. put_event env cfg q msg r = put_event env cfg q' msg' r' \<and>
      creator_gives creator (Returns (None, msg'))" by blast
  with assms(1) show ?thesis
    unfolding send_events_def
    by (intro exI [of _ "[EOpen h dest oo x, put_event env cfg q msg r, EClose q]"]) simp
qed

lemma put_events:
  assumes "put env cfg conn dest creator io = (r, io')"
  shows "send_events env cfg dest creator io io'"
  using assms
proof (cases rule: put_cases)
  case (not_opened err)
  then show ?thesis by (auto simp: send_events_def queue_trace_def put_open_event_def)
next
  case (opened q io1 io2)
  note ev = send_events_def queue_trace_def put_open_event_def put_event_link
  from opened(1) show ?thesis
  proof (cases rule: put_open_cases)
    case (failed msg io3 err)
    with opened have "queue_trace io' = queue_trace io @
        [put_open_event env conn dest (Inr q), put_event env cfg q msg (Some err), EClose q]" by (simp add: ev)
    with creator_givesI [OF failed(1)] show ?thesis
      by (simp add: put_open_event_def send_events_put)
  next
    case (completed msg io3 md)
    with opened have "queue_trace io' = queue_trace io @
        [put_open_event env conn dest (Inr q), put_event env cfg q msg None, EClose q]" by (simp add: ev)
    with creator_givesI [OF completed(1)] show ?thesis
      by (simp add: put_open_event_def send_events_put)
  qed (use opened in \<open>auto simp: ev\<close>)
qed

text \<open>A send only panics if its creator does.\<close>

lemma put_panics:
  assumes "put env cfg conn dest creator io = (Panics v, io')"
  shows "creator_gives creator (Panics v)"
  using assms
proof (cases rule: put_cases)
  case (opened q io1 io2)
  from opened(1) show ?thesis by (cases rule: put_open_cases) (auto intro: creator_givesI)
qed simp

lemma send_finish_returns: "send_finish env spanCtx sp start conn x s io = Some (r, s', io') \<Longrightarrow> r = Returns x"
  by (auto simp: send_finish_def Let_def split: prod.splits)

lemma send_on_panics:
  assumes "send_on env ctx spanCtx sp start conn dest (wrappedCreator ot tel spanCtx' creator) s io = Some (Panics v, s', io')"
  shows "creator_gives creator (Panics v)"
  using assms
  by (auto simp: send_on_def send_retry_def Let_def put_wrapped split: outcome.splits sum.splits if_splits option.splits
      prod.splits intro: put_panics dest: send_finish_returns)

lemma SendWithCreator_panics:
  assumes "SendWithCreator env ctx destination creator s io = Some (Panics v, s', io')"
  shows "creator_gives creator (Panics v)"
  using assms
  by (auto simp: SendWithCreator_def Let_def wg_done_def split: if_splits prod.splits option.splits sum.splits
      intro: send_on_panics)

lemma discardConn_events: "discardConn env conn s io = (s', io') \<Longrightarrow> queue_trace io' = queue_trace io"
  by (auto simp: discardConn_def split: prod.splits dest: conn_Close_queue_trace)

lemma acquireConn_events:
  assumes "acquireConn env ctx s io = Some (r, s', io')"
  shows "queue_trace io' = queue_trace io" and "s_cfg s' = s_cfg s"
  using assms
  by (auto simp: acquireConn_def Let_def s_setState_def on_tel_def split: prod.splits option.splits sum.splits if_splits
      dest!: ctx_Err_queue_trace newConnectionWithRetry_queue_trace)

lemma send_finish_events:
  "send_finish env spanCtx sp start conn x s io = Some (r, s', io') \<Longrightarrow> queue_trace io' = queue_trace io"
  by (auto simp: send_finish_def Let_def split: prod.splits dest: time_Now_queue_trace)

lemma send_retry_events:
  assumes "send_retry env ctx spanCtx sp start conn dest (wrappedCreator ot tel spanCtx' creator) putErr s io =
    Some (r, s', io')"
  shows "send_events env (s_cfg s) dest creator io io'"
proof -
  let ?s1 = "s_setState StateConnected None (s_setState StateReconnecting (Some putErr) s)"
  obtain e conn' io1 where rec: "Reconnect env ctx conn io = (e, conn', io1)" by (cases "Reconnect env ctx conn io")
  note 1 = send_events_refl [OF Reconnect_queue_trace [OF rec], of env "s_cfg s" dest creator]
  obtain x io2 where p: "put env (s_cfg s) conn' dest creator io1 = (x, io2)"
    by (cases "put env (s_cfg s) conn' dest creator io1")
  note 2 = send_events_trans [OF 1 put_events [OF p]]
  have "s_cfg ?s1 = s_cfg s" by (simp add: s_setState_def)
  with assms rec p have "e \<noteq> None \<and> queue_trace io' = queue_trace io1 \<or> queue_trace io' = queue_trace io2"
    by (auto simp: send_retry_def Let_def put_wrapped split: option.splits outcome.splits sum.splits prod.splits
        dest: discardConn_events send_finish_events)
  with 1 2 show ?thesis by (auto intro: send_events_trans send_events_refl)
qed

lemma send_on_events:
  assumes "send_on env ctx spanCtx sp start conn dest (wrappedCreator ot tel spanCtx' creator) s io = Some (r, s', io')"
  shows "send_events env (s_cfg s) dest creator io io'"
proof -
  obtain x io1 where p: "put env (s_cfg s) conn dest creator io = (x, io1)"
    by (cases "put env (s_cfg s) conn dest creator io")
  with assms have "send_events env (s_cfg s) dest creator io1 io'"
    by (auto simp: send_on_def put_wrapped split: outcome.splits sum.splits if_splits
        intro: send_retry_events send_events_refl send_finish_events)
  with put_events [OF p] show ?thesis by (rule send_events_trans)
qed

lemma SendWithCreator_events:
  assumes "SendWithCreator env ctx destination creator s io = Some (r, s', io')"
  shows "send_events env (s_cfg s) (if destination = [] then s_queue s else destination) creator io io'"
proof -
  define dest where "dest = (if destination = [] then s_queue s else destination)"
  have "send_events env (s_cfg s) dest creator io io'"
  proof (cases "dest = [] \<or> s_closed s")
    case True
    then have "\<exists>e. SendWithCreator env ctx destination creator s io = Some (Returns (Inl e), s, io)"
      by (auto simp: SendWithCreator_def dest_def Let_def)
    with assms show ?thesis by (auto intro: send_events_refl)
  next
    case False
    obtain spanCtx sp tel1 where span: "startProducerSpan (otel_api env) ctx dest (s_tel s) = (spanCtx, sp, tel1)"
      by (cases "startProducerSpan (otel_api env) ctx dest (s_tel s)")
    obtain start io1 where now: "time_Now env io = (start, io1)" by (cases "time_Now env io")
    let ?s1 = "s\<lparr>s_wg := s_wg s + 1, s_tel := tel1\<rparr>"
    obtain a s2 io2 where acq: "acquireConn env ctx ?s1 io1 = Some (a, s2, io2)"
      using assms False span now
      by (cases "acquireConn env ctx ?s1 io1") (auto simp: SendWithCreator_def Let_def simp flip: dest_def)
    note q = acquireConn_events [OF acq]
    from SendWithCreator_admitted [OF dest_def _ _ span now acq] False assms
    have "send_events env (s_cfg s2) dest creator io2 io'"
      by (auto simp: wg_done_def split: sum.splits prod.splits intro: send_events_refl send_on_events)
    moreover have "send_events env (s_cfg s) dest creator io io2"
      using q(1) time_Now_queue_trace [OF now] by (simp add: send_events_refl)
    ultimately show ?thesis using q(2) by (auto intro: send_events_trans)
  qed
  then show ?thesis by (simp add: dest_def)
qed


text \<open>
  C4: a send on a quiescent sender. When no connection is checked out and the pool's
  accounts balance, \<^verbatim>\<open>SendWithCreator\<close> always returns. Unless the creator panics, the
  accounts balance again afterwards (every connection is in the pool or was discarded
  and is no longer counted), the span of the call is ended, every queue handle is
  closed, and MQPUT was called at most twice, and with success exactly once if a message
  id is returned and never if an error is. The pool's limit, the closed flag and the
  number of calls in flight are as before.
\<close>

theorem send_accounts:
  assumes "sender_inv 0 s"
  shows "\<exists>r s' io'. SendWithCreator env ctx destination creator s io = Some (r, s', io') \<and>
    same_setup s s' \<and> puts io' \<le> puts io + 2 \<and>
    good_puts io' = good_puts io + (if \<exists>msgID. r = Returns (Inr msgID) then 1 else 0) \<and>
    open_handles (trace io') = open_handles (trace io) \<and>
    (case r of
       Returns _ \<Rightarrow> sender_inv 0 s' \<and> open_spans (s_tel s') = open_spans (s_tel s)
     | Panics _ \<Rightarrow> sender_inv 1 s')"
  using assms by (rule SendWithCreator_progress)

lemma new_sender_inv: "1 \<le> OutputConcurrency cfg \<Longrightarrow> sender_inv 0 (new_sender cfg q)"
  by (simp add: sender_inv_def new_sender_def)

lemma option_sender_inv:
  "sender_inv 0 s \<Longrightarrow> s_created s = 0 \<Longrightarrow> sender_inv 0 (WithSenderConcurrency n s)"
  by (auto simp: sender_inv_def WithSenderConcurrency_def)

definition demo_sender :: Sender where
  "demo_sender = new_sender (demo_config\<lparr>OutputConcurrency := 1\<rparr>) ''Q.OUT''"

lemma demo_sender_inv: "sender_inv 0 demo_sender"
  by (simp add: demo_sender_def new_sender_inv)

theorem send_accounts_witness:
  "\<exists>r s' io'. Send script_env 0 ''hello'' demo_sender (start_io quiet_script) = Some (r, s', io') \<and>
     puts io' \<le> 2 \<and> open_handles (trace io') = {#}"
proof -
  obtain r s' io' where
    "SendWithCreator script_env 0 [] (Some (payload_creator ''hello'')) demo_sender (start_io quiet_script)
       = Some (r, s', io')"
    "puts io' \<le> puts (start_io quiet_script) + 2"
    "open_handles (trace io') = open_handles (trace (start_io quiet_script))"
    using send_accounts [OF demo_sender_inv, of script_env 0 "[]" "Some (payload_creator ''hello'')"
        "start_io quiet_script"] by blast
  then show ?thesis by (simp add: Send_def start_io_def puts_def open_handles_def)
qed

subsection \<open>Closing a sender\<close>

lemma conn_Close_trace:
  "conn_Close env c io = (r, c', io') \<Longrightarrow> trace io' = trace io @ [EDisc (queueManager c)]"
  by (auto simp: conn_Close_def Let_def mq_Disc_def conn_setState_def split: prod.splits option.splits)

lemma drain_pool_all:
  assumes "drain_pool env n pool io errs = (errs', pool', io')" and "length (chan_buf pool) \<le> n"
  shows "chan_buf pool' = [] \<and>
    trace io' = trace io @ map (\<lambda>c. EDisc (queueManager c)) (chan_buf pool)"
  using assms
proof (induction n arbitrary: pool io errs)
  case 0
  then show ?case by simp
next
  case (Suc n)
  show ?case
  proof (cases "try_recv pool")
    case None
    with Suc.prems Suc.IH [of pool io errs] chan.recv_None [of pool] show ?thesis by simp
  next
    case (Some p)
    then obtain conn rest where p: "try_recv pool = Some (conn, rest)" by (cases p) simp
    obtain e c io1 where cl: "conn_Close env conn io = (e, c, io1)" by (cases "conn_Close env conn io")
    from chan.recv_Some [OF p] Suc.prems(2) have "length (chan_buf rest) \<le> n" by simp
    with Suc.prems(1) p cl Suc.IH [of rest io1] chan.recv_Some [OF p] conn_Close_trace [OF cl] show ?thesis
      by (cases e) auto
  qed
qed

text \<open>
  C32: closing. On a quiescent open sender \<^verbatim>\<open>close\<close> returns, disconnects every pooled
  connection exactly once, in pool order, and makes no other call; the sender is then
  closed, its pool is empty, a second \<^verbatim>\<open>close\<close> does nothing and every later send to a
  resolvable destination returns \<^verbatim>\<open>ErrClientClosed\<close> without any call to MQ. The gauge
  \<^verbatim>\<open>messaging.connection.active\<close> is not decremented: it still counts every one of the
  connections that \<^verbatim>\<open>close\<close> has just disconnected.
\<close>

theorem sender_close_releases:
  assumes "sender_inv 0 s" and "s_wg s = 0" and "\<not> s_closed s"
    and "s_queue s \<noteq> [] \<or> destination \<noteq> []"
  shows "\<exists>r s' io'. Sender_close env s io = Some (r, s', io') \<and>
    trace io' = trace io @ map (\<lambda>c. EDisc (queueManager c)) (chan_buf (s_pool s)) \<and>
    s_closed s' \<and> s_state s' = StateStopped \<and> s_lastErr s' = None \<and> chan_buf (s_pool s') = [] \<and>
    activeConns (s_tel s') = word_of_int (int (length (chan_buf (s_pool s)))) \<and>
    (\<forall>io. Sender_close env s' io = Some (None, s', io)) \<and>
    (\<forall>ctx creator io. SendWithCreator env ctx destination creator s' io =
       Some (Returns (Inl (Sentinel ErrClientClosed)), s', io))"
proof -
  obtain errs pool io' where d: "drain_pool env (nat (s_created s)) (s_pool s) io [] = (errs, pool, io')"
    by (cases "drain_pool env (nat (s_created s)) (s_pool s) io []")
  let ?s' = "s\<lparr>s_closed := True, s_state := StateStopped, s_lastErr := None, s_pool := pool\<rparr>"
  have "length (chan_buf (s_pool s)) \<le> nat (s_created s)" using assms(1) by (simp add: sender_inv_def)
  from drain_pool_all [OF d this] have io': "chan_buf pool = []"
    "trace io' = trace io @ map (\<lambda>c. EDisc (queueManager c)) (chan_buf (s_pool s))" by blast+
  have "Sender_close env s io = Some (errors_join errs, ?s', io')"
    using assms d by (simp add: Sender_close_def Let_def)
  moreover have "Sender_close env ?s' io = Some (None, ?s', io)" for io
    by (simp add: Sender_close_def)
  moreover have "SendWithCreator env ctx destination creator ?s' io =
      Some (Returns (Inl (Sentinel ErrClientClosed)), ?s', io)" for ctx creator io
    using assms(4) by (auto simp: SendWithCreator_def)
  moreover have "activeConns (s_tel ?s') = word_of_int (int (length (chan_buf (s_pool s))))"
    using assms(1) by (simp add: sender_inv_def)
  ultimately show ?thesis using io'
    by (intro exI [of _ "errors_join errs"] exI [of _ ?s'] exI [of _ io']) simp
qed

definition pooled_sender :: Sender where
  "pooled_sender =
     demo_sender\<lparr>s_pool := \<lparr>chan_cap = 1, chan_buf = [fresh_connection demo_config]\<rparr>,
       s_created := 1, s_tel := incConnActive (s_tel demo_sender)\<rparr>"

theorem sender_close_releases_witness:
  "\<exists>r s' io'. Sender_close script_env pooled_sender (start_io quiet_script) = Some (r, s', io') \<and>
     s_closed s' \<and> trace io' = [EDisc 0] \<and> activeConns (s_tel s') = 1"
proof -
  have "sender_inv 0 pooled_sender" "s_wg pooled_sender = 0" "\<not> s_closed pooled_sender" "s_queue pooled_sender \<noteq> []"
    "chan_buf (s_pool pooled_sender) = [fresh_connection demo_config]"
    by (simp_all add: pooled_sender_def sender_inv_def demo_sender_def new_sender_def)
  with sender_close_releases [of pooled_sender "[]" script_env "start_io quiet_script"]
  show ?thesis by (auto simp: start_io_def fresh_connection_def)
qed

text \<open>
  C31: a creator that panics costs the pool a connection. On a quiescent sender with room for
  one connection, after a \<^verbatim>\<open>SendWithCreator\<close> whose creator panicked (and the caller
  recovered), every later send whose context is never done blocks for ever: the
  connection is neither returned nor discarded.
\<close>

theorem panicking_creator_wedges_sender:
  assumes "sender_inv 0 s" and "s_maxConns s = 1" and "\<not> s_closed s"
    and panic: "SendWithCreator env ctx destination creator s io = Some (Panics v, s', io')"
    and live: "\<And>w. fst (ctxErr env ctx' w) = None" "\<And>w. awaitDone env ctx' w = None"
    and dest: "destination' \<noteq> []"
  shows "SendWithCreator env ctx' destination' creator' s' io'' = None"
proof -
  from SendWithCreator_progress [OF assms(1), of env ctx destination creator io] panic
  have s': "sender_inv 1 s'" "same_setup s s'" by auto
  then have full: "\<not> s_closed s'" "s_created s' = 1" "s_maxConns s' = 1" "chan_buf (s_pool s') = []"
    using assms(2,3) by (auto simp: sender_inv_def same_setup_def)
  then have "try_recv (s_pool s') = None" using chan.recv_None [of "s_pool s'"] by simp
  moreover have "fst (ctx_Err env ctx' io1) = None" for io1
    using live(1) [of "world io1"] by (auto simp: ctx_Err_def split: prod.splits)
  ultimately have "acquireConn env ctx' (s'\<lparr>s_wg := k, s_tel := t\<rparr>) io1 = None" for k t io1
    using full live(2) by (auto simp: acquireConn_def split: prod.splits option.splits dest: fstI)
  then show ?thesis using full dest
    by (simp add: SendWithCreator_def Let_def split: prod.splits)
qed

text \<open>The scripted world with contexts that are never done, and a first send whose creator panics.\<close>

definition background_env :: "script env" where
  "background_env = script_env\<lparr>ctxErr := (\<lambda>ctx w. (None, w)), timerOrDone := (\<lambda>ctx d w. (None, w))\<rparr>"

definition panic_creator :: "'w MessageCreator" where
  "panic_creator msg w = (Panics ''boom'', w)"

lemma background_Connx: "Connx background_env name cno quiet_script = (Inr 1, quiet_script)"
  by (simp add: background_env_def script_env_def quiet_script_def)

lemma background_ctx: "ctx_Err background_env ctx io = (None, io)"
  by (simp add: ctx_Err_def background_env_def)

lemma background_await: "awaitDone background_env ctx w = None"
  by (simp add: background_env_def script_env_def)

lemma background_connect:
  assumes "retry_attempts cfg = 1" and "world io = quiet_script"
  shows "\<exists>io'. newConnectionWithRetry background_env ctx cfg io =
     (Inr \<lparr>queueManager = 1, config = cfg, conn_state = StateConnected, lastError = None\<rparr>, io') \<and>
     world io' = quiet_script"
proof -
  have "\<exists>io'. dial background_env (fresh_connection cfg) io =
      (None, \<lparr>queueManager = 1, config = cfg, conn_state = StateConnected, lastError = None\<rparr>, io') \<and>
      world io' = quiet_script"
    using assms(2) by (simp add: dial_def mq_Connx_def background_Connx fresh_connection_def
        conn_setState_def setLastError_def Let_def)
  with assms(1) show ?thesis by (auto simp: newConnectionWithRetry_def background_ctx Let_def)
qed

lemma panic_put:
  assumes "world io = quiet_script"
  shows "\<exists>io'. put background_env cfg conn q (Some (wrappedCreator ot tel sc (Some panic_creator))) io =
    (Panics ''boom'', io')"
  using assms
  by (simp add: put_def put_open_def run_creator_def wrappedCreator_def panic_creator_def mq_Open_def
      background_env_def script_env_def quiet_script_def)

lemma panic_send:
  "\<exists>s' io'. SendWithCreator background_env 0 ''Q'' (Some panic_creator) demo_sender (start_io quiet_script) =
     Some (Panics ''boom'', s', io')"
proof -
  have a: "retry_attempts (s_cfg demo_sender) = 1"
    by (simp add: demo_sender_def new_sender_def retry_attempts_def demo_config_def)
  obtain start io1 where now: "time_Now background_env (start_io quiet_script) = (start, io1)" "world io1 = quiet_script"
    by (simp add: time_Now_def background_env_def script_env_def start_io_def)
  from background_connect [OF a now(2), of 0] obtain io2 conn where
    conn: "newConnectionWithRetry background_env 0 (s_cfg demo_sender) io1 = (Inr conn, io2)"
      "world io2 = quiet_script" by blast
  obtain sc sp tel1 where span: "startProducerSpan (otel_api background_env) 0 ''Q'' (s_tel demo_sender) = (sc, sp, tel1)"
    by (cases "startProducerSpan (otel_api background_env) 0 ''Q'' (s_tel demo_sender)")
  let ?s1 = "demo_sender\<lparr>s_wg := Suc (s_wg demo_sender), s_tel := tel1\<rparr>"
  have "try_recv (s_pool demo_sender) = None" "s_created demo_sender < s_maxConns demo_sender"
    and open_sender: "\<not> s_closed demo_sender"
    by (simp_all add: demo_sender_def new_sender_def try_recv_def)
  with conn(1) obtain s2 where acq: "acquireConn background_env 0 ?s1 io1 = Some (Inr conn, s2, io2)"
    by (simp add: acquireConn_def background_ctx)
  from panic_put [OF conn(2)] obtain io3 where "put background_env (s_cfg s2) conn ''Q''
      (Some (wrappedCreator (otel_api background_env) tel1 sc (Some panic_creator))) io2 = (Panics ''boom'', io3)"
    by blast
  then have "send_on background_env 0 sc sp start conn ''Q''
      (wrappedCreator (otel_api background_env) tel1 sc (Some panic_creator)) s2 io2 = Some (Panics ''boom'', s2, io3)"
    by (simp add: send_on_def)
  then show ?thesis
    using open_sender by (simp add: SendWithCreator_def Let_def span now(1) acq wg_done_simps)
qed

theorem panicking_creator_wedges_sender_witness:
  "\<exists>s'. SendWithCreator background_env 0 ''Q'' (Some (payload_creator ''hi'')) s' (start_io quiet_script) = None"
proof -
  obtain s' io' where p: "SendWithCreator background_env 0 ''Q'' (Some panic_creator) demo_sender
      (start_io quiet_script) = Some (Panics ''boom'', s', io')"
    using panic_send by blast
  have "s_maxConns demo_sender = 1" "\<not> s_closed demo_sender"
    by (simp_all add: demo_sender_def new_sender_def)
  moreover have "\<And>w. fst (ctxErr background_env 0 w) = None" by (simp add: background_env_def)
  ultimately have "SendWithCreator background_env 0 ''Q'' (Some (payload_creator ''hi'')) s'
      (start_io quiet_script) = None"
    by (intro panicking_creator_wedges_sender [OF demo_sender_inv _ _ p]) (simp_all add: background_await)
  then show ?thesis by blast
qed

end
