(* ===== verification/Sender_Pool.thy ===== *)
theory Sender_Pool
  imports Go_Channel "HOL-Library.Multiset"
begin

text \<open>
  The sender's connection pool under concurrency (\<^verbatim>\<open>src/mq/sender.go\<close> and the health probe
  of \<^verbatim>\<open>src/mq/health.go\<close>). Any number of goroutines run \<^verbatim>\<open>SendWithCreator\<close>, one runs
  \<^verbatim>\<open>close\<close> and one \<^verbatim>\<open>Health\<close>; their atomic sections (a critical section of \<^verbatim>\<open>s.mu\<close>, a
  channel operation, a dial, closing a connection) interleave in any order. A label names
  who moves and what its environment answers. Connections are numbered in the order they
  are dialled; what a send puts on its connection is the subject of \<open>MQ_Sender\<close>.
\<close>

text \<open>
  The program counter of a send. \<open>Trying\<close>: before the non-blocking receive; \<open>Checking\<close>:
  before the comparison of \<^verbatim>\<open>created\<close> and \<^verbatim>\<open>maxConns\<close>; \<open>Waiting\<close>: in the last
  \<^verbatim>\<open>select\<close> of \<^verbatim>\<open>acquireConn\<close>; \<open>Dropping\<close>: it closed its connection and has not
  decremented \<^verbatim>\<open>created\<close> yet; \<open>Leaving\<close>: before the deferred \<^verbatim>\<open>wg.Done\<close>; \<open>Refused\<close>: it
  returned \<^verbatim>\<open>ErrClientClosed\<close>.
\<close>

datatype send_pc =
    Idle
  | Entered
  | Trying
  | Checking
  | Dialing
  | Waiting
  | Holding nat
  | Dropping
  | Leaving
  | Refused
  | Finished

text \<open>\<open>CWait n\<close> and the later states carry the value of \<^verbatim>\<open>created\<close> that \<^verbatim>\<open>close\<close> read.\<close>

datatype close_pc = CIdle | CWait nat | CDrain nat nat | CDone nat

record pool_sys =
  p_pool :: "nat chan"
  p_created :: int
  p_max :: int
  p_closed :: bool
  p_wg :: nat
  p_sends :: "send_pc list"
  p_closer :: close_pc
  p_health :: "nat option"
  p_next :: nat
  p_lost :: "nat list"
  p_dead :: "nat list"
  p_drained :: nat

datatype pool_label =
    Enter nat
  | Poll nat
  | Cancel nat
  | Recv nat
  | Check nat
  | DialOk nat
  | DialFail nat
  | WaitRecv nat
  | Release nat
  | Drop nat
  | Forget nat
  | CreatorPanic nat
  | Leave nat
  | CloseBegin
  | CloseLock
  | CloseDrain
  | HealthTake
  | HealthReturn

definition goto :: "nat \<Rightarrow> send_pc \<Rightarrow> pool_sys \<Rightarrow> pool_sys" where
  "goto i pc s = s\<lparr>p_sends := (p_sends s)[i := pc]\<rparr>"

definition at_pc :: "nat \<Rightarrow> send_pc \<Rightarrow> pool_sys \<Rightarrow> bool" where
  "at_pc i pc s \<longleftrightarrow> i < length (p_sends s) \<and> p_sends s ! i = pc"

definition holds :: "nat \<Rightarrow> pool_sys \<Rightarrow> nat option" where
  "holds i s =
     (if i < length (p_sends s)
      then (case p_sends s ! i of Holding c \<Rightarrow> Some c | _ \<Rightarrow> None) else None)"

fun pool_step :: "pool_label \<Rightarrow> pool_sys \<Rightarrow> pool_sys option" where
  "pool_step (Enter i) s =
     (if at_pc i Idle s
      then Some (if p_closed s then goto i Refused s else goto i Entered (s\<lparr>p_wg := p_wg s + 1\<rparr>))
      else None)"
| "pool_step (Poll i) s = (if at_pc i Entered s then Some (goto i Trying s) else None)"
| "pool_step (Cancel i) s =
     (if at_pc i Entered s \<or> at_pc i Waiting s then Some (goto i Leaving s) else None)"
| "pool_step (Recv i) s =
     (if at_pc i Trying s
      then (case try_recv (p_pool s) of
              None \<Rightarrow> Some (goto i Checking s)
            | Some (c, pool) \<Rightarrow> Some (goto i (Holding c) (s\<lparr>p_pool := pool\<rparr>)))
      else None)"
| "pool_step (Check i) s =
     (if at_pc i Checking s
      then Some (if p_created s < p_max s
                 then goto i Dialing (s\<lparr>p_created := p_created s + 1\<rparr>)
                 else goto i Waiting s)
      else None)"
| "pool_step (DialOk i) s =
     (if at_pc i Dialing s
      then Some (goto i (Holding (p_next s)) (s\<lparr>p_next := p_next s + 1\<rparr>)) else None)"
| "pool_step (DialFail i) s =
     (if at_pc i Dialing s
      then Some (goto i Leaving (s\<lparr>p_created := p_created s - 1\<rparr>)) else None)"
| "pool_step (WaitRecv i) s =
     (if at_pc i Waiting s
      then (case try_recv (p_pool s) of
              None \<Rightarrow> None
            | Some (c, pool) \<Rightarrow> Some (goto i (Holding c) (s\<lparr>p_pool := pool\<rparr>)))
      else None)"
| "pool_step (Release i) s =
     (case holds i s of
        None \<Rightarrow> None
      | Some c \<Rightarrow>
          (case try_send c (p_pool s) of
             None \<Rightarrow> None
           | Some pool \<Rightarrow> Some (goto i Leaving (s\<lparr>p_pool := pool\<rparr>))))"
| "pool_step (Drop i) s =
     (case holds i s of
        None \<Rightarrow> None
      | Some c \<Rightarrow> Some (goto i Dropping (s\<lparr>p_dead := c # p_dead s\<rparr>)))"
| "pool_step (Forget i) s =
     (if at_pc i Dropping s
      then Some (goto i Leaving (s\<lparr>p_created := p_created s - 1\<rparr>)) else None)"
| "pool_step (CreatorPanic i) s =
     (case holds i s of
        None \<Rightarrow> None
      | Some c \<Rightarrow> Some (goto i Leaving (s\<lparr>p_lost := c # p_lost s\<rparr>)))"
| "pool_step (Leave i) s =
     (if at_pc i Leaving s then Some (goto i Finished (s\<lparr>p_wg := p_wg s - 1\<rparr>)) else None)"
| "pool_step CloseBegin s =
     (if p_closer s = CIdle
      then Some (s\<lparr>p_closed := True, p_closer := CWait (nat (p_created s))\<rparr>) else None)"
| "pool_step CloseLock s =
     (case p_closer s of
        CWait n \<Rightarrow>
          (if p_wg s = 0 \<and> p_health s = None then Some (s\<lparr>p_closer := CDrain n n\<rparr>) else None)
      | _ \<Rightarrow> None)"
| "pool_step CloseDrain s =
     (case p_closer s of
        CDrain n 0 \<Rightarrow> Some (s\<lparr>p_closer := CDone n\<rparr>)
      | CDrain n (Suc k) \<Rightarrow>
          (case try_recv (p_pool s) of
             None \<Rightarrow> Some (s\<lparr>p_closer := CDrain n k\<rparr>)
           | Some (c, pool) \<Rightarrow>
               Some (s\<lparr>p_pool := pool, p_closer := CDrain n k, p_dead := c # p_dead s,
                       p_drained := p_drained s + 1\<rparr>))
      | _ \<Rightarrow> None)"
| "pool_step HealthTake s =
     (case p_health s of
        Some _ \<Rightarrow> None
      | None \<Rightarrow>
          (case p_closer s of
             CDrain _ _ \<Rightarrow> None
           | _ \<Rightarrow>
               (case try_recv (p_pool s) of
                  None \<Rightarrow> None
                | Some (c, pool) \<Rightarrow> Some (s\<lparr>p_pool := pool, p_health := Some c\<rparr>))))"
| "pool_step HealthReturn s =
     (case p_health s of
        None \<Rightarrow> None
      | Some c \<Rightarrow>
          (case try_send c (p_pool s) of
             None \<Rightarrow> None
           | Some pool \<Rightarrow> Some (s\<lparr>p_pool := pool, p_health := None\<rparr>)))"

definition pool_start :: "nat \<Rightarrow> nat \<Rightarrow> pool_sys" where
  "pool_start maxConns goroutines =
     \<lparr>p_pool = make_chan maxConns, p_created = 0, p_max = int maxConns, p_closed = False, p_wg = 0,
      p_sends = replicate goroutines Idle, p_closer = CIdle, p_health = None, p_next = 0,
      p_lost = [], p_dead = [], p_drained = 0\<rparr>"

definition pool_init :: "pool_sys \<Rightarrow> bool" where
  "pool_init s \<longleftrightarrow> (\<exists>m g. s = pool_start m g)"

subsection \<open>The invariant\<close>

fun pc_conn :: "send_pc \<Rightarrow> nat multiset" where
  "pc_conn (Holding c) = {#c#}"
| "pc_conn _ = {#}"

fun pc_work :: "send_pc \<Rightarrow> nat" where
  "pc_work Dialing = 1"
| "pc_work Dropping = 1"
| "pc_work _ = 0"

fun pc_flight :: "send_pc \<Rightarrow> nat" where
  "pc_flight Idle = 0"
| "pc_flight Refused = 0"
| "pc_flight Finished = 0"
| "pc_flight _ = 1"

text \<open>The connections somebody can still use: pooled, held, peeked at, or lost to a panic.\<close>

definition usable :: "pool_sys \<Rightarrow> nat multiset" where
  "usable s = mset (chan_buf (p_pool s)) + sum_list (map pc_conn (p_sends s)) +
     mset (p_lost s) + (case p_health s of None \<Rightarrow> {#} | Some c \<Rightarrow> {#c#})"

definition work :: "pool_sys \<Rightarrow> nat" where
  "work s = sum_list (map pc_work (p_sends s))"

definition in_flight :: "pool_sys \<Rightarrow> nat" where
  "in_flight s = sum_list (map pc_flight (p_sends s))"

definition accounts_ok :: "pool_sys \<Rightarrow> bool" where
  "accounts_ok s \<longleftrightarrow>
     int (chan_cap (p_pool s)) = p_max s \<and>
     p_created s = int (size (usable s) + work s + p_drained s) \<and> p_created s \<le> p_max s \<and>
     p_wg s = in_flight s"

text \<open>Every connection ever dialled is usable or closed, and counted once.\<close>

definition ids_ok :: "pool_sys \<Rightarrow> bool" where
  "ids_ok s \<longleftrightarrow> usable s + mset (p_dead s) = mset_set {..<p_next s}"

definition closer_ok :: "pool_sys \<Rightarrow> bool" where
  "closer_ok s \<longleftrightarrow>
     (case p_closer s of
        CIdle \<Rightarrow> \<not> p_closed s \<and> p_drained s = 0
      | CWait n \<Rightarrow> p_closed s \<and> p_drained s = 0
      | CDrain n k \<Rightarrow> p_closed s \<and> p_wg s = 0 \<and> p_health s = None \<and> k \<le> n \<and>
          (chan_buf (p_pool s) = [] \<or> p_drained s = n - k)
      | CDone n \<Rightarrow> p_closed s \<and> p_wg s = 0 \<and>
          (chan_buf (p_pool s) = [] \<and> p_health s = None \<or> p_drained s = n))"

definition pool_inv :: "pool_sys \<Rightarrow> bool" where
  "pool_inv s \<longleftrightarrow> accounts_ok s \<and> ids_ok s \<and> closer_ok s"

subsection \<open>What a move does to the accounts\<close>

lemma goto_simps [simp]:
  "p_pool (goto i pc s) = p_pool s" "p_created (goto i pc s) = p_created s"
  "p_max (goto i pc s) = p_max s" "p_closed (goto i pc s) = p_closed s" "p_wg (goto i pc s) = p_wg s"
  "p_closer (goto i pc s) = p_closer s" "p_health (goto i pc s) = p_health s"
  "p_next (goto i pc s) = p_next s" "p_lost (goto i pc s) = p_lost s" "p_dead (goto i pc s) = p_dead s"
  "p_drained (goto i pc s) = p_drained s"
  by (simp_all add: goto_def)

lemma at_pc_update [simp]:
  "at_pc i pc (s\<lparr>p_pool := a\<rparr>) = at_pc i pc s" "at_pc i pc (s\<lparr>p_created := b\<rparr>) = at_pc i pc s"
  "at_pc i pc (s\<lparr>p_wg := d\<rparr>) = at_pc i pc s" "at_pc i pc (s\<lparr>p_next := d\<rparr>) = at_pc i pc s"
  "at_pc i pc (s\<lparr>p_lost := e\<rparr>) = at_pc i pc s" "at_pc i pc (s\<lparr>p_dead := e\<rparr>) = at_pc i pc s"
  by (simp_all add: at_pc_def)

lemma usable_update [simp]:
  "usable (s\<lparr>p_created := b\<rparr>) = usable s" "usable (s\<lparr>p_wg := d\<rparr>) = usable s"
  "usable (s\<lparr>p_next := d\<rparr>) = usable s" "usable (s\<lparr>p_dead := e\<rparr>) = usable s"
  "usable (s\<lparr>p_closer := c\<rparr>) = usable s" "usable (s\<lparr>p_closed := x\<rparr>) = usable s"
  "usable (s\<lparr>p_drained := d\<rparr>) = usable s"
  "usable (s\<lparr>p_lost := k # p_lost s\<rparr>) = add_mset k (usable s)"
  by (simp_all add: usable_def)

lemma tally_update [simp]:
  "work (s\<lparr>p_pool := a\<rparr>) = work s" "work (s\<lparr>p_created := b\<rparr>) = work s"
  "work (s\<lparr>p_wg := d\<rparr>) = work s" "work (s\<lparr>p_next := d\<rparr>) = work s"
  "work (s\<lparr>p_lost := e\<rparr>) = work s" "work (s\<lparr>p_dead := e\<rparr>) = work s"
  "work (s\<lparr>p_closer := c\<rparr>) = work s" "work (s\<lparr>p_closed := x\<rparr>) = work s"
  "work (s\<lparr>p_drained := d\<rparr>) = work s" "work (s\<lparr>p_health := h\<rparr>) = work s"
  "in_flight (s\<lparr>p_pool := a\<rparr>) = in_flight s" "in_flight (s\<lparr>p_created := b\<rparr>) = in_flight s"
  "in_flight (s\<lparr>p_wg := d\<rparr>) = in_flight s" "in_flight (s\<lparr>p_next := d\<rparr>) = in_flight s"
  "in_flight (s\<lparr>p_lost := e\<rparr>) = in_flight s" "in_flight (s\<lparr>p_dead := e\<rparr>) = in_flight s"
  "in_flight (s\<lparr>p_closer := c\<rparr>) = in_flight s" "in_flight (s\<lparr>p_closed := x\<rparr>) = in_flight s"
  "in_flight (s\<lparr>p_drained := d\<rparr>) = in_flight s" "in_flight (s\<lparr>p_health := h\<rparr>) = in_flight s"
  by (simp_all add: work_def in_flight_def)

lemma goto_tally:
  assumes "at_pc i q s"
  shows "usable (goto i pc s) + pc_conn q = usable s + pc_conn pc"
    and "work (goto i pc s) + pc_work q = work s + pc_work pc"
    and "in_flight (goto i pc s) + pc_flight q = in_flight s + pc_flight pc"
proof -
  from assms have i: "i < length (p_sends s)" "p_sends s ! i = q" by (simp_all add: at_pc_def)
  note upd = sum_list_map_update [OF i(1), where y = pc, unfolded i(2)]
  show "usable (goto i pc s) + pc_conn q = usable s + pc_conn pc"
    using upd [of pc_conn] by (simp add: usable_def goto_def ac_simps)
  show "work (goto i pc s) + pc_work q = work s + pc_work pc"
    using upd [of pc_work] by (simp add: work_def goto_def)
  show "in_flight (goto i pc s) + pc_flight q = in_flight s + pc_flight pc"
    using upd [of pc_flight] by (simp add: in_flight_def goto_def)
qed

lemma holds_at: "holds i s = Some c \<longleftrightarrow> at_pc i (Holding c) s"
  by (auto simp: holds_def at_pc_def split: send_pc.splits)

text \<open>The three ways a goroutine gives up the connection it holds.\<close>

lemma release_cases:
  assumes "pool_step (Release i) s = Some t"
  obtains c pool where "at_pc i (Holding c) s" "try_send c (p_pool s) = Some pool"
    "t = goto i Leaving (s\<lparr>p_pool := pool\<rparr>)"
  using assms by (auto simp: holds_at split: option.splits)

lemma drop_cases:
  assumes "pool_step (Drop i) s = Some t"
  obtains c where "at_pc i (Holding c) s" "t = goto i Dropping (s\<lparr>p_dead := c # p_dead s\<rparr>)"
  using assms by (auto simp: holds_at split: option.splits)

lemma panic_cases:
  assumes "pool_step (CreatorPanic i) s = Some t"
  obtains c where "at_pc i (Holding c) s" "t = goto i Leaving (s\<lparr>p_lost := c # p_lost s\<rparr>)"
  using assms by (auto simp: holds_at split: option.splits)

lemma recv_usable:
  assumes "try_recv (p_pool s) = Some (c, pool)"
  shows "usable s = add_mset c (usable (s\<lparr>p_pool := pool\<rparr>))" and "chan_cap pool = chan_cap (p_pool s)"
    and "chan_buf (p_pool s) = c # chan_buf pool"
  using chan.recv_Some [OF assms] by (simp_all add: usable_def)

lemma send_usable:
  assumes "try_send c (p_pool s) = Some pool"
  shows "usable (s\<lparr>p_pool := pool\<rparr>) = add_mset c (usable s)" and "chan_cap pool = chan_cap (p_pool s)"
    and "chan_buf pool = chan_buf (p_pool s) @ [c]"
  using chan.send_Some [OF assms] by (simp_all add: usable_def)

lemma health_usable:
  "try_recv (p_pool s) = Some (c, pool) \<Longrightarrow> p_health s = None \<Longrightarrow>
     usable (s\<lparr>p_pool := pool, p_health := Some c\<rparr>) = usable s"
  "try_send c (p_pool s) = Some pool \<Longrightarrow> p_health s = Some c \<Longrightarrow>
     usable (s\<lparr>p_pool := pool, p_health := None\<rparr>) = usable s"
  using chan.recv_Some [of "p_pool s" c pool] chan.send_Some [of c "p_pool s" pool]
  by (simp_all add: usable_def)

lemma accounts_goto:
  assumes "at_pc i q s"
  shows "accounts_ok (goto i pc s) \<longleftrightarrow>
    int (chan_cap (p_pool s)) = p_max s \<and>
    p_created s + int (size (pc_conn q) + pc_work q) =
      int (size (usable s) + size (pc_conn pc) + work s + pc_work pc + p_drained s) \<and>
    p_created s \<le> p_max s \<and> p_wg s + pc_flight q = in_flight s + pc_flight pc"
proof -
  have "size (usable (goto i pc s)) + size (pc_conn q) = size (usable s) + size (pc_conn pc)"
    using arg_cong [where f = size, OF goto_tally(1) [OF assms]] by simp
  with goto_tally(2,3) [OF assms, of pc] show ?thesis
    by (auto simp: accounts_ok_def)
qed

lemma in_flight_pos: "at_pc i q s \<Longrightarrow> pc_flight q \<le> in_flight s"
  unfolding at_pc_def in_flight_def by (auto intro: member_le_sum_list)

lemmas accounts_moves = accounts_goto [where q = Idle] accounts_goto [where q = Entered]
  accounts_goto [where q = Trying] accounts_goto [where q = Checking] accounts_goto [where q = Dialing]
  accounts_goto [where q = Waiting] accounts_goto [where q = Dropping] accounts_goto [where q = Leaving]

lemma accounts_give_up:
  assumes "accounts_ok s" and "pool_step l s = Some t" and "l \<in> {Release i, Drop i, CreatorPanic i}"
  shows "accounts_ok t"
proof -
  from assms(2,3) obtain c where at: "at_pc i (Holding c) s" and t:
    "(\<exists>pool. try_send c (p_pool s) = Some pool \<and> t = goto i Leaving (s\<lparr>p_pool := pool\<rparr>)) \<or>
     t = goto i Dropping (s\<lparr>p_dead := c # p_dead s\<rparr>) \<or> t = goto i Leaving (s\<lparr>p_lost := c # p_lost s\<rparr>)"
    by (auto elim!: release_cases drop_cases panic_cases simp del: pool_step.simps)
  from at t assms(1) [unfolded accounts_ok_def] show ?thesis
    by (auto simp: accounts_goto [where q = "Holding c"] send_usable)
qed

lemma accounts_step:
  assumes inv: "accounts_ok s" and step: "pool_step l s = Some t"
  shows "accounts_ok t"
proof (cases l)
  case (Release i)
  with accounts_give_up [OF assms, of i] show ?thesis by simp
next
  case (Drop i)
  with accounts_give_up [OF assms, of i] show ?thesis by simp
next
  case (CreatorPanic i)
  with accounts_give_up [OF assms, of i] show ?thesis by simp
next
  case (Leave i)
  with step inv [unfolded accounts_ok_def] in_flight_pos [of i Leaving s] show ?thesis
    by (auto simp: accounts_moves split: if_splits)
next
  case HealthTake
  with step inv show ?thesis
    by (auto simp: accounts_ok_def health_usable recv_usable(2) split: option.splits close_pc.splits)
next
  case HealthReturn
  with step inv show ?thesis
    by (auto simp: accounts_ok_def health_usable send_usable(2) split: option.splits)
next
  case CloseBegin
  with assms show ?thesis by (auto simp: accounts_ok_def split: if_splits)
next
  case CloseLock
  with assms show ?thesis by (auto simp: accounts_ok_def split: if_splits close_pc.splits)
next
  case CloseDrain
  with assms show ?thesis
    by (auto simp: accounts_ok_def recv_usable split: option.splits close_pc.splits nat.splits)
qed (use step inv [unfolded accounts_ok_def] in
  \<open>auto simp: accounts_moves recv_usable split: if_splits option.splits\<close>)

lemma dialled_Suc [simp]: "mset_set {..<Suc n} = add_mset n (mset_set {..<n})"
  by (simp add: lessThan_Suc)

lemma goto_free:
  "at_pc i q s \<Longrightarrow> pc_conn q = {#} \<Longrightarrow> usable (goto i pc s) = usable s + pc_conn pc"
  using goto_tally(1) [of i q s pc] by simp

lemma goto_held:
  "at_pc i (Holding c) s \<Longrightarrow> pc_conn pc = {#} \<Longrightarrow> add_mset c (usable (goto i pc s)) = usable s"
  using goto_tally(1) [of i "Holding c" s pc] by simp

text \<open>A goroutine that gives up its connection leaves it in use (back in the pool, or leaked by a panic)
  or dead.\<close>

lemma give_up_usable:
  assumes "pool_step l s = Some t" and "l \<in> {Release i, Drop i, CreatorPanic i}"
  obtains (kept) "usable t = usable s" "p_dead t = p_dead s" "p_next t = p_next s"
    | (dropped) c where "usable s = add_mset c (usable t)" "p_dead t = c # p_dead s" "p_next t = p_next s"
proof -
  consider "l = Release i" | "l = Drop i" | "l = CreatorPanic i" using assms(2) by blast
  then show thesis
  proof cases
    case 1
    with assms(1) obtain c pool where "at_pc i (Holding c) s" "try_send c (p_pool s) = Some pool"
      "t = goto i Leaving (s\<lparr>p_pool := pool\<rparr>)" using release_cases by metis
    with goto_held [of i c "s\<lparr>p_pool := pool\<rparr>" Leaving] kept show ?thesis by (simp add: send_usable)
  next
    case 2
    with assms(1) obtain c where "at_pc i (Holding c) s"
      "t = goto i Dropping (s\<lparr>p_dead := c # p_dead s\<rparr>)" using drop_cases by metis
    with goto_held [of i c "s\<lparr>p_dead := c # p_dead s\<rparr>" Dropping] dropped [of c] show ?thesis by simp
  next
    case 3
    with assms(1) obtain c where "at_pc i (Holding c) s"
      "t = goto i Leaving (s\<lparr>p_lost := c # p_lost s\<rparr>)" using panic_cases by metis
    with goto_held [of i c "s\<lparr>p_lost := c # p_lost s\<rparr>" Leaving] kept show ?thesis by simp
  qed
qed

lemma ids_give_up:
  assumes "ids_ok s" and "pool_step l s = Some t" and "l \<in> {Release i, Drop i, CreatorPanic i}"
  shows "ids_ok t"
  using assms(2,3) by (rule give_up_usable) (use assms(1) in \<open>simp_all add: ids_ok_def\<close>)

lemma ids_step:
  assumes inv: "ids_ok s" and step: "pool_step l s = Some t"
  shows "ids_ok t"
proof (cases l)
  case (Recv i)
  with step inv show ?thesis
    by (auto simp: ids_ok_def goto_free [where q = Trying] recv_usable(1)
        split: if_splits option.splits)
next
  case (WaitRecv i)
  with step inv show ?thesis
    by (auto simp: ids_ok_def goto_free [where q = Waiting] recv_usable(1)
        split: if_splits option.splits)
next
  case (DialOk i)
  with step inv show ?thesis
    by (auto simp: ids_ok_def goto_free [where q = Dialing] split: if_splits)
next
  case (Release i)
  with ids_give_up [OF assms, of i] show ?thesis by simp
next
  case (Drop i)
  with ids_give_up [OF assms, of i] show ?thesis by simp
next
  case (CreatorPanic i)
  with ids_give_up [OF assms, of i] show ?thesis by simp
next
  case CloseDrain
  with step inv show ?thesis
    by (auto simp: ids_ok_def recv_usable(1) split: option.splits close_pc.splits nat.splits)
next
  case HealthTake
  with step inv show ?thesis
    by (auto simp: ids_ok_def health_usable split: option.splits close_pc.splits)
next
  case HealthReturn
  with step inv show ?thesis by (auto simp: ids_ok_def health_usable split: option.splits)
qed (use assms in \<open>auto simp: ids_ok_def goto_free split: if_splits close_pc.splits\<close>)

lemma closer_update [simp]:
  "closer_ok (goto i pc s) = closer_ok s"
  "closer_ok (s\<lparr>p_created := b\<rparr>) = closer_ok s" "closer_ok (s\<lparr>p_next := d\<rparr>) = closer_ok s"
  "closer_ok (s\<lparr>p_lost := e\<rparr>) = closer_ok s" "closer_ok (s\<lparr>p_dead := e\<rparr>) = closer_ok s"
  by (simp_all add: closer_ok_def split: close_pc.splits)

lemma closer_quiet:
  assumes "closer_ok s" and "p_wg s \<noteq> 0"
  shows "closer_ok (s\<lparr>p_pool := pool\<rparr>)"
  using assms by (simp add: closer_ok_def split: close_pc.splits)

lemma busy: "at_pc i q s \<Longrightarrow> pc_flight q = 1 \<Longrightarrow> accounts_ok s \<Longrightarrow> p_wg s \<noteq> 0"
  using in_flight_pos [of i q s] by (simp add: accounts_ok_def)

lemma closer_drain:
  assumes "closer_ok s" and "pool_step CloseDrain s = Some t"
  shows "closer_ok t"
proof (cases "try_recv (p_pool s)")
  case None
  then have "chan_buf (p_pool s) = []" by (simp add: chan.recv_None)
  with None assms show ?thesis by (auto simp: closer_ok_def split: close_pc.splits nat.splits)
next
  case (Some x)
  obtain c pool where x: "try_recv (p_pool s) = Some (c, pool)" using Some by (cases x) simp
  from recv_usable(3) [OF x] x assms show ?thesis
    by (auto simp: closer_ok_def split: close_pc.splits nat.splits)
qed

lemma closer_health_take:
  assumes "closer_ok s" and "pool_step HealthTake s = Some t"
  shows "closer_ok t"
proof -
  from assms(2) obtain c pool where x: "try_recv (p_pool s) = Some (c, pool)" "p_health s = None"
    and t: "t = s\<lparr>p_pool := pool, p_health := Some c\<rparr>" and "\<And>n k. p_closer s \<noteq> CDrain n k"
    by (auto split: option.splits close_pc.splits)
  with recv_usable(3) [OF x(1)] assms(1) show ?thesis
    by (auto simp: closer_ok_def split: close_pc.splits)
qed

lemma closer_step:
  assumes inv: "closer_ok s" "accounts_ok s" and step: "pool_step l s = Some t"
  shows "closer_ok t"
proof (cases l)
  case (Enter i)
  with step have "t = goto i Refused s \<or> \<not> p_closed s \<and> t = goto i Entered (s\<lparr>p_wg := p_wg s + 1\<rparr>)"
    by (auto split: if_splits)
  with inv(1) show ?thesis by (auto simp: closer_ok_def split: close_pc.splits)
next
  case (Recv i)
  with step inv show ?thesis
    by (auto simp: closer_quiet busy split: if_splits option.splits)
next
  case (WaitRecv i)
  with step inv show ?thesis
    by (auto simp: closer_quiet busy split: if_splits option.splits)
next
  case (Release i)
  with step inv show ?thesis
    by (auto simp: holds_at closer_quiet busy split: option.splits)
next
  case (Leave i)
  with step have "t = goto i Finished (s\<lparr>p_wg := p_wg s - 1\<rparr>)" by (auto split: if_splits)
  with inv(1) show ?thesis by (simp add: closer_ok_def split: close_pc.splits)
next
  case CloseBegin
  with step inv(1) show ?thesis by (auto simp: closer_ok_def split: if_splits)
next
  case CloseLock
  with step inv(1) show ?thesis by (auto simp: closer_ok_def split: if_splits close_pc.splits)
next
  case CloseDrain
  with closer_drain [OF inv(1)] step show ?thesis by blast
next
  case HealthTake
  with closer_health_take [OF inv(1)] step show ?thesis by blast
next
  case HealthReturn
  with step inv(1) show ?thesis
    by (auto simp: closer_ok_def split: option.splits close_pc.splits)
qed (use step inv(1) in \<open>auto split: if_splits option.splits\<close>)

interpretation pool: invariant_system pool_step pool_init pool_inv
proof
  fix s
  assume "pool_init s"
  then obtain m g where s: "s = pool_start m g" by (auto simp: pool_init_def)
  have "sum_list (map f (replicate g Idle)) = 0" if "f Idle = 0" for f :: "send_pc \<Rightarrow> nat"
    using that by (induction g) simp_all
  moreover have "sum_list (map pc_conn (replicate g Idle)) = {#}" by (induction g) simp_all
  ultimately show "pool_inv s"
    by (simp add: s pool_inv_def pool_start_def accounts_ok_def ids_ok_def closer_ok_def usable_def
        work_def in_flight_def)
next
  fix s l t
  assume "pool_inv s" and "pool_step l s = Some t"
  then show "pool_inv t"
    unfolding pool_inv_def by (blast intro: accounts_step ids_step closer_step)
qed

subsection \<open>What the pool guarantees\<close>

text \<open>
  C1: the pool never exceeds its limit. In every reachable state, with any number of
  concurrent sends, a concurrent close and health probes, \<^verbatim>\<open>created\<close> is between zero and
  the limit and is at least the number of connections that are pooled, held, peeked at
  or being dialled: the sender never owns more than \<^verbatim>\<open>maxConns\<close> connections.
\<close>

theorem pool_limit:
  assumes "reachable pool_step pool_init s"
  shows "0 \<le> p_created s \<and> p_created s \<le> p_max s \<and> int (size (usable s) + work s) \<le> p_created s"
  using pool.inv_reachable [OF assms] by (auto simp: pool_inv_def accounts_ok_def)

lemma partition_free:
  assumes "add_mset c U + D = mset_set {..<n}"
  shows "c \<notin># U" and "c \<notin># D"
proof -
  have "count (add_mset c U + D) c \<le> 1" unfolding assms by (simp add: count_mset_set')
  then show "c \<notin># U" and "c \<notin># D" by (simp_all add: not_in_iff)
qed

text \<open>
  C2: exclusive ownership. In every reachable state the connections dialled so far are
  partitioned: each of them is in exactly one place and there once, in the pool channel, with
  one goroutine that is sending, with the health probe, closed, or lost to a creator that
  panicked. So no connection is twice in the pool or closed twice, no closed connection
  is in the pool, with a goroutine or with the probe, and a connection that a goroutine
  holds is nowhere else: no two goroutines use a connection at once and none uses a closed one.
\<close>

theorem pool_exclusive:
  assumes "reachable pool_step pool_init s"
  shows "mset (chan_buf (p_pool s)) + sum_list (map pc_conn (p_sends s)) + mset (p_lost s) +
      (case p_health s of None \<Rightarrow> {#} | Some c \<Rightarrow> {#c#}) + mset (p_dead s) = mset_set {..<p_next s} \<and>
    (\<forall>i c. holds i s = Some c \<longrightarrow>
       c \<notin> set (p_dead s) \<and> c \<notin> set (chan_buf (p_pool s)) \<and> p_health s \<noteq> Some c \<and>
       (\<forall>j. holds j s = Some c \<longrightarrow> j = i))"
proof -
  from pool.inv_reachable [OF assms] have ids: "usable s + mset (p_dead s) = mset_set {..<p_next s}"
    by (simp add: pool_inv_def ids_ok_def)
  have "c \<notin> set (p_dead s) \<and> c \<notin> set (chan_buf (p_pool s)) \<and> p_health s \<noteq> Some c \<and>
      (\<forall>j. holds j s = Some c \<longrightarrow> j = i)" if "holds i s = Some c" for i c
  proof -
    from that have at: "at_pc i (Holding c) s" by (simp add: holds_at)
    have u: "usable s = add_mset c (usable (goto i Leaving s))" using goto_held [OF at] by simp
    note free = partition_free [OF ids [unfolded u]]
    then have "c \<notin> set (p_dead s)" "c \<notin> set (chan_buf (p_pool s))" "p_health s \<noteq> Some c"
      by (auto simp: usable_def)
    moreover have "j = i" if "holds j s = Some c" for j
    proof (rule ccontr)
      assume "j \<noteq> i"
      with that have "at_pc j (Holding c) (goto i Leaving s)" by (simp add: holds_at at_pc_def goto_def)
      from goto_held [OF this, of Leaving] free(1) show False
        by (metis pc_conn.simps(9) union_single_eq_member)
    qed
    ultimately show ?thesis by blast
  qed
  with ids show ?thesis by (simp add: usable_def)
qed

text \<open>
  C3: returning a connection never blocks. A goroutine that holds a connection can always
  put it back into the pool, and so can the health probe.
\<close>

theorem release_never_blocks:
  assumes "reachable pool_step pool_init s"
  shows "(\<forall>i c. holds i s = Some c \<longrightarrow> pool_step (Release i) s \<noteq> None) \<and>
    (p_health s \<noteq> None \<longrightarrow> pool_step HealthReturn s \<noteq> None)"
proof -
  from pool.inv_reachable [OF assms] have acc: "accounts_ok s" by (simp add: pool_inv_def)
  have room: "try_send c (p_pool s) \<noteq> None" if "length (chan_buf (p_pool s)) < size (usable s)" for c
    using that acc chan.send_enabled [of "p_pool s" c] by (auto simp: accounts_ok_def)
  have "length (chan_buf (p_pool s)) < size (usable s)" if "holds i s = Some c" for i c
  proof -
    from that have at: "at_pc i (Holding c) s" by (simp add: holds_at)
    from arg_cong [where f = size, OF goto_held [OF at, of Leaving]] show ?thesis by (simp add: usable_def)
  qed
  moreover have "length (chan_buf (p_pool s)) < size (usable s)" if "p_health s \<noteq> None"
    using that by (auto simp: usable_def)
  ultimately have "\<exists>pool. try_send c (p_pool s) = Some pool"
    if "holds i s = Some c \<or> p_health s = Some c" for i c using room [of c] that by auto
  then show ?thesis by fastforce
qed

lemma idle_holds_none: "in_flight s = 0 \<Longrightarrow> sum_list (map pc_conn (p_sends s)) = {#}"
proof (rule sum_list_map_zero [where 'b = "nat multiset", unfolded zero_multiset_def [symmetric]])
  fix q
  assume "in_flight s = 0" and "q \<in> set (p_sends s)"
  then have "pc_flight q = 0" by (simp add: in_flight_def sum_list_eq_0_iff)
  then show "pc_conn q = {#}" by (cases q) simp_all
qed

lemma drain_states:
  assumes "reachable pool_step pool_init s"
  shows "(\<forall>n k. p_closer s = CDrain n k \<longrightarrow> in_flight s = 0 \<and> work s = 0 \<and> p_health s = None) \<and>
    (\<forall>n. p_closer s = CDone n \<longrightarrow> in_flight s = 0 \<and>
       (p_created s \<le> int n \<longrightarrow> chan_buf (p_pool s) = [] \<and> p_health s = None))"
proof -
  from pool.inv_reachable [OF assms] have inv: "accounts_ok s" "closer_ok s" by (simp_all add: pool_inv_def)
  have "pc_work q \<le> pc_flight q" for q by (cases q) simp_all
  then have "work s \<le> in_flight s" unfolding work_def in_flight_def by (rule sum_list_mono)
  moreover have "length (chan_buf (p_pool s)) + (if p_health s = None then 0 else 1) \<le> size (usable s)"
    by (simp add: usable_def split: option.splits)
  ultimately show ?thesis using inv
    by (auto simp: accounts_ok_def closer_ok_def split: if_splits)
qed

lemma drained_dead:
  assumes "reachable pool_step pool_init s" and "in_flight s = 0" and "chan_buf (p_pool s) = []"
    and "p_health s = None"
  shows "mset (p_dead s) + mset (p_lost s) = mset_set {..<p_next s}"
  using pool.inv_reachable [OF assms(1)] idle_holds_none [OF assms(2)] assms(3,4)
  by (simp add: pool_inv_def ids_ok_def usable_def add.commute)

subsection \<open>Runs\<close>

lemma start_reachable:
  "run_steps pool_step ls (pool_start m g) = Some s \<Longrightarrow> reachable pool_step pool_init s"
  by (rule reachable_run [OF reachable.start]) (auto simp: pool_init_def)

text \<open>One send got the only connection and another waits for it.\<close>

definition contended :: "pool_label list" where
  "contended = [Enter 0, Poll 0, Recv 0, Check 0, DialOk 0, Enter 1, Poll 1, Recv 1, Check 1]"

definition contended_state :: pool_sys where
  "contended_state = (pool_start 1 2)\<lparr>p_created := 1, p_wg := 2, p_sends := [Holding 0, Waiting], p_next := 1\<rparr>"

lemmas run_defs = pool_start_def make_chan_def try_recv_def try_send_def goto_def at_pc_def holds_def
  numeral_2_eq_2

lemma contended_run: "run_steps pool_step contended (pool_start 1 2) = Some contended_state"
  by (simp add: contended_def contended_state_def run_defs)

lemma contended_reachable: "reachable pool_step pool_init contended_state"
  using contended_run by (rule start_reachable)

lemma contended_holds: "holds 0 contended_state = Some 0"
  by (simp add: contended_state_def holds_def)

theorem pool_limit_witness: "int (size (usable contended_state) + work contended_state) \<le> 1"
  using pool_limit [OF contended_reachable] by (simp add: contended_state_def pool_start_def)

theorem pool_exclusive_witness:
  "\<not> holds 1 contended_state = Some 0 \<and> 0 \<notin> set (chan_buf (p_pool contended_state))"
  using pool_exclusive [OF contended_reachable] contended_holds by auto

theorem release_never_blocks_witness: "pool_step (Release 0) contended_state \<noteq> None"
  using release_never_blocks [OF contended_reachable] contended_holds by blast

text \<open>A \<^verbatim>\<open>close\<close> of a sender with one idle connection.\<close>

definition clean_close :: "pool_label list" where
  "clean_close = [Enter 0, Poll 0, Recv 0, Check 0, DialOk 0, Release 0, Leave 0,
     CloseBegin, CloseLock, CloseDrain, CloseDrain]"

definition clean_state :: pool_sys where
  "clean_state = (pool_start 1 1)\<lparr>p_created := 1, p_closed := True, p_sends := [Finished],
     p_closer := CDone 1, p_next := 1, p_dead := [0], p_drained := 1\<rparr>"

lemma clean_close_run: "run_steps pool_step clean_close (pool_start 1 1) = Some clean_state"
  by (simp add: clean_close_def clean_state_def run_defs)

definition wedged_state :: pool_sys where
  "wedged_state = (pool_start 1 2)\<lparr>p_closed := True, p_wg := 1, p_sends := [Finished, Waiting],
     p_closer := CWait 0, p_next := 1, p_dead := [0]\<rparr>"

lemma wedged_run:
  "run_steps pool_step (contended @ [Drop 0, Forget 0, Leave 0, CloseBegin]) (pool_start 1 2) =
     Some wedged_state"
  by (simp only: run_steps_append contended_run bind.simps)
    (simp add: contended_state_def wedged_state_def run_defs)

lemma wedged_only: "pool_step l wedged_state \<noteq> None \<longleftrightarrow> l = Cancel 1"
  by (cases l) (auto simp: wedged_state_def run_defs less_Suc_eq nth_Cons' split: if_splits)

text \<open>The program points from which a send, once the sender is closed, returns no connection.\<close>

fun returns_none :: "send_pc \<Rightarrow> bool" where
  "returns_none Idle = True"
| "returns_none Waiting = True"
| "returns_none Dropping = True"
| "returns_none Leaving = True"
| "returns_none Refused = True"
| "returns_none Finished = True"
| "returns_none _ = False"

definition starved :: "pool_sys \<Rightarrow> bool" where
  "starved s \<longleftrightarrow> p_closed s \<and> chan_buf (p_pool s) = [] \<and> p_health s = None \<and>
     (\<forall>pc \<in> set (p_sends s). returns_none pc)"

lemma starved_at: "starved s \<Longrightarrow> at_pc i q s \<Longrightarrow> returns_none q"
  by (auto simp: starved_def at_pc_def)

lemma starved_goto:
  "starved s \<Longrightarrow> returns_none q \<Longrightarrow> starved (goto i q (s\<lparr>p_wg := w, p_created := c\<rparr>))"
  "starved s \<Longrightarrow> returns_none q \<Longrightarrow> starved (goto i q (s\<lparr>p_created := c\<rparr>))"
  "starved s \<Longrightarrow> returns_none q \<Longrightarrow> starved (goto i q (s\<lparr>p_wg := w\<rparr>))"
  "starved s \<Longrightarrow> returns_none q \<Longrightarrow> starved (goto i q s)"
  by (auto simp: starved_def goto_def dest!: set_update_subset_insert [THEN subsetD])

lemma other_waiting:
  "at_pc i Waiting s \<Longrightarrow> at_pc j q s \<Longrightarrow> j \<noteq> i \<or> q = Waiting"
  "at_pc i Waiting s \<Longrightarrow> j \<noteq> i \<Longrightarrow> at_pc i Waiting (goto j pc s)"
  by (auto simp: at_pc_def goto_def)

lemma starved_step:
  assumes st: "starved s" "at_pc i Waiting s" "p_closer s = CWait n" "accounts_ok s"
    and step: "pool_step l s = Some t" "l \<noteq> Cancel i"
  shows "starved t \<and> at_pc i Waiting t \<and> p_closer t = CWait n \<and> p_lost t = p_lost s"
proof -
  from st(1) have s: "p_closed s" "try_recv (p_pool s) = None" "p_health s = None"
    by (simp_all add: starved_def chan.recv_None)
  have w: "p_wg s \<noteq> 0" using busy [OF st(2) _ st(4)] by simp
  note no = starved_at [OF st(1)] other_waiting(1) [OF st(2)]
  show ?thesis
    using st step s w
    by (cases l)
      (auto simp: holds_at starved_goto other_waiting(2) dest: no split: if_splits option.splits)
qed

lemma starved_run:
  assumes "reachable pool_step pool_init s" "starved s" "at_pc i Waiting s" "p_closer s = CWait n"
    and "run_steps pool_step ls s = Some t" "Cancel i \<notin> set ls"
  shows "starved t \<and> at_pc i Waiting t \<and> p_closer t = CWait n \<and> p_lost t = p_lost s"
  using assms
proof (induction ls arbitrary: s)
  case Nil
  then show ?case by simp
next
  case (Cons l ls)
  then obtain u where u: "pool_step l s = Some u" "run_steps pool_step ls u = Some t"
    by (auto split: option.splits)
  from pool.inv_reachable [OF Cons.prems(1)] have "accounts_ok s" by (simp add: pool_inv_def)
  from starved_step [OF Cons.prems(2-4) this u(1)] Cons.prems(6) Cons.IH [OF _ _ _ _ u(2)]
    reachable.move [OF Cons.prems(1) u(1)] show ?case by auto
qed

lemma starved_created:
  assumes "reachable pool_step pool_init s" "starved s" "p_closer s = CWait n"
  shows "p_created s = int (length (p_lost s) + work s)"
proof -
  have "pc_conn q = {#}" if "returns_none q" for q using that by (cases q) simp_all
  then have "sum_list (map pc_conn (p_sends s)) = {#}"
    using assms(2) sum_list_map_zero [of "p_sends s" pc_conn] by (simp add: starved_def)
  with pool.inv_reachable [OF assms(1)] assms(2,3) show ?thesis
    by (simp add: pool_inv_def accounts_ok_def closer_ok_def starved_def usable_def)
qed

lemma wedged_reachable: "reachable pool_step pool_init wedged_state"
  using wedged_run by (rule start_reachable)

text \<open>
  C30: a lost wake-up. Take any reachable state in which \<^verbatim>\<open>close\<close> has begun and waits for the
  sends, the pool channel is empty, no probe holds a connection, every send has not started, waits
  for a connection, has closed its own or no longer has one, and send \<open>i\<close> waits. Then in every run in which the context of send \<open>i\<close> is not cancelled, send \<open>i\<close> goes on
  waiting and \<^verbatim>\<open>close\<close> never gets past \<^verbatim>\<open>wg.Wait\<close>, although \<^verbatim>\<open>created\<close> has gone down to the
  connections still being discarded or lost to a panicking creator, so that a new one
  might be dialled: discarding a connection wakes nobody. Such a state is reachable with two sends and a
  limit of one connection, with \<^verbatim>\<open>created\<close> at zero; there the cancellation is the only step
  left.
\<close>

theorem lost_wakeup:
  assumes "reachable pool_step pool_init s" "p_closed s" "p_closer s = CWait n"
    and "chan_buf (p_pool s) = []" "p_health s = None" "\<forall>pc \<in> set (p_sends s). returns_none pc"
    and "at_pc i Waiting s" "run_steps pool_step ls s = Some t" "Cancel i \<notin> set ls"
  shows "at_pc i Waiting t \<and> p_closer t = CWait n \<and> p_created t = int (length (p_lost s) + work t) \<and>
    reachable pool_step pool_init wedged_state \<and> p_sends wedged_state = [Finished, Waiting] \<and>
    usable wedged_state = {#} \<and> p_created wedged_state = 0 \<and> p_max wedged_state = 1 \<and>
    p_closer wedged_state = CWait 0 \<and> {l. pool_step l wedged_state \<noteq> None} = {Cancel 1}"
proof -
  have "starved s" using assms(2-6) by (simp add: starved_def)
  from starved_run [OF assms(1) this assms(7,3,8,9)]
  have t: "starved t" "at_pc i Waiting t" "p_closer t = CWait n" "p_lost t = p_lost s" by simp_all
  have "{l. pool_step l wedged_state \<noteq> None} = {Cancel 1}" by (simp only: wedged_only) simp
  moreover have "usable wedged_state = {#}" by (simp add: wedged_state_def usable_def pool_start_def)
  ultimately show ?thesis
    using t wedged_reachable starved_created [OF reachable_run [OF assms(1,8)] t(1,3)]
    by (simp add: wedged_state_def pool_start_def)
qed

text \<open>One send is about to forget the connection it discarded while the other one waits for it.\<close>

definition discarding_state :: pool_sys where
  "discarding_state = contended_state\<lparr>p_closed := True, p_sends := [Dropping, Waiting],
     p_closer := CWait 1, p_dead := [0]\<rparr>"

lemma discarding_run:
  "run_steps pool_step (contended @ [Drop 0, CloseBegin]) (pool_start 1 2) = Some discarding_state"
  by (simp only: run_steps_append contended_run bind.simps)
    (simp add: contended_state_def discarding_state_def run_defs)

theorem lost_wakeup_witness:
  "\<exists>t. run_steps pool_step [Forget 0, Leave 0] discarding_state = Some t \<and> at_pc 1 Waiting t \<and>
     p_closer t = CWait 1 \<and> p_created t = 0"
proof -
  have "\<exists>t. run_steps pool_step [Forget 0, Leave 0] discarding_state = Some t \<and> work t = 0"
    by (simp add: discarding_state_def contended_state_def run_defs work_def)
  then obtain t where t: "run_steps pool_step [Forget 0, Leave 0] discarding_state = Some t" "work t = 0"
    by blast
  from lost_wakeup [OF start_reachable [OF discarding_run], of 1 1, OF _ _ _ _ _ _ t(1)] t
  show ?thesis
    by (simp add: discarding_state_def contended_state_def pool_start_def at_pc_def)
qed

definition leak_run :: "pool_label list" where
  "leak_run = [Enter 0, Poll 0, CloseBegin, Recv 0, Check 0, DialOk 0, Release 0, Leave 0,
     CloseLock, CloseDrain]"

definition leak_state :: pool_sys where
  "leak_state = (pool_start 1 1)\<lparr>p_pool := \<lparr>chan_cap = 1, chan_buf = [0]\<rparr>, p_created := 1,
     p_closed := True, p_sends := [Finished], p_closer := CDone 0, p_next := 1\<rparr>"

lemma leaks: "run_steps pool_step leak_run (pool_start 1 1) = Some leak_state"
  by (simp add: leak_run_def leak_state_def run_defs)

text \<open>
  C29: \<^verbatim>\<open>close\<close> and the sends. Once \<^verbatim>\<open>close\<close> drains the pool, no send is in flight; and when
  it is done, the pool is empty and every connection ever dialled has been closed, exactly once,
  except those lost to a creator that panicked, unless sends created more connections
  after \<^verbatim>\<open>close\<close> had read \<^verbatim>\<open>created\<close>. That exception is real: a send that is in
  flight but has not dialled yet when \<^verbatim>\<open>close\<close> reads \<^verbatim>\<open>created\<close> later returns its new
  connection to the pool; the drain loop runs zero times and leaves it there, connected,
  with nobody left to close it.
\<close>

theorem close_drains:
  assumes "reachable pool_step pool_init s"
  shows "(\<forall>n k. p_closer s = CDrain n k \<longrightarrow> in_flight s = 0 \<and> work s = 0 \<and> p_health s = None) \<and>
    (\<forall>n. p_closer s = CDone n \<longrightarrow> in_flight s = 0 \<and>
       (p_created s \<le> int n \<longrightarrow> chan_buf (p_pool s) = [] \<and> p_health s = None \<and>
          mset (p_dead s) + mset (p_lost s) = mset_set {..<p_next s})) \<and>
    reachable pool_step pool_init leak_state \<and> p_closer leak_state = CDone 0 \<and> in_flight leak_state = 0 \<and>
    chan_buf (p_pool leak_state) = [0] \<and> p_dead leak_state = []"
proof -
  have "p_closer leak_state = CDone 0" "in_flight leak_state = 0"
    "chan_buf (p_pool leak_state) = [0]" "p_dead leak_state = []"
    by (simp_all add: leak_state_def in_flight_def pool_start_def)
  with drain_states [OF assms] drained_dead [OF assms] start_reachable [OF leaks] show ?thesis by auto
qed

theorem close_drains_witness:
  "chan_buf (p_pool clean_state) = [] \<and> in_flight clean_state = 0 \<and> mset (p_dead clean_state) = {#0#}"
  using close_drains [OF start_reachable [OF clean_close_run]]
  by (simp add: clean_state_def pool_start_def)

end
