(* ===== verification/Sender_Refinement.thy ===== *)
theory Sender_Refinement
  imports MQ_Sender Sender_Pool
begin

text \<open>
  The two models of the sender agree: every completed call of \<open>MQ_Sender\<close> is a run of one
  goroutine of \<open>Sender_Pool\<close>. The abstraction forgets which connection is which, the
  telemetry, the tracked state and everything that happens on a connection; what is left is
  the pool's fill and capacity, the counter, the limit, the closed flag and the calls in
  flight.
\<close>

definition pool_sim :: "Sender \<Rightarrow> pool_sys \<Rightarrow> bool" where
  "pool_sim s p \<longleftrightarrow>
     length (chan_buf (s_pool s)) = length (chan_buf (p_pool p)) \<and> chan_cap (s_pool s) = chan_cap (p_pool p) \<and>
     s_created s = p_created p \<and> s_maxConns s = p_max p \<and> s_closed s = p_closed p \<and> s_wg s = p_wg p"

text \<open>A run of one goroutine: it moves that goroutine only and neither \<^verbatim>\<open>close\<close> nor the probe.\<close>

definition runs_to :: "pool_sys \<Rightarrow> nat \<Rightarrow> send_pc \<Rightarrow> pool_sys \<Rightarrow> bool" where
  "runs_to p i pc q \<longleftrightarrow> (\<exists>ls. run_steps pool_step ls p = Some q) \<and> p_sends q = (p_sends p)[i := pc] \<and>
     p_closer q = p_closer p \<and> p_health q = p_health p"

lemma runs_to_at: "runs_to p i pc q \<Longrightarrow> at_pc i pc' p \<Longrightarrow> at_pc i pc q"
  by (simp add: runs_to_def at_pc_def)

lemma runs_to_refl:
  assumes "at_pc i pc p"
  shows "runs_to p i pc p"
proof -
  have "run_steps pool_step [] p = Some p" by simp
  moreover have "p_sends p = (p_sends p)[i := pc]" using assms by (auto simp: at_pc_def)
  ultimately show ?thesis unfolding runs_to_def by blast
qed

lemma runs_to_trans: "runs_to p i pc q \<Longrightarrow> runs_to q i pc' r \<Longrightarrow> runs_to p i pc' r"
proof -
  assume a: "runs_to p i pc q" "runs_to q i pc' r"
  then obtain ks ls where "run_steps pool_step ks p = Some q" "run_steps pool_step ls q = Some r"
    by (auto simp: runs_to_def)
  then have "run_steps pool_step (ks @ ls) p = Some r" by (simp add: run_steps_append)
  with a show ?thesis by (auto simp: runs_to_def)
qed

text \<open>One step of goroutine \<open>i\<close>.\<close>

lemma runs_to_step:
  assumes "pool_step l p = Some q" and "p_sends q = (p_sends p)[i := pc]" and "p_closer q = p_closer p"
    and "p_health q = p_health p"
  shows "runs_to p i pc q"
proof -
  from assms(1) have "run_steps pool_step [l] p = Some q" by simp
  with assms(2-4) show ?thesis unfolding runs_to_def by blast
qed

lemma pool_sim_recv:
  assumes "pool_sim s p"
  shows "try_recv (s_pool s) = None \<longleftrightarrow> try_recv (p_pool p) = None"
  using assms by (auto simp: pool_sim_def chan.recv_None)

subsection \<open>Acquiring a connection\<close>

lemma sim_cancel:
  assumes "pool_sim s p" and "at_pc i Entered p \<or> at_pc i Waiting p"
  shows "\<exists>q. runs_to p i Leaving q \<and> pool_sim s q"
  using assms
  by (intro exI [of _ "goto i Leaving p"]) (auto intro!: runs_to_step [of "Cancel i"] simp: goto_def pool_sim_def)

lemma sim_poll:
  assumes "pool_sim s p" and "at_pc i Entered p"
  shows "\<exists>q. runs_to p i Trying q \<and> pool_sim s q"
  using assms
  by (intro exI [of _ "goto i Trying p"]) (auto intro!: runs_to_step [of "Poll i"] simp: goto_def pool_sim_def)

lemma sim_take:
  assumes "pool_sim s p" and "at_pc i Trying p" and "try_recv (s_pool s) = Some (conn, pool)"
  shows "\<exists>c q. runs_to p i (Holding c) q \<and> pool_sim (s\<lparr>s_pool := pool\<rparr>) q"
proof -
  from assms(1,3) pool_sim_recv obtain c pool' where r: "try_recv (p_pool p) = Some (c, pool')" by fastforce
  let ?q = "goto i (Holding c) (p\<lparr>p_pool := pool'\<rparr>)"
  have "runs_to p i (Holding c) ?q"
    by (rule runs_to_step [of "Recv i"]) (use assms(2) r in \<open>simp_all add: goto_def\<close>)
  moreover have "pool_sim (s\<lparr>s_pool := pool\<rparr>) ?q"
    using assms(1) chan.recv_Some [OF r] chan.recv_Some [OF assms(3)] by (simp add: pool_sim_def)
  ultimately show ?thesis by blast
qed

lemma sim_miss:
  assumes "pool_sim s p" and "at_pc i Trying p" and "try_recv (s_pool s) = None"
  shows "\<exists>q. runs_to p i Checking q \<and> pool_sim s q"
  using assms pool_sim_recv [OF assms(1)]
  by (intro exI [of _ "goto i Checking p"]) (auto intro!: runs_to_step [of "Recv i"] simp: goto_def pool_sim_def)

lemma sim_check:
  assumes "pool_sim s p" and "at_pc i Checking p"
  shows "s_created s < s_maxConns s \<Longrightarrow> \<exists>q. runs_to p i Dialing q \<and> pool_sim (s\<lparr>s_created := s_created s + 1\<rparr>) q"
    and "\<not> s_created s < s_maxConns s \<Longrightarrow> \<exists>q. runs_to p i Waiting q \<and> pool_sim s q"
proof -
  assume "s_created s < s_maxConns s"
  with assms show "\<exists>q. runs_to p i Dialing q \<and> pool_sim (s\<lparr>s_created := s_created s + 1\<rparr>) q"
    by (intro exI [of _ "goto i Dialing (p\<lparr>p_created := p_created p + 1\<rparr>)"])
      (auto intro!: runs_to_step [of "Check i"] simp: goto_def pool_sim_def)
next
  assume "\<not> s_created s < s_maxConns s"
  with assms show "\<exists>q. runs_to p i Waiting q \<and> pool_sim s q"
    by (intro exI [of _ "goto i Waiting p"]) (auto intro!: runs_to_step [of "Check i"] simp: goto_def pool_sim_def)
qed

lemma sim_dial:
  assumes "pool_sim s p" and "at_pc i Dialing p"
  shows "\<exists>c q. runs_to p i (Holding c) q \<and> pool_sim s q"
    and "\<exists>q. runs_to p i Leaving q \<and> pool_sim (s\<lparr>s_created := s_created s - 1\<rparr>) q"
proof -
  have "runs_to p i (Holding (p_next p)) (goto i (Holding (p_next p)) (p\<lparr>p_next := p_next p + 1\<rparr>))"
    by (rule runs_to_step [of "DialOk i"]) (use assms(2) in \<open>simp_all add: goto_def\<close>)
  with assms(1) show "\<exists>c q. runs_to p i (Holding c) q \<and> pool_sim s q" by (force simp: pool_sim_def)
  have "runs_to p i Leaving (goto i Leaving (p\<lparr>p_created := p_created p - 1\<rparr>))"
    by (rule runs_to_step [of "DialFail i"]) (use assms(2) in \<open>simp_all add: goto_def\<close>)
  with assms(1) show "\<exists>q. runs_to p i Leaving q \<and> pool_sim (s\<lparr>s_created := s_created s - 1\<rparr>) q"
    by (force simp: pool_sim_def)
qed

lemma pool_sim_update [simp]:
  "pool_sim (s_setState st e s) p = pool_sim s p" "pool_sim (on_tel f s) p = pool_sim s p"
  "pool_sim (s\<lparr>s_tel := tel\<rparr>) p = pool_sim s p"
  by (simp_all add: pool_sim_def s_setState_def on_tel_def)

lemma sim_dialing:
  assumes "pool_sim s p" and "at_pc i Entered p" and "try_recv (s_pool s) = None" and "s_created s < s_maxConns s"
  shows "\<exists>q. runs_to p i Dialing q \<and> pool_sim (s\<lparr>s_created := s_created s + 1\<rparr>) q"
proof -
  from sim_poll [OF assms(1,2)] obtain p1 where 1: "runs_to p i Trying p1" "pool_sim s p1" by blast
  from sim_miss [OF 1(2) runs_to_at [OF 1(1) assms(2)] assms(3)] obtain p2 where
    2: "runs_to p1 i Checking p2" "pool_sim s p2" by blast
  note p2 = runs_to_trans [OF 1(1) 2(1)]
  from sim_check(1) [OF 2(2) runs_to_at [OF p2 assms(2)] assms(4)] runs_to_trans [OF p2] show ?thesis by blast
qed

lemma sim_waiting:
  assumes "pool_sim s p" and "at_pc i Entered p" and "try_recv (s_pool s) = None" and "\<not> s_created s < s_maxConns s"
  shows "\<exists>q. runs_to p i Leaving q \<and> pool_sim s q"
proof -
  from sim_poll [OF assms(1,2)] obtain p1 where 1: "runs_to p i Trying p1" "pool_sim s p1" by blast
  from sim_miss [OF 1(2) runs_to_at [OF 1(1) assms(2)] assms(3)] obtain p2 where
    2: "runs_to p1 i Checking p2" "pool_sim s p2" by blast
  note p2 = runs_to_trans [OF 1(1) 2(1)]
  from sim_check(2) [OF 2(2) runs_to_at [OF p2 assms(2)] assms(4)] obtain p3 where
    3: "runs_to p2 i Waiting p3" "pool_sim s p3" by blast
  note p3 = runs_to_trans [OF p2 3(1)]
  from sim_cancel [OF 3(2)] runs_to_at [OF p3 assms(2)] runs_to_trans [OF p3] show ?thesis by blast
qed

lemma acquire_dial_sim:
  assumes "acquireConn env ctx s io = Some (r, s', io')" and "pool_sim s p" and "at_pc i Entered p"
    and e: "ctx_Err env ctx io = (None, io1)" and None: "try_recv (s_pool s) = None"
    and True: "s_created s < s_maxConns s"
  shows "\<exists>q pc. runs_to p i pc q \<and> pool_sim s' q \<and>
    (case r of Inl _ \<Rightarrow> pc = Leaving | Inr _ \<Rightarrow> \<exists>c. pc = Holding c)"
proof -
  from sim_dialing [OF assms(2,3) None True] obtain p1 where
    1: "runs_to p i Dialing p1" "pool_sim (s\<lparr>s_created := s_created s + 1\<rparr>) p1" by blast
  note dial = sim_dial [OF 1(2) runs_to_at [OF 1(1) assms(3)]]
  obtain d io2 where d: "newConnectionWithRetry env ctx (s_cfg s) io1 = (d, io2)"
    by (cases "newConnectionWithRetry env ctx (s_cfg s) io1")
  show ?thesis
  proof (cases d)
    case (Inl err)
    from dial(2) obtain q where "runs_to p1 i Leaving q" "pool_sim s q" by auto
    with runs_to_trans [OF 1(1)] d Inl True None e assms(1) show ?thesis
      by (cases "ctx_Err env ctx io2") (fastforce simp: acquireConn_def split: option.splits)
  next
    case (Inr conn)
    from dial(1) runs_to_trans [OF 1(1)] d Inr True None e assms(1) show ?thesis
      by (fastforce simp: acquireConn_def)
  qed
qed

lemma acquire_sim:
  assumes "acquireConn env ctx s io = Some (r, s', io')" and "pool_sim s p" and "at_pc i Entered p"
  shows "\<exists>q pc. runs_to p i pc q \<and> pool_sim s' q \<and>
    (case r of Inl _ \<Rightarrow> pc = Leaving | Inr _ \<Rightarrow> \<exists>c. pc = Holding c)"
proof -
  obtain e io1 where e: "ctx_Err env ctx io = (e, io1)" by (cases "ctx_Err env ctx io")
  show ?thesis
  proof (cases e)
    case (Some err)
    with e assms(1) sim_cancel [OF assms(2)] assms(3) show ?thesis by (auto simp: acquireConn_def)
  next
    case None
    note live = this
    show ?thesis
    proof (cases "try_recv (s_pool s)")
      case (Some x)
      obtain conn pool where x: "x = (conn, pool)" by (cases x)
      from sim_poll [OF assms(2,3)] obtain p1 where 1: "runs_to p i Trying p1" "pool_sim s p1" by blast
      from sim_take [OF 1(2) runs_to_at [OF 1(1) assms(3)]] Some x obtain c q where
        "runs_to p1 i (Holding c) q" "pool_sim (s\<lparr>s_pool := pool\<rparr>) q" by blast
      with runs_to_trans [OF 1(1)] live e assms(1) Some x show ?thesis by (fastforce simp: acquireConn_def)
    next
      case None
      show ?thesis
      proof (cases "s_created s < s_maxConns s")
        case True
        with acquire_dial_sim [OF assms _ None] e live show ?thesis by simp
      next
        case False
        from sim_waiting [OF assms(2,3) None False] False None live e assms(1) show ?thesis
          by (auto simp: acquireConn_def split: option.splits)
      qed
    qed
  qed
qed

subsection \<open>Giving it back\<close>

lemma release_sim:
  assumes "releaseConn conn s = Some s'" and "pool_sim s p" and "at_pc i (Holding c) p"
  shows "\<exists>q. runs_to p i Leaving q \<and> pool_sim s' q"
proof -
  from assms(1) obtain pool where x: "try_send conn (s_pool s) = Some pool" "s' = s\<lparr>s_pool := pool\<rparr>"
    by (auto simp: releaseConn_def)
  with chan.send_None [of conn "s_pool s"] assms(2) have "\<not> chan_cap (p_pool p) \<le> length (chan_buf (p_pool p))"
    by (simp add: pool_sim_def)
  then obtain pool' where y: "try_send c (p_pool p) = Some pool'" using chan.send_enabled [of "p_pool p" c] by auto
  let ?q = "goto i Leaving (p\<lparr>p_pool := pool'\<rparr>)"
  have "runs_to p i Leaving ?q"
    by (rule runs_to_step [of "Release i"]) (use assms(3) y in \<open>simp_all add: goto_def flip: holds_at\<close>)
  moreover have "pool_sim s' ?q"
    using assms(2) x(2) chan.send_Some [OF x(1)] chan.send_Some [OF y] by (simp add: pool_sim_def)
  ultimately show ?thesis by blast
qed

lemma discard_sim:
  assumes "discardConn env conn s io = (s', io')" and "pool_sim s p" and "at_pc i (Holding c) p"
  shows "\<exists>q. runs_to p i Leaving q \<and> pool_sim s' q"
proof -
  let ?p1 = "goto i Dropping (p\<lparr>p_dead := c # p_dead p\<rparr>)"
  let ?q = "goto i Leaving (?p1\<lparr>p_created := p_created ?p1 - 1\<rparr>)"
  have 1: "runs_to p i Dropping ?p1"
    by (rule runs_to_step [of "Drop i"]) (use assms(3) in \<open>simp_all add: goto_def flip: holds_at\<close>)
  have "runs_to ?p1 i Leaving ?q"
    by (rule runs_to_step [of "Forget i"]) (use runs_to_at [OF 1 assms(3)] in \<open>simp_all add: goto_def\<close>)
  moreover have "pool_sim s' ?q"
    using assms(1,2) by (auto simp: discardConn_def pool_sim_def on_tel_def split: prod.splits)
  ultimately show ?thesis using runs_to_trans [OF 1] by blast
qed

lemma panic_sim:
  assumes "pool_sim s p" and "at_pc i (Holding c) p"
  shows "\<exists>q. runs_to p i Leaving q \<and> pool_sim s q"
proof -
  have "runs_to p i Leaving (goto i Leaving (p\<lparr>p_lost := c # p_lost p\<rparr>))"
    by (rule runs_to_step [of "CreatorPanic i"]) (use assms(2) in \<open>simp_all add: goto_def flip: holds_at\<close>)
  with assms(1) show ?thesis by (force simp: pool_sim_def)
qed

lemma finish_sim:
  assumes "send_finish env spanCtx sp start conn x s io = Some (r, s', io')" and "pool_sim s p"
    and "at_pc i (Holding c) p"
  shows "\<exists>q. runs_to p i Leaving q \<and> pool_sim s' q"
proof -
  from assms(1) obtain s1 where "releaseConn conn s1 = Some s'" "pool_sim s1 p = pool_sim s p"
    by (cases x) (auto simp: send_finish_def Let_def split: prod.splits if_splits)
  with release_sim assms(2,3) show ?thesis by blast
qed

lemma retry_sim:
  assumes "send_retry env ctx spanCtx sp start conn d creator putErr s io = Some (r, s', io')"
    and "pool_sim s p" and "at_pc i (Holding c) p"
  shows "\<exists>q. runs_to p i Leaving q \<and> pool_sim s' q"
proof -
  let ?s0 = "s_setState StateReconnecting (Some putErr) s" and ?s1 = "s_setState StateConnected None
    (s_setState StateReconnecting (Some putErr) s)"
  have sim: "pool_sim ?s0 p" "pool_sim ?s1 p" using assms(2) by simp_all
  obtain e conn' io1 where e: "Reconnect env ctx conn io = (e, conn', io1)" by (metis prod_cases3)
  show ?thesis
  proof (cases e)
    case (Some err)
    obtain s1 io2 where x: "discardConn env conn' ?s0 io1 = (s1, io2)" by (metis surj_pair)
    from discard_sim [OF x sim(1) assms(3)] e Some x assms(1) show ?thesis by (auto simp: send_retry_def)
  next
    case None
    obtain y io2 where y: "put env (s_cfg ?s1) conn' d (Some creator) io1 = (y, io2)" by (metis surj_pair)
    show ?thesis
    proof (cases y)
      case (Panics v)
      with panic_sim [OF sim(2) assms(3)] e None y assms(1) show ?thesis by (auto simp: send_retry_def Let_def)
    next
      case (Returns z)
      show ?thesis
      proof (cases z)
        case (Inl putErr')
        obtain s2 io3 where x: "discardConn env conn' ?s1 io2 = (s2, io3)" by (metis surj_pair)
        from discard_sim [OF x sim(2) assms(3)] e None y Returns Inl x assms(1) show ?thesis
          by (auto simp: send_retry_def Let_def split: if_splits)
      next
        case (Inr msgID)
        with e None y Returns assms(1)
        have "send_finish env spanCtx sp start conn' (Inr msgID) ?s1 io2 = Some (r, s', io')"
          by (simp add: send_retry_def Let_def)
        from finish_sim [OF this sim(2) assms(3)] show ?thesis .
      qed
    qed
  qed
qed

lemma send_on_sim:
  assumes "send_on env ctx spanCtx sp start conn d creator s io = Some (r, s', io')"
    and "pool_sim s p" and "at_pc i (Holding c) p"
  shows "\<exists>q. runs_to p i Leaving q \<and> pool_sim s' q"
proof -
  obtain y io1 where y: "put env (s_cfg s) conn d (Some creator) io = (y, io1)" by (metis surj_pair)
  show ?thesis
  proof (cases y)
    case (Panics v)
    with panic_sim [OF assms(2,3)] y assms(1) show ?thesis by (auto simp: send_on_def)
  next
    case (Returns z)
    with y assms(1) retry_sim [OF _ assms(2,3)] finish_sim [OF _ assms(2,3)] show ?thesis
      by (cases z) (auto simp: send_on_def split: if_splits)
  qed
qed

subsection \<open>A whole call\<close>

text \<open>Entering and leaving: the wait group is incremented and decremented.\<close>

lemma sim_enter:
  assumes "pool_sim s p" and "at_pc i Idle p"
  shows "s_closed s \<Longrightarrow> \<exists>q. runs_to p i Refused q \<and> pool_sim s q"
    and "\<not> s_closed s \<Longrightarrow> \<exists>q. runs_to p i Entered q \<and> pool_sim (s\<lparr>s_wg := s_wg s + 1\<rparr>) q"
proof -
  assume "s_closed s"
  with assms show "\<exists>q. runs_to p i Refused q \<and> pool_sim s q"
    by (intro exI [of _ "goto i Refused p"]) (auto intro!: runs_to_step [of "Enter i"] simp: goto_def pool_sim_def)
next
  assume "\<not> s_closed s"
  with assms show "\<exists>q. runs_to p i Entered q \<and> pool_sim (s\<lparr>s_wg := s_wg s + 1\<rparr>) q"
    by (intro exI [of _ "goto i Entered (p\<lparr>p_wg := p_wg p + 1\<rparr>)"])
      (auto intro!: runs_to_step [of "Enter i"] simp: goto_def pool_sim_def)
qed

lemma sim_leave:
  assumes "pool_sim s p" and "at_pc i Leaving p"
  shows "\<exists>q. runs_to p i Finished q \<and> pool_sim (s\<lparr>s_wg := s_wg s - 1\<rparr>) q"
  using assms
  by (intro exI [of _ "goto i Finished (p\<lparr>p_wg := p_wg p - 1\<rparr>)"])
    (auto intro!: runs_to_step [of "Leave i"] simp: goto_def pool_sim_def)

text \<open>Whatever the acquisition returned, the rest of the send brings the goroutine to its exit.\<close>

lemma send_acquired_sim:
  assumes "send_acquired env ctx spanCtx sp start dest wrapped (a, s, io) = Some (r, s', io')"
    and "pool_sim s p" and "at_pc i pc p" and "case a of Inl _ \<Rightarrow> pc = Leaving | Inr _ \<Rightarrow> \<exists>c. pc = Holding c"
  shows "\<exists>q. runs_to p i Leaving q \<and> pool_sim s' q"
proof (cases a)
  case (Inl err)
  with assms(1,2,4) runs_to_refl [OF assms(3)] show ?thesis by auto
next
  case (Inr conn)
  with assms send_on_sim show ?thesis by fastforce
qed

lemma send_sim:
  assumes "SendWithCreator env ctx d0 creator s io = Some (r, s', io')" and "pool_sim s p" and "at_pc i Idle p"
  shows "\<exists>q pc. runs_to p i pc q \<and> pool_sim s' q \<and> pc \<in> {Idle, Refused, Finished}"
proof -
  let ?d = "if d0 = [] then s_queue s else d0"
  consider (none) "?d = []" | (closed) "?d \<noteq> []" "s_closed s" | (go) "?d \<noteq> []" "\<not> s_closed s" by blast
  then show ?thesis
  proof cases
    case none
    with runs_to_refl [OF assms(3)] assms(1,2) show ?thesis by (auto simp: SendWithCreator_def Let_def)
  next
    case closed
    from sim_enter(1) [OF assms(2,3) closed(2)] closed assms(1) show ?thesis
      by (auto simp: SendWithCreator_def Let_def)
  next
    case go
    from sim_enter(2) [OF assms(2,3) go(2)] obtain p1 where
      1: "runs_to p i Entered p1" "pool_sim (s\<lparr>s_wg := s_wg s + 1\<rparr>) p1" by blast
    obtain spanCtx sp tel1 where sp: "startProducerSpan (otel_api env) ctx ?d (s_tel s) = (spanCtx, sp, tel1)"
      by (metis prod_cases3)
    obtain start io1 where tm: "time_Now env io = (start, io1)" by (metis surj_pair)
    let ?s1 = "s\<lparr>s_wg := s_wg s + 1, s_tel := tel1\<rparr>"
    have sim1: "pool_sim ?s1 p1" using 1(2) by simp
    from assms(1) go sp tm obtain x where x: "acquireConn env ctx ?s1 io1 = Some x"
      by (cases "acquireConn env ctx ?s1 io1") (auto simp: SendWithCreator_def Let_def)
    obtain a s2 io2 where a: "x = (a, s2, io2)" by (metis prod_cases3)
    from acquire_sim [OF _ sim1 runs_to_at [OF 1(1) assms(3)]] x a obtain p2 pc where
      2: "runs_to p1 i pc p2" "pool_sim s2 p2" "case a of Inl _ \<Rightarrow> pc = Leaving | Inr _ \<Rightarrow> \<exists>c. pc = Holding c" by blast
    note at2 = runs_to_at [OF runs_to_trans [OF 1(1) 2(1)] assms(3)]
    from SendWithCreator_admitted [OF refl go sp tm x] assms(1) a obtain r3 s3 io3 where
      s3: "send_acquired env ctx spanCtx sp start ?d
            (wrappedCreator (otel_api env) tel1 spanCtx creator) (a, s2, io2) = Some (r3, s3, io3)"
        "s' = s3\<lparr>s_wg := s_wg s3 - 1\<rparr>" by (auto simp: wg_done_def)
    from send_acquired_sim [OF s3(1) 2(2) at2 2(3)] obtain p3 where
      3: "runs_to p2 i Leaving p3" "pool_sim s3 p3" by blast
    from sim_leave [OF 3(2) runs_to_at [OF 3(1) at2]] obtain q where "runs_to p3 i Finished q" "pool_sim s' q"
      using s3(2) by blast
    with runs_to_trans [OF runs_to_trans [OF runs_to_trans [OF 1(1) 2(1)] 3(1)]] show ?thesis by blast
  qed
qed

subsection \<open>Closing\<close>

lemma drain_sim:
  assumes "drain_pool env k pool io errs = (errs', pool', io')" and "p_closer p = CDrain n k"
    and "length (chan_buf pool) = length (chan_buf (p_pool p))" and "chan_cap pool = chan_cap (p_pool p)"
  shows "\<exists>ls q. run_steps pool_step ls p = Some q \<and> set ls = {CloseDrain} \<and> p_closer q = CDone n \<and>
    p_created q = p_created p \<and> p_max q = p_max p \<and> p_closed q = p_closed p \<and> p_wg q = p_wg p \<and>
    length (p_dead q) + length (chan_buf pool') = length (p_dead p) + length (chan_buf pool) \<and>
    length (chan_buf pool') = length (chan_buf (p_pool q)) \<and> chan_cap pool' = chan_cap (p_pool q)"
  using assms
proof (induction k arbitrary: pool io errs p)
  case 0
  have "run_steps pool_step [CloseDrain] p = Some (p\<lparr>p_closer := CDone n\<rparr>)" using 0(2) by simp
  with 0 show ?case by (intro exI [of _ "[CloseDrain]"] exI [of _ "p\<lparr>p_closer := CDone n\<rparr>"]) simp
next
  case (Suc k)
  have "\<exists>pool1 io1 errs1 p1. drain_pool env k pool1 io1 errs1 = (errs', pool', io') \<and>
      pool_step CloseDrain p = Some p1 \<and> p_closer p1 = CDrain n k \<and>
      length (chan_buf pool1) = length (chan_buf (p_pool p1)) \<and> chan_cap pool1 = chan_cap (p_pool p1) \<and>
      p_created p1 = p_created p \<and> p_max p1 = p_max p \<and> p_closed p1 = p_closed p \<and> p_wg p1 = p_wg p \<and>
      length (p_dead p1) + length (chan_buf pool1) = length (p_dead p) + length (chan_buf pool)"
  proof (cases "try_recv pool")
    case None
    with Suc.prems have "try_recv (p_pool p) = None" by (simp add: chan.recv_None)
    with None Suc.prems show ?thesis by force
  next
    case (Some x)
    obtain conn pool1 where x: "try_recv pool = Some (conn, pool1)" using Some by (cases x) auto
    with Suc.prems(3) have "try_recv (p_pool p) \<noteq> None" using chan.recv_None [of pool] by (auto simp: chan.recv_None)
    then obtain c pool2 where y: "try_recv (p_pool p) = Some (c, pool2)" by auto
    let ?p1 = "p\<lparr>p_pool := pool2, p_closer := CDrain n k, p_dead := c # p_dead p, p_drained := p_drained p + 1\<rparr>"
    have st: "pool_step CloseDrain p = Some ?p1" using y Suc.prems(2) by simp
    have len: "length (chan_buf pool1) = length (chan_buf pool2)" "chan_cap pool1 = chan_cap pool2"
      using chan.recv_Some [OF x] chan.recv_Some [OF y] Suc.prems(3,4) by simp_all
    from x Suc.prems(1) obtain io1 errs1 where "drain_pool env k pool1 io1 errs1 = (errs', pool', io')"
      by (auto split: prod.splits option.splits)
    with st len chan.recv_Some [OF x] show ?thesis by (intro exI [of _ pool1] exI [of _ io1] exI [of _ errs1] exI [of _ ?p1]) simp
  qed
  then obtain pool1 io1 errs1 p1 where a: "drain_pool env k pool1 io1 errs1 = (errs', pool', io')"
    "pool_step CloseDrain p = Some p1" "p_closer p1 = CDrain n k"
    "length (chan_buf pool1) = length (chan_buf (p_pool p1))" "chan_cap pool1 = chan_cap (p_pool p1)"
    and f: "p_created p1 = p_created p" "p_max p1 = p_max p" "p_closed p1 = p_closed p" "p_wg p1 = p_wg p"
    "length (p_dead p1) + length (chan_buf pool1) = length (p_dead p) + length (chan_buf pool)" by blast
  from Suc.IH [OF a(1,3,4,5)] obtain ls q where q: "run_steps pool_step ls p1 = Some q" "set ls = {CloseDrain}"
    "p_closer q = CDone n"
    "p_created q = p_created p1" "p_max q = p_max p1" "p_closed q = p_closed p1" "p_wg q = p_wg p1"
    "length (p_dead q) + length (chan_buf pool') = length (p_dead p1) + length (chan_buf pool1)"
    "length (chan_buf pool') = length (chan_buf (p_pool q))" "chan_cap pool' = chan_cap (p_pool q)" by blast
  from q(1) a(2) have "run_steps pool_step (CloseDrain # ls) p = Some q" by simp
  moreover from q(2) have "set (CloseDrain # ls) = {CloseDrain}" by simp
  moreover from q(8) f(5) have
    "length (p_dead q) + length (chan_buf pool') = length (p_dead p) + length (chan_buf pool)" by simp
  ultimately show ?case using q(3-7,9,10) f(1-4) by (metis (no_types, lifting))
qed

lemma close_sim:
  assumes "Sender_close env s io = Some (e, s', io')" and "pool_sim s p" and "\<not> s_closed s"
    and "p_closer p = CIdle" and "p_health p = None"
  shows "\<exists>ls q. run_steps pool_step ls p = Some q \<and> set ls = {CloseBegin, CloseLock, CloseDrain} \<and>
    p_closer q = CDone (nat (s_created s)) \<and> pool_sim s' q \<and>
    length (p_dead q) + length (chan_buf (s_pool s')) = length (p_dead p) + length (chan_buf (s_pool s))"
proof -
  let ?n = "nat (s_created s)"
  let ?p1 = "p\<lparr>p_closed := True, p_closer := CDrain ?n ?n\<rparr>"
  from assms(1,3) have wg: "s_wg s = 0" by (auto simp: Sender_close_def Let_def split: if_splits)
  obtain errs pool io1 where d: "drain_pool env ?n (s_pool s) io [] = (errs, pool, io1)" by (metis prod_cases3)
  with assms(1,3) wg have s': "s' = s\<lparr>s_closed := True, s_state := StateStopped, s_lastErr := None, s_pool := pool\<rparr>"
    by (auto simp: Sender_close_def Let_def)
  have st: "run_steps pool_step [CloseBegin, CloseLock] p = Some ?p1"
    using assms(2,4,5) wg by (simp add: pool_sim_def)
  have "length (chan_buf (s_pool s)) = length (chan_buf (p_pool ?p1))" "chan_cap (s_pool s) = chan_cap (p_pool ?p1)"
    using assms(2) by (simp_all add: pool_sim_def)
  from drain_sim [OF d _ this, of ?n] obtain ls q where q: "run_steps pool_step ls ?p1 = Some q" "set ls = {CloseDrain}"
    "p_closer q = CDone ?n"
    "p_created q = p_created ?p1" "p_max q = p_max ?p1" "p_closed q = p_closed ?p1" "p_wg q = p_wg ?p1"
    "length (p_dead q) + length (chan_buf pool) = length (p_dead ?p1) + length (chan_buf (s_pool s))"
    "length (chan_buf pool) = length (chan_buf (p_pool q))" "chan_cap pool = chan_cap (p_pool q)" by auto
  have "run_steps pool_step ([CloseBegin, CloseLock] @ ls) p = Some q"
    unfolding run_steps_append st by (simp add: q(1))
  moreover have "set ([CloseBegin, CloseLock] @ ls) = {CloseBegin, CloseLock, CloseDrain}" using q(2) by auto
  moreover have "pool_sim s' q" using q(4-7,9,10) assms(2) s' by (simp add: pool_sim_def)
  moreover have "length (p_dead q) + length (chan_buf (s_pool s')) = length (p_dead p) + length (chan_buf (s_pool s))"
    using q(8) s' by simp
  ultimately show ?thesis using q(3) by blast
qed

subsection \<open>The refinement\<close>

definition sender_rel :: "Sender \<Rightarrow> pool_sys \<Rightarrow> bool" where
  "sender_rel s p \<longleftrightarrow> reachable pool_step pool_init p \<and> pool_sim s p"

lemma sender_rel_bounds:
  assumes "sender_rel s p"
  shows "int (length (chan_buf (s_pool s))) \<le> s_created s" and "s_created s \<le> s_maxConns s"
proof -
  from assms have "accounts_ok p" "pool_sim s p"
    using pool.inv_reachable [of p] by (simp_all add: sender_rel_def pool_inv_def)
  then show "int (length (chan_buf (s_pool s))) \<le> s_created s" "s_created s \<le> s_maxConns s"
    by (auto simp: accounts_ok_def pool_sim_def usable_def)
qed

lemma sender_rel_run: "sender_rel s p \<Longrightarrow> runs_to p i pc q \<Longrightarrow> pool_sim s' q \<Longrightarrow> sender_rel s' q"
  by (auto simp: sender_rel_def runs_to_def intro: reachable_run)

text \<open>
  C15: the sequential sender refines the concurrent pool. A new sender is related to the pool's
  initial state; a completed \<^verbatim>\<open>SendWithCreator\<close> is a run of one goroutine of the pool to its
  end (refused, finished, or not started for lack of a destination), whatever MQ, the
  context and the creator did; a completed \<^verbatim>\<open>close\<close> is a run from the same state by the steps
  of the pool's \<^verbatim>\<open>close\<close> alone, to its end, that counts down the value of \<^verbatim>\<open>created\<close> and
  closes as many connections as the sender's pool has lost. So what
  holds in every reachable state of the pool holds of the sender after any sequence of
  calls: it never has more connections than its limit, and every pooled one is counted.
\<close>

theorem sender_refines_pool:
  "(1 \<le> n \<longrightarrow> sender_rel (WithSenderConcurrency (int n) (new_sender cfg q)) (pool_start n g)) \<and>
   (sender_rel s p \<longrightarrow>
     int (length (chan_buf (s_pool s))) \<le> s_created s \<and> s_created s \<le> s_maxConns s \<and>
     (at_pc i Idle p \<and> SendWithCreator env ctx d creator s io = Some (r, s', io') \<longrightarrow>
       (\<exists>p' pc. runs_to p i pc p' \<and> sender_rel s' p' \<and> pc \<in> {Idle, Refused, Finished})) \<and>
     (\<not> s_closed s \<and> p_closer p = CIdle \<and> p_health p = None \<and> Sender_close env s io = Some (e, s'', io'') \<longrightarrow>
       (\<exists>ls p'. run_steps pool_step ls p = Some p' \<and> set ls = {CloseBegin, CloseLock, CloseDrain} \<and>
          p_closer p' = CDone (nat (s_created s)) \<and> sender_rel s'' p' \<and>
          length (p_dead p') + length (chan_buf (s_pool s'')) = length (p_dead p) + length (chan_buf (s_pool s)))))"
proof -
  have "reachable pool_step pool_init (pool_start n g)"
    by (rule reachable.start) (auto simp: pool_init_def)
  then have "1 \<le> n \<longrightarrow> sender_rel (WithSenderConcurrency (int n) (new_sender cfg q)) (pool_start n g)"
    by (simp add: sender_rel_def pool_sim_def WithSenderConcurrency_def new_sender_def pool_start_def)
  moreover have "\<exists>p' pc. runs_to p i pc p' \<and> sender_rel s' p' \<and> pc \<in> {Idle, Refused, Finished}"
    if rel: "sender_rel s p" and "at_pc i Idle p" "SendWithCreator env ctx d creator s io = Some (r, s', io')"
    using send_sim [OF that(3) _ that(2)] rel sender_rel_run [OF rel] by (fastforce simp: sender_rel_def)
  moreover have "\<exists>ls p'. run_steps pool_step ls p = Some p' \<and> set ls = {CloseBegin, CloseLock, CloseDrain} \<and>
      p_closer p' = CDone (nat (s_created s)) \<and> sender_rel s'' p' \<and>
      length (p_dead p') + length (chan_buf (s_pool s'')) = length (p_dead p) + length (chan_buf (s_pool s))"
    if "sender_rel s p" "\<not> s_closed s" "p_closer p = CIdle" "p_health p = None"
      "Sender_close env s io = Some (e, s'', io'')"
    using close_sim [OF that(5) _ that(2-4)] that(1) unfolding sender_rel_def by (meson reachable_run)
  ultimately show ?thesis using sender_rel_bounds [of s p] by blast
qed

theorem sender_refines_pool_witness:
  "\<exists>r s' io' p' pc.
     SendWithCreator script_env 0 [] None (WithSenderConcurrency (int 1) demo_sender) (start_io quiet_script) =
       Some (r, s', io') \<and>
     runs_to (pool_start 1 1) 0 pc p' \<and> sender_rel s' p' \<and> pc \<in> {Idle, Refused, Finished}"
proof -
  let ?s = "WithSenderConcurrency (int 1) demo_sender"
  have rel: "sender_rel ?s (pool_start 1 1)"
    using sender_refines_pool [of 1 "demo_config\<lparr>OutputConcurrency := 1\<rparr>" "''Q.OUT''" 1, THEN conjunct1]
    by (simp add: demo_sender_def)
  have "sender_inv 0 ?s" by (rule option_sender_inv [OF demo_sender_inv]) (simp add: demo_sender_def new_sender_def)
  from SendWithCreator_progress [OF this, of script_env 0 "[]" None "start_io quiet_script"] obtain r s' io' where
    run: "SendWithCreator script_env 0 [] None ?s (start_io quiet_script) = Some (r, s', io')" by blast
  moreover have "at_pc 0 Idle (pool_start 1 1)" by (simp add: at_pc_def pool_start_def)
  ultimately have "\<exists>p' pc. runs_to (pool_start 1 1) 0 pc p' \<and> sender_rel s' p' \<and> pc \<in> {Idle, Refused, Finished}"
    using rel sender_refines_pool [of _ _ _ _ ?s "pool_start 1 1" 0 script_env 0 "[]" None "start_io quiet_script" r s' io',
        THEN conjunct2] by blast
  with run show ?thesis by blast
qed

end
