(* ===== verification/MQ_Listener.thy ===== *)
theory MQ_Listener
  imports MQ_Sender
begin

unbundle bit_operations_syntax

text \<open>
  \<^verbatim>\<open>src/mq/listener.go\<close>: \<^verbatim>\<open>Start\<close> and \<^verbatim>\<open>close\<close>, one consumer from its dial to its exit, the conversion of received
  messages, handler and callback panics, and the options. Loops that need not end are
  partial functions: \<^term>\<open>None\<close> means that the call never returns.
\<close>

text \<open>
  \<open>l_running\<close>: \<^verbatim>\<open>l.done\<close> exists and is not closed yet, that is, a \<^verbatim>\<open>Start\<close> is in progress.
\<close>

record 'w Listener =
  l_cfg :: Config
  l_queue :: string
  l_concurrency :: int
  l_maxRetries :: int
  l_queueOpts :: QueueOptions
  l_tel :: mqTelemetry
  l_onError :: "'w ListenerErrorHandler option"
  l_started :: bool
  l_closed :: bool
  l_running :: bool
  l_states :: "ConnectionState list"

definition WithListenerConcurrency :: "int \<Rightarrow> 'w Listener \<Rightarrow> 'w Listener" where
  "WithListenerConcurrency n l = (if 1 \<le> n then l\<lparr>l_concurrency := n\<rparr> else l)"

definition WithListenerQueueOptions :: "QueueOptions \<Rightarrow> 'w Listener \<Rightarrow> 'w Listener" where
  "WithListenerQueueOptions opts l = l\<lparr>l_queueOpts := opts\<rparr>"

definition WithListenerMaxRetries :: "int \<Rightarrow> 'w Listener \<Rightarrow> 'w Listener" where
  "WithListenerMaxRetries n l = (if 0 \<le> n then l\<lparr>l_maxRetries := n\<rparr> else l)"

definition WithListenerErrorHandler :: "'w ListenerErrorHandler option \<Rightarrow> 'w Listener \<Rightarrow> 'w Listener" where
  "WithListenerErrorHandler h l = l\<lparr>l_onError := h\<rparr>"

definition initStates :: "'w Listener \<Rightarrow> 'w Listener" where
  "initStates l = l\<lparr>l_states := replicate (nat (l_concurrency l)) StateUnknown\<rparr>"

text \<open>The struct \<^verbatim>\<open>NewListener\<close> of \<^verbatim>\<open>src/mq/client.go\<close> builds before it applies the options.\<close>

definition new_listener :: "Config \<Rightarrow> string \<Rightarrow> 'w Listener" where
  "new_listener cfg queueName =
     \<lparr>l_cfg = cfg, l_queue = queueName, l_concurrency = InputConcurrency cfg,
      l_maxRetries = MaxRetries cfg, l_queueOpts = zero_queue_options,
      l_tel = newMQTelemetry (Telemetry cfg), l_onError = None, l_started = False,
      l_closed = False, l_running = False, l_states = []\<rparr>"

definition setConsumerState :: "int \<Rightarrow> ConnectionState \<Rightarrow> 'w Listener \<Rightarrow> 'w Listener" where
  "setConsumerState idx st l =
     (if 0 \<le> idx \<and> idx < int (length (l_states l))
      then l\<lparr>l_states := (l_states l)[nat idx := st]\<rparr> else l)"

definition l_on_tel :: "(mqTelemetry \<Rightarrow> mqTelemetry) \<Rightarrow> 'w Listener \<Rightarrow> 'w Listener" where
  "l_on_tel f l = l\<lparr>l_tel := f (l_tel l)\<rparr>"

subsection \<open>Messages and callbacks\<close>

definition messageFromMQMD :: "mqmd \<Rightarrow> bytes \<Rightarrow> Message" where
  "messageFromMQMD md body =
     empty_message\<lparr>ID := EncodeToString (MsgId md), CorrelationID := EncodeToString (CorrelId md),
       ReplyToQueue := ReplyToQ md, ReplyToQueueManager := ReplyToQMgr md,
       Body := go_copy (replicate (length body) 0) body, UserProperties := Some Map.empty\<rparr>"

definition handler_panic :: "string \<Rightarrow> go_error" where
  "handler_panic v = Errorf (sentinel_text ErrHandlerPanic @ '': '' @ v) [Sentinel ErrHandlerPanic]"

definition invokeHandler ::
  "ctx \<Rightarrow> 'w MessageHandler \<Rightarrow> Message \<Rightarrow> 'w io \<Rightarrow> go_error option \<times> Message \<times> 'w io" where
  "invokeHandler ctx handler msg io =
     (case handler ctx msg (world io) of
        (Returns err, msg', w) \<Rightarrow> (err, msg', emit (EHandler msg) w io)
      | (Panics v, msg', w) \<Rightarrow> (Some (handler_panic v), msg', emit (EHandler msg) w io))"

definition InvokeHandlerSafe :: "ctx \<Rightarrow> 'w MessageHandler \<Rightarrow> Message \<Rightarrow> 'w io \<Rightarrow> 'w io" where
  "InvokeHandlerSafe ctx handler msg io = snd (snd (invokeHandler ctx handler msg io))"

text \<open>A panic of the callback is recovered and dropped.\<close>

definition reportError ::
  "'w Listener \<Rightarrow> ctx \<Rightarrow> Message option \<Rightarrow> go_error option \<Rightarrow> 'w io \<Rightarrow> 'w io" where
  "reportError l ctx msg err io =
     (case (l_onError l, err) of
        (Some f, Some e) \<Rightarrow> (case f ctx msg e (world io) of (_, w) \<Rightarrow> emit (EReport msg e) w io)
      | _ \<Rightarrow> io)"

subsection \<open>Consuming\<close>

definition consume_options :: "'w env \<Rightarrow> mqgmo" where
  "consume_options env =
     (newMQGMO env)\<lparr>gmo_Options := MQGMO_WAIT env OR MQGMO_NO_SYNCPOINT env,
       gmo_MatchOptions := 0, gmo_WaitInterval := 1000\<rparr>"

definition dispatch ::
  "'w env \<Rightarrow> ctx \<Rightarrow> 'w MessageHandler \<Rightarrow> mqmd \<Rightarrow> bytes \<Rightarrow> 'w Listener \<Rightarrow> 'w io \<Rightarrow> 'w Listener \<times> 'w io" where
  "dispatch env ctx handler md data l io =
     (let msg = messageFromMQMD md data;
          msgCtx = extractFromMessage (otel_api env) (l_tel l) ctx msg in
      case startConsumerSpan (otel_api env) msgCtx (l_queue l) (ID msg) (l_tel l) of
        (spanCtx, sp, tel1) \<Rightarrow>
      case time_Now env io of (start, io1) \<Rightarrow>
      case invokeHandler spanCtx handler msg io1 of (handlerErr, msg', io2) \<Rightarrow>
      let tel2 = (if handlerErr \<noteq> None then incError spanCtx ''handler_failed'' tel1 else tel1);
          io3 = (if handlerErr \<noteq> None then reportError l spanCtx (Some msg') handlerErr io2 else io2) in
      case time_Now env io3 of (now, io4) \<Rightarrow>
      (l\<lparr>l_tel := endSpan sp handlerErr (recordReceiveDuration spanCtx (now - start) tel2)\<rparr>, io4))"

text \<open>One turn of the receive loop: \<open>Some r\<close> when the loop returns \<open>r\<close>, \<^term>\<open>None\<close> to go on.\<close>

definition consume_once ::
  "'w env \<Rightarrow> ctx \<Rightarrow> handle \<Rightarrow> 'w MessageHandler \<Rightarrow> 'w Listener \<Rightarrow> 'w io \<Rightarrow>
   go_error option option \<times> 'w Listener \<times> 'w io" where
  "consume_once env ctx q handler l io =
     (case ctx_Err env ctx io of
        (Some _, io1) \<Rightarrow> (Some None, l, io1)
      | (None, io1) \<Rightarrow>
          (case mq_Get env q (newMQMD env) (consume_options env) (4 * 1024 * 1024) io1 of
             (Inl err, io2) \<Rightarrow>
               (if IsEmptyQueueError (Some err) then (None, l, io2) else (Some (Some err), l, io2))
           | (Inr (md, data), io2) \<Rightarrow> (None, dispatch env ctx handler md data l io2)))"

partial_function (option) consume_iter ::
  "'w env \<Rightarrow> ctx \<Rightarrow> handle \<Rightarrow> 'w MessageHandler \<Rightarrow> 'w Listener \<Rightarrow> 'w io \<Rightarrow>
   (go_error option \<times> 'w Listener \<times> 'w io) option" where
  "consume_iter env ctx q handler l io =
     (case consume_once env ctx q handler l io of
        (Some r, l', io') \<Rightarrow> Some (r, l', io')
      | (None, l', io') \<Rightarrow> consume_iter env ctx q handler l' io')"

definition consumer_open_options :: "'w env \<Rightarrow> QueueOptions \<Rightarrow> 32 word" where
  "consumer_open_options env opts =
     applyQueueOpenOptions (MQOO_READ_AHEAD env) opts
       (MQOO_INPUT_AS_Q_DEF env OR MQOO_FAIL_IF_QUIESCING env)"

definition consumeLoop ::
  "'w env \<Rightarrow> ctx \<Rightarrow> connection \<Rightarrow> 'w MessageHandler \<Rightarrow> 'w Listener \<Rightarrow> 'w io \<Rightarrow>
   (go_error option \<times> 'w Listener \<times> 'w io) option" where
  "consumeLoop env ctx conn handler l io =
     (case mq_Open env (queueManager conn) ((newMQOD env)\<lparr>ObjectName := l_queue l\<rparr>)
             (consumer_open_options env (l_queueOpts l)) io of
        (Inl err, io1) \<Rightarrow>
          Some (Some (wrap_error (''commons-mq-go: failed to open queue '' @ quote (l_queue l))
                        (sanitizeError err)), l, io1)
      | (Inr (q, od), io1) \<Rightarrow>
          map_option (\<lambda>(r, l', io'). (r, l', mq_Close env q io')) (consume_iter env ctx q handler l io1))"

partial_function (option) consumer_iter ::
  "'w env \<Rightarrow> ctx \<Rightarrow> 'w MessageHandler \<Rightarrow> int \<Rightarrow> connection \<Rightarrow> 'w Listener \<Rightarrow> 'w io \<Rightarrow>
   (go_error option \<times> connection \<times> 'w Listener \<times> 'w io) option" where
  "consumer_iter env ctx handler idx conn l io =
     (case ctx_Err env ctx io of
        (Some _, io1) \<Rightarrow> Some (None, conn, l, io1)
      | (None, io1) \<Rightarrow>
          (case consumeLoop env ctx conn handler l io1 of
             None \<Rightarrow> None
           | Some (None, l2, io2) \<Rightarrow> Some (None, conn, l2, io2)
           | Some (Some loopErr, l2, io2) \<Rightarrow>
               (case ctx_Err env ctx io2 of
                  (Some _, io3) \<Rightarrow> Some (None, conn, l2, io3)
                | (None, io3) \<Rightarrow>
                    (if IsConnectionError (Some loopErr)
                     then (case Reconnect env ctx conn io3 of
                             (Some reconnErr, conn', io4) \<Rightarrow>
                               (case ctx_Err env ctx io4 of
                                  (Some _, io5) \<Rightarrow>
                                    Some (None, conn', setConsumerState idx StateReconnecting l2, io5)
                                | (None, io5) \<Rightarrow>
                                    Some (Some reconnErr, conn',
                                      setConsumerState idx StateReconnecting l2, io5))
                           | (None, conn', io4) \<Rightarrow>
                               consumer_iter env ctx handler idx conn'
                                 (setConsumerState idx StateConnected
                                   (setConsumerState idx StateReconnecting l2)) io4)
                     else Some (Some loopErr, conn, l2, io3)))))"

text \<open>The body of \<^verbatim>\<open>runConsumer\<close>, with its deferred calls once a connection exists.\<close>

definition consumer_body ::
  "'w env \<Rightarrow> ctx \<Rightarrow> 'w MessageHandler \<Rightarrow> int \<Rightarrow> 'w Listener \<Rightarrow> 'w io \<Rightarrow>
   (go_error option \<times> 'w Listener \<times> 'w io) option" where
  "consumer_body env ctx handler idx l io =
     (case ctx_Err env ctx io of
        (Some _, io1) \<Rightarrow> Some (None, l, io1)
      | (None, io1) \<Rightarrow>
          (let cfg = (l_cfg l)\<lparr>MaxRetries := l_maxRetries l\<rparr>;
               l1 = setConsumerState idx StateReconnecting l in
           case newConnectionWithRetry env ctx cfg io1 of
             (Inl err, io2) \<Rightarrow>
               (case ctx_Err env ctx io2 of
                  (Some _, io3) \<Rightarrow> Some (None, l1, io3)
                | (None, io3) \<Rightarrow> Some (Some err, l1, io3))
           | (Inr conn, io2) \<Rightarrow>
               (case consumer_iter env ctx handler idx conn
                       (l_on_tel incConnActive (setConsumerState idx StateConnected l1)) io2 of
                  None \<Rightarrow> None
                | Some (r, conn', l2, io3) \<Rightarrow>
                    (let l3 = l_on_tel decConnActive l2 in
                     case conn_Close env conn' io3 of (_, _, io4) \<Rightarrow> Some (r, l3, io4)))))"

definition runConsumer ::
  "'w env \<Rightarrow> ctx \<Rightarrow> 'w MessageHandler \<Rightarrow> int \<Rightarrow> 'w Listener \<Rightarrow> 'w io \<Rightarrow>
   (go_error option \<times> 'w Listener \<times> 'w io) option" where
  "runConsumer env ctx handler idx l io =
     (case consumer_body env ctx handler idx l io of
        None \<Rightarrow> None
      | Some (Some err, l1, io1) \<Rightarrow>
          (let l2 = setConsumerState idx StateFailed l1 in
           Some (Some err, l2, reportError l2 ctx None (Some err) io1))
      | Some (None, l1, io1) \<Rightarrow> Some (None, setConsumerState idx StateStopped l1, io1))"

subsection \<open>Starting and closing\<close>

text \<open>
  The consumer goroutines, run to completion one after the other in the order in which
  they finish; the error channel has room for all of them and collects their errors in
  that order.
\<close>

fun run_consumers ::
  "'w env \<Rightarrow> ctx \<Rightarrow> 'w MessageHandler \<Rightarrow> int list \<Rightarrow> 'w Listener \<Rightarrow> 'w io \<Rightarrow>
   (go_error list \<times> 'w Listener \<times> 'w io) option" where
  "run_consumers env runCtx handler [] l io = Some ([], l, io)"
| "run_consumers env runCtx handler (i # is) l io =
     (case runConsumer env runCtx handler i l io of
        None \<Rightarrow> None
      | Some (r, l1, io1) \<Rightarrow>
          (case run_consumers env runCtx handler is l1 io1 of
             None \<Rightarrow> None
           | Some (errs, l2, io2) \<Rightarrow>
               Some ((case r of None \<Rightarrow> errs | Some e \<Rightarrow> e # errs), l2, io2)))"

definition started_twice :: go_error where
  "started_twice = ErrorString ''commons-mq-go: Listener.Start may only be called once''"

text \<open>
  \<open>runCtx\<close> is the context \<^verbatim>\<open>context.WithCancel(ctx)\<close> returns; \<open>order\<close> lists the consumers
  \<open>0\<close> to \<^verbatim>\<open>concurrency - 1\<close> in the order in which they finish.
\<close>

definition Start ::
  "'w env \<Rightarrow> ctx \<Rightarrow> 'w MessageHandler \<Rightarrow> int list \<Rightarrow> 'w Listener \<Rightarrow> 'w io \<Rightarrow>
   (go_error option \<times> 'w Listener \<times> 'w io) option" where
  "Start env runCtx handler order l io =
     (if l_closed l then Some (Some (Sentinel ErrClientClosed), l, io)
      else if l_started l then Some (Some started_twice, l, io)
      else
        (case run_consumers env runCtx handler order (l\<lparr>l_started := True, l_running := True\<rparr>) io of
           None \<Rightarrow> None
         | Some (errs, l1, io1) \<Rightarrow> Some (errors_join errs, l1\<lparr>l_running := False\<rparr>, io1)))"

text \<open>With no other goroutine moving, waiting for a running \<^verbatim>\<open>Start\<close> does not end.\<close>

definition Listener_close :: "'w Listener \<Rightarrow> 'w io \<Rightarrow> (go_error option \<times> 'w Listener \<times> 'w io) option" where
  "Listener_close l io =
     (if l_closed l then Some (None, l, io)
      else if l_running l then None
      else Some (None, l\<lparr>l_closed := True\<rparr>, io))"

interpretation listener_life: closable Listener_close l_closed
  by unfold_locales (auto simp: Listener_close_def split: if_splits)

subsection \<open>Received messages\<close>

lemma messageFromMQMD_simps [simp]:
  "ID (messageFromMQMD md body) = EncodeToString (MsgId md)"
  "CorrelationID (messageFromMQMD md body) = EncodeToString (CorrelId md)"
  "ReplyToQueue (messageFromMQMD md body) = ReplyToQ md"
  "ReplyToQueueManager (messageFromMQMD md body) = ReplyToQMgr md"
  "Body (messageFromMQMD md body) = body"
  "UserProperties (messageFromMQMD md body) = Some Map.empty"
  by (simp_all add: messageFromMQMD_def go_copy_full)

text \<open>
  C33: a message survives the trip. If the queue manager hands a consumer the descriptor and
  body a sender put, the received message has the body, the reply-to queue and the
  24-byte correlation id the creator chose, and the reply-to queue manager unless the
  sender filled in its own; its user properties are empty whatever the creator set.
\<close>

theorem put_receive_roundtrip:
  assumes "CorrelationID msg = EncodeToString b" and "length b = 24"
    and "length (CorrelId (newMQMD env)) = 24"
  shows "messageFromMQMD (put_descriptor env cfg msg) (Body msg) =
    empty_message\<lparr>ID := EncodeToString (MsgId (newMQMD env)), CorrelationID := CorrelationID msg,
      ReplyToQueue := ReplyToQueue msg,
      ReplyToQueueManager :=
        (if ReplyToQueue msg \<noteq> [] \<and> ReplyToQueueManager msg = [] \<and> SetQueueManager cfg
         then QueueManagerName cfg else ReplyToQueueManager msg),
      Body := Body msg, UserProperties := Some Map.empty\<rparr>"
proof -
  have "b \<noteq> []" using assms(2) by auto
  with assms have "CorrelId (put_descriptor env cfg msg) = b"
    by (simp add: put_descriptor_fields apply_correlation_hex go_copy_full)
  then show ?thesis using assms(1)
    by (simp add: messageFromMQMD_def put_descriptor_fields go_copy_full)
qed

theorem put_receive_roundtrip_witness:
  "Body (messageFromMQMD (put_descriptor script_env demo_config
      (empty_message\<lparr>CorrelationID := EncodeToString (replicate 24 5), Body := [1, 2, 3]\<rparr>)) [1, 2, 3]) = [1, 2, 3]"
  using put_receive_roundtrip [of "empty_message\<lparr>CorrelationID := EncodeToString (replicate 24 5), Body := [1, 2, 3]\<rparr>"
      "replicate 24 5" script_env demo_config]
  by (simp add: script_env_def script_mqmd_def)

subsection \<open>The receive loop\<close>

text \<open>The messages a segment of the trace received and those it handed to the handler.\<close>

fun received :: "mq_event list \<Rightarrow> Message list" where
  "received [] = []"
| "received (EGet _ _ _ (Inr (md, data)) # evs) = messageFromMQMD md data # received evs"
| "received (_ # evs) = received evs"

fun handled :: "mq_event list \<Rightarrow> Message list" where
  "handled [] = []"
| "handled (EHandler msg # evs) = msg # handled evs"
| "handled (_ # evs) = handled evs"

fun is_consume :: "mq_event \<Rightarrow> bool" where
  "is_consume (EGet _ _ _ _) = True"
| "is_consume (EHandler _) = True"
| "is_consume (EReport _ _) = True"
| "is_consume _ = False"

lemma received_append [simp]: "received (xs @ ys) = received xs @ received ys"
  by (induction xs rule: received.induct) simp_all

lemma handled_append [simp]: "handled (xs @ ys) = handled xs @ handled ys"
  by (induction xs rule: handled.induct) simp_all

lemma consume_handles: "list_all is_consume seg \<Longrightarrow> foldl handle_step m seg = m"
proof (induction seg)
  case (Cons e seg)
  then show ?case by (cases e) simp_all
qed simp

lemma consume_live: "list_all is_consume seg \<Longrightarrow> foldl live_step cur seg = cur"
proof (induction seg)
  case (Cons e seg)
  then show ?case by (cases e) simp_all
qed simp

text \<open>What turns of the receive loop do to the listener and the trace.\<close>

definition consumed :: "'w Listener \<times> 'w io \<Rightarrow> 'w Listener \<times> 'w io \<Rightarrow> bool" where
  "consumed x y \<longleftrightarrow>
     (\<exists>seg. trace (snd y) = trace (snd x) @ seg \<and> handled seg = received seg \<and> list_all is_consume seg) \<and>
     (\<exists>t. fst y = (fst x)\<lparr>l_tel := t\<rparr>) \<and>
     open_spans (l_tel (fst y)) = open_spans (l_tel (fst x)) \<and>
     activeConns (l_tel (fst y)) = activeConns (l_tel (fst x))"

lemma consumed_refl: "trace io' = trace io \<Longrightarrow> consumed (l, io) (l, io')"
  by (auto simp: consumed_def intro: exI [of _ "l_tel l"])

lemma consumed_trans:
  assumes "consumed x y" and "consumed y z"
  shows "consumed x z"
proof -
  from assms obtain a b where "trace (snd y) = trace (snd x) @ a" "trace (snd z) = trace (snd y) @ b"
    "handled a = received a" "list_all is_consume a" "handled b = received b" "list_all is_consume b"
    by (auto simp: consumed_def)
  then have "trace (snd z) = trace (snd x) @ (a @ b) \<and> handled (a @ b) = received (a @ b) \<and>
      list_all is_consume (a @ b)" by simp
  moreover have "\<exists>t. fst z = (fst x)\<lparr>l_tel := t\<rparr>" using assms by (auto simp: consumed_def)
  ultimately show ?thesis using assms unfolding consumed_def by metis
qed

lemma invokeHandler_cases:
  assumes "invokeHandler ctx handler msg io = (e, msg', io')"
  shows "trace io' = trace io @ [EHandler msg]"
  using assms by (auto simp: invokeHandler_def split: prod.splits outcome.splits)

lemma reportError_trace:
  "\<exists>rep. trace (reportError l ctx msg err io) = trace io @ rep \<and> (rep = [] \<or> (\<exists>e. rep = [EReport msg e]))"
  by (cases "l_onError l"; cases err) (auto simp: reportError_def split: prod.splits)

lemma dispatch_trace:
  assumes "dispatch env ctx handler md data l io = (l', io')"
  shows "\<exists>rep. trace io' = trace io @ EHandler (messageFromMQMD md data) # rep \<and>
    (rep = [] \<or> (\<exists>m e. rep = [EReport (Some m) e])) \<and>
    (\<exists>t. l' = l\<lparr>l_tel := t\<rparr>) \<and> open_spans (l_tel l') = open_spans (l_tel l) \<and>
    activeConns (l_tel l') = activeConns (l_tel l)"
proof -
  let ?msg = "messageFromMQMD md data"
  let ?mc = "extractFromMessage (otel_api env) (l_tel l) ctx ?msg"
  obtain sc sp tel1 where sp: "startConsumerSpan (otel_api env) ?mc (l_queue l) (ID ?msg) (l_tel l) = (sc, sp, tel1)"
    by (cases "startConsumerSpan (otel_api env) ?mc (l_queue l) (ID ?msg) (l_tel l)")
  obtain start io1 where t1: "time_Now env io = (start, io1)" by (cases "time_Now env io")
  obtain e msg' io2 where h: "invokeHandler sc handler ?msg io1 = (e, msg', io2)"
    by (cases "invokeHandler sc handler ?msg io1")
  define io3 where "io3 = (if e \<noteq> None then reportError l sc (Some msg') e io2 else io2)"
  obtain now io4 where t2: "time_Now env io3 = (now, io4)" by (cases "time_Now env io3")
  have io': "io' = io4" and l': "l' = l\<lparr>l_tel := endSpan sp e (recordReceiveDuration sc (now - start)
      (if e \<noteq> None then incError sc ''handler_failed'' tel1 else tel1))\<rparr>"
    using assms sp t1 h t2 by (simp_all add: dispatch_def Let_def io3_def)
  have "trace io4 = trace io3" "trace io1 = trace io"
    using time_Now_trace [of env io3] time_Now_trace [of env io] t1 t2 by simp_all
  moreover have "\<exists>rep. trace io3 = trace io2 @ rep \<and> (rep = [] \<or> (\<exists>m e. rep = [EReport (Some m) e]))"
    using reportError_trace [of l sc "Some msg'" e io2] by (cases "e = None") (auto simp: io3_def)
  ultimately show ?thesis
    using io' l' invokeHandler_cases [OF h] startSpan_spec(2) [OF sp] by auto
qed

lemma consume_once_spec:
  assumes "consume_once env ctx q handler l io = (x, l', io')"
  shows "consumed (l, io) (l', io') \<and>
    (case x of
       None \<Rightarrow> True
     | Some None \<Rightarrow> (\<exists>e. ctx_reports env ctx e)
     | Some (Some e) \<Rightarrow> \<not> IsEmptyQueueError (Some e))"
proof -
  obtain p io1 where poll: "ctx_Err env ctx io = (p, io1)" by (cases "ctx_Err env ctx io")
  note tr = ctx_Err_counts [OF poll]
  obtain g io2 where get: "mq_Get env q (newMQMD env) (consume_options env) (4 * 1024 * 1024) io1 = (g, io2)"
    by (cases "mq_Get env q (newMQMD env) (consume_options env) (4 * 1024 * 1024) io1")
  then have tr2: "trace io2 = trace io @ [EGet q (newMQMD env) (consume_options env) g]"
    using tr by (auto simp: mq_Get_def split: prod.splits)
  show ?thesis
  proof (cases p)
    case (Some e)
    with poll have "ctx_reports env ctx e"
      by (auto simp: ctx_Err_def ctx_reports_def split: prod.splits) (metis fst_conv)
    with assms poll Some tr show ?thesis by (auto simp: consume_once_def consumed_refl)
  next
    case None
    show ?thesis
    proof (cases g)
      case (Inl err)
      with tr2 have "consumed (l, io) (l, io2)"
        by (auto simp: consumed_def intro: exI [of _ "l_tel l"])
      with assms poll None get Inl show ?thesis by (auto simp: consume_once_def split: if_splits)
    next
      case (Inr y)
      obtain md data where y: "y = (md, data)" by (cases y)
      from assms poll None get Inr y have x: "x = None" and
        d: "dispatch env ctx handler md data l io2 = (l', io')"
        by (auto simp: consume_once_def)
      from dispatch_trace [OF d] tr2 Inr y have "consumed (l, io) (l', io')"
        by (auto simp: consumed_def)
      with x show ?thesis by simp
    qed
  qed
qed

lemma consume_iter_spec:
  assumes "consume_iter env ctx q handler l io = Some y"
  shows "consumed (l, io) (snd y) \<and>
    (case fst y of
       None \<Rightarrow> (\<exists>e. ctx_reports env ctx e)
     | Some e \<Rightarrow> \<not> IsEmptyQueueError (Some e))"
  using assms
proof (induction rule: consume_iter.raw_induct [rotated 1, consumes 1])
  case (1 iter env ctx q handler l io y)
  obtain x l1 io1 where once: "consume_once env ctx q handler l io = (x, l1, io1)"
    by (cases "consume_once env ctx q handler l io")
  note spec = consume_once_spec [OF once]
  show ?case
  proof (cases x)
    case None
    with 1 once have "iter env ctx q handler l1 io1 = Some y" by simp
    from 1(1) [OF this] spec show ?thesis by (blast intro: consumed_trans)
  next
    case (Some r)
    with 1 once have "y = (r, l1, io1)" by simp
    with spec Some show ?thesis by (cases r) simp_all
  qed
qed

lemma consumeLoop_spec:
  assumes "consumeLoop env ctx conn handler l io = Some (r, l', io')"
  shows "\<exists>seg t. trace io' = trace io @ seg \<and> handled seg = received seg \<and>
    open_handles (trace io') = open_handles (trace io) \<and>
    (\<forall>cur. foldl live_step cur seg = cur) \<and>
    l' = l\<lparr>l_tel := t\<rparr> \<and> open_spans t = open_spans (l_tel l) \<and>
    activeConns t = activeConns (l_tel l) \<and>
    (case r of
       None \<Rightarrow> (\<exists>e. ctx_reports env ctx e)
     | Some e \<Rightarrow> \<not> IsEmptyQueueError (Some e) \<or>
         (\<exists>err. seg = [EOpen (queueManager conn) (l_queue l)
            (consumer_open_options env (l_queueOpts l)) (Inl err)]))"
proof -
  let ?opts = "consumer_open_options env (l_queueOpts l)"
  obtain o1 io1 where op: "mq_Open env (queueManager conn) ((newMQOD env)\<lparr>ObjectName := l_queue l\<rparr>) ?opts io = (o1, io1)"
    by (cases "mq_Open env (queueManager conn) ((newMQOD env)\<lparr>ObjectName := l_queue l\<rparr>) ?opts io")
  then have tr: "trace io1 = trace io @ [EOpen (queueManager conn) (l_queue l) ?opts (map_sum id fst o1)]"
    by (auto simp: mq_Open_def split: prod.splits)
  show ?thesis
  proof (cases o1)
    case (Inl err)
    with assms op tr show ?thesis
      by (auto simp: consumeLoop_def intro!: exI [of _ "l_tel l"])
  next
    case (Inr x)
    then obtain q od where x: "o1 = Inr (q, od)" by (cases x) simp
    with assms op obtain io2 where it: "consume_iter env ctx q handler l io1 = Some (r, l', io2)"
      and io': "io' = mq_Close env q io2"
      by (auto simp: consumeLoop_def)
    from consume_iter_spec [OF it] obtain seg where
      seg: "trace io2 = trace io1 @ seg" "handled seg = received seg" "list_all is_consume seg" and
      l: "\<exists>t. l' = l\<lparr>l_tel := t\<rparr>" "open_spans (l_tel l') = open_spans (l_tel l)"
      "activeConns (l_tel l') = activeConns (l_tel l)" and
      r: "case r of None \<Rightarrow> (\<exists>e. ctx_reports env ctx e) | Some e \<Rightarrow> \<not> IsEmptyQueueError (Some e)"
      by (auto simp: consumed_def)
    let ?seg = "EOpen (queueManager conn) (l_queue l) ?opts (Inr q) # seg @ [EClose q]"
    have "trace io' = trace io @ ?seg" using io' seg(1) tr x by (simp add: mq_Close_def)
    moreover from this have "open_handles (trace io') = open_handles (trace io)"
      "foldl live_step cur ?seg = cur" for cur
      by (simp_all add: consume_handles [OF seg(3)] consume_live [OF seg(3)])
    ultimately show ?thesis using seg(2) l r
      by (intro exI [of _ ?seg]) (auto split: option.splits)
  qed
qed

text \<open>
  C9: delivery. Whenever \<^verbatim>\<open>consumeLoop\<close> returns, it has handed every message it received to
  the handler exactly once and in the order of arrival, whatever the handler and the
  error callback returned or panicked with; the queue handle it opened is closed, every
  span it started is ended, and of the listener only the telemetry has changed. It
  returns nil only because the context is done, and an empty queue is never an error.
\<close>

theorem consume_loop_delivers:
  assumes "consumeLoop env ctx conn handler l io = Some (r, l', io')"
  shows "\<exists>seg t. trace io' = trace io @ seg \<and> handled seg = received seg \<and>
    open_handles (trace io') = open_handles (trace io) \<and>
    l' = l\<lparr>l_tel := t\<rparr> \<and> open_spans t = open_spans (l_tel l) \<and>
    activeConns t = activeConns (l_tel l) \<and>
    (case r of
       None \<Rightarrow> (\<exists>e. ctx_reports env ctx e)
     | Some e \<Rightarrow> \<not> IsEmptyQueueError (Some e) \<or>
         (\<exists>err. seg = [EOpen (queueManager conn) (l_queue l)
            (consumer_open_options env (l_queueOpts l)) (Inl err)]))"
  using consumeLoop_spec [OF assms] by blast

subsection \<open>One consumer\<close>

text \<open>Of the listener at most the telemetry and the state of consumer \<open>idx\<close> changed.\<close>

definition only_slot :: "int \<Rightarrow> 'w Listener \<Rightarrow> 'w Listener \<Rightarrow> bool" where
  "only_slot idx l l' \<longleftrightarrow>
     l_cfg l' = l_cfg l \<and> l_queue l' = l_queue l \<and> l_concurrency l' = l_concurrency l \<and>
     l_maxRetries l' = l_maxRetries l \<and> l_queueOpts l' = l_queueOpts l \<and>
     l_onError l' = l_onError l \<and> l_started l' = l_started l \<and> l_closed l' = l_closed l \<and>
     l_running l' = l_running l \<and>
     (\<forall>st. (l_states l')[nat idx := st] = (l_states l)[nat idx := st]) \<and>
     open_spans (l_tel l') = open_spans (l_tel l)"

lemma only_slot_trans: "only_slot idx l l' \<Longrightarrow> only_slot idx l' l'' \<Longrightarrow> only_slot idx l l''"
  by (simp add: only_slot_def)

lemma only_slot_tel:
  "open_spans t = open_spans (l_tel l) \<Longrightarrow> only_slot idx l (l\<lparr>l_tel := t\<rparr>)"
  by (simp add: only_slot_def)

lemma only_slot_refl [simp]: "only_slot idx l l"
  by (simp add: only_slot_def)

lemma setConsumerState_eq:
  "0 \<le> idx \<Longrightarrow> setConsumerState idx st l = l\<lparr>l_states := (l_states l)[nat idx := st]\<rparr>"
  by (auto simp: setConsumerState_def list_update_beyond)

lemma l_tel_simps [simp]:
  "l_tel (setConsumerState idx st l) = l_tel l" "l_tel (l_on_tel f l) = f (l_tel l)"
  by (simp_all add: setConsumerState_def l_on_tel_def)

lemma only_slot_state [simp]:
  "0 \<le> idx \<Longrightarrow> only_slot idx l (setConsumerState idx st l') = only_slot idx l l'"
  "0 \<le> idx \<Longrightarrow> only_slot idx (setConsumerState idx st l) l' = only_slot idx l l'"
  by (simp_all add: only_slot_def setConsumerState_eq)

lemma only_slot_on_tel [simp]:
  "(\<And>t. open_spans (f t) = open_spans t) \<Longrightarrow> only_slot idx l (l_on_tel f l') = only_slot idx l l'"
  "(\<And>t. open_spans (f t) = open_spans t) \<Longrightarrow> only_slot idx (l_on_tel f l) l' = only_slot idx l l'"
  by (simp_all add: only_slot_def l_on_tel_def)

text \<open>One turn of the receive loop, and one attempt to reconnect, on the connection of a consumer.\<close>

lemma consume_turn:
  assumes loop: "consumeLoop env ctx conn handler l io1 = Some (le, l2, io2)"
    and tr: "trace io1 = trace io" and link: "link_ok io0 conn io"
  shows "only_slot idx l l2" and "activeConns (l_tel l2) = activeConns (l_tel l)"
    and "link_ok io0 conn io2" and "open_handles (trace io2) = open_handles (trace io)"
proof -
  from consumeLoop_spec [OF loop] obtain seg t where
    seg: "trace io2 = trace io1 @ seg" "\<And>cur. foldl live_step cur seg = cur"
      "open_handles (trace io2) = open_handles (trace io1)" and
    l2: "l2 = l\<lparr>l_tel := t\<rparr>" "open_spans t = open_spans (l_tel l)" "activeConns t = activeConns (l_tel l)"
    by blast
  from l2 show "only_slot idx l l2" "activeConns (l_tel l2) = activeConns (l_tel l)"
    by (simp_all add: only_slot_tel)
  show "open_handles (trace io2) = open_handles (trace io)" using seg(3) tr by simp
  show "link_ok io0 conn io2"
    using link tr link_ok_extend [OF _ seg(1,2), of io0 conn] by (simp add: link_ok_def)
qed

lemma reconnect_turn:
  assumes rec: "Reconnect env ctx conn io3 = (rr, conn', io4)"
    and tr: "trace io3 = trace io2" and link: "link_ok io0 conn io2"
  shows "link_ok io0 conn' io4" and "open_handles (trace io4) = open_handles (trace io2)"
proof -
  have "link_ok io0 conn io3" using link tr by (simp add: link_ok_def)
  then show "link_ok io0 conn' io4" by (rule Reconnect_link [OF rec])
  show "open_handles (trace io4) = open_handles (trace io2)"
    using Reconnect_queue_counts [OF rec] tr by (simp add: queue_counts_def)
qed

text \<open>A turn of the consumer's loop either ends the loop or goes round with the reconnected handle.\<close>

lemma consumer_iter_spec:
  assumes "consumer_iter env ctx handler idx conn l io = Some y" and "0 \<le> idx" and "link_ok io0 conn io"
  shows "case y of (r, conn', l', io') \<Rightarrow>
    only_slot idx l l' \<and> activeConns (l_tel l') = activeConns (l_tel l) \<and> link_ok io0 conn' io' \<and>
    open_handles (trace io') = open_handles (trace io)"
  using assms
proof (induction rule: consumer_iter.raw_induct [rotated 1, consumes 1])
  case (1 iter env ctx handler idx conn l io y)
  obtain p io1 where poll: "ctx_Err env ctx io = (p, io1)" by (cases "ctx_Err env ctx io")
  note tr1 = ctx_Err_counts [OF poll]
  obtain le l2 io2 where turn: "p = None \<Longrightarrow> consumeLoop env ctx conn handler l io1 = Some (le, l2, io2)"
    using 1(2) poll by (cases p; cases "consumeLoop env ctx conn handler l io1") auto
  note spec2 = consume_turn [OF turn _ 1(4)]
  obtain p3 io3 where poll3: "ctx_Err env ctx io2 = (p3, io3)" by (cases "ctx_Err env ctx io2")
  note tr3 = ctx_Err_counts [OF poll3]
  obtain rr conn' io4 where rec: "Reconnect env ctx conn io3 = (rr, conn', io4)"
    by (cases "Reconnect env ctx conn io3")
  obtain p5 io5 where poll5: "ctx_Err env ctx io4 = (p5, io5)" by (cases "ctx_Err env ctx io4")
  note tr5 = ctx_Err_counts [OF poll5]
  consider (cancelled) e where "p = Some e" | (ended) "p = None" "le = None"
    | (stop) e where "p = None" "le = Some e" "p3 \<noteq> None \<or> \<not> IsConnectionError (Some e)"
    | (broken) e d where "p = None" "le = Some e" "p3 = None" "IsConnectionError (Some e)" "rr = Some d"
    | (again) e where "p = None" "le = Some e" "p3 = None" "IsConnectionError (Some e)" "rr = None"
    by (cases p; cases le; cases rr) auto
  then show ?case
  proof cases
    case cancelled
    with 1 poll tr1 show ?thesis by (auto simp: link_ok_def)
  next
    case ended
    with 1(2) poll turn spec2 tr1 show ?thesis by auto
  next
    case stop
    have "link_ok io0 conn io3" using spec2(3) stop(1) tr1 tr3 by (simp add: link_ok_def)
    with stop 1(2) poll turn poll3 spec2 tr1 tr3 show ?thesis by (cases p3) (auto split: if_splits)
  next
    case broken
    note spec4 = reconnect_turn [OF rec tr3 spec2(3) [OF broken(1) tr1]]
    have "link_ok io0 conn' io5" using spec4(1) tr5 by (simp add: link_ok_def)
    with broken 1(2,3) poll turn poll3 rec poll5 spec2 spec4 tr1 tr5 show ?thesis by (cases p5) auto
  next
    case again
    note spec4 = reconnect_turn [OF rec tr3 spec2(3) [OF again(1) tr1]]
    let ?l3 = "setConsumerState idx StateConnected (setConsumerState idx StateReconnecting l2)"
    from again 1(2) poll turn poll3 rec have "iter env ctx handler idx conn' ?l3 io4 = Some y" by simp
    from 1(1) [OF this 1(3) spec4(1)] spec2 spec4(2) again(1) tr1 1(3) show ?thesis
      by (auto intro: only_slot_trans)
  qed
qed

lemma consumer_body_spec:
  assumes "consumer_body env ctx handler idx l io = Some (r, l', io')" and "0 \<le> idx"
  shows "only_slot idx l l' \<and> activeConns (l_tel l') = activeConns (l_tel l) \<and> link_closed io io' \<and>
    open_handles (trace io') = open_handles (trace io)"
proof -
  let ?cfg = "(l_cfg l)\<lparr>MaxRetries := l_maxRetries l\<rparr>"
  let ?l1 = "setConsumerState idx StateReconnecting l"
  let ?l2 = "l_on_tel incConnActive (setConsumerState idx StateConnected ?l1)"
  obtain p io1 where poll: "ctx_Err env ctx io = (p, io1)" by (cases "ctx_Err env ctx io")
  note tr1 = ctx_Err_counts [OF poll]
  obtain c io2 where new: "newConnectionWithRetry env ctx ?cfg io1 = (c, io2)"
    by (cases "newConnectionWithRetry env ctx ?cfg io1")
  note link = newConnectionWithRetry_link [OF new]
  have oh2: "open_handles (trace io2) = open_handles (trace io)"
    using newConnectionWithRetry_queue_counts [OF new] tr1 by (simp add: queue_counts_def)
  show ?thesis
  proof (cases p)
    case (Some e)
    with assms poll tr1 show ?thesis by (auto simp: consumer_body_def link_closed_refl)
  next
    case None
    show ?thesis
    proof (cases c)
      case (Inl err)
      obtain p3 io3 where poll3: "ctx_Err env ctx io2 = (p3, io3)" by (cases "ctx_Err env ctx io2")
      from ctx_Err_counts [OF poll3] link tr1 Inl have "link_closed io io3" by (simp add: link_closed_def)
      with assms poll None new Inl poll3 ctx_Err_counts [OF poll3] oh2 show ?thesis
        by (cases p3) (auto simp: consumer_body_def Let_def)
    next
      case (Inr conn)
      with assms poll None new obtain conn' l3 io3 where
        it: "consumer_iter env ctx handler idx conn ?l2 io2 = Some (r, conn', l3, io3)" and
        l': "l' = l_on_tel decConnActive l3" and io': "io' = snd (snd (conn_Close env conn' io3))"
        by (auto simp: consumer_body_def Let_def split: option.splits prod.splits)
      have "link_ok io conn io2" using link tr1 Inr by (simp add: link_ok_def)
      from consumer_iter_spec [OF it assms(2) this] assms(2)
      have spec: "only_slot idx l l3" "activeConns (l_tel l3) = activeConns (l_tel l) + 1"
        "link_ok io conn' io3" "open_handles (trace io3) = open_handles (trace io2)"
        by simp_all
      obtain e d where cl: "conn_Close env conn' io3 = (e, d, io')"
        using io' by (cases "conn_Close env conn' io3") auto
      from spec l' conn_Close_link [OF cl spec(3)] conn_Close_queue_counts [OF cl] oh2 show ?thesis
        by (simp add: queue_counts_def)
    qed
  qed
qed

lemma reportError_spec:
  "trace (reportError l ctx None (Some e) io) =
     trace io @ (if l_onError l = None then [] else [EReport None e])"
  by (cases "l_onError l") (auto simp: reportError_def split: prod.splits)

text \<open>
  C10: how a consumer ends. Whenever \<^verbatim>\<open>runConsumer\<close> returns, its slot holds
  \<^verbatim>\<open>StateFailed\<close> if it returns an error and \<^verbatim>\<open>StateStopped\<close> otherwise and no other slot
  has changed; an error is reported to the callback, if there is one, as its very last
  call and without a message; every connection it dialled, the first one and each redial
  after a lost link, has been disconnected, no queue handle is left open and no span unfinished; and the gauge of live connections has its old
  value.
\<close>

theorem run_consumer_exit:
  assumes "runConsumer env ctx handler idx l io = Some (r, l', io')" and "0 \<le> idx"
  shows "l_states l' = (l_states l)[nat idx := (if r = None then StateStopped else StateFailed)] \<and>
    (\<exists>io1. link_closed io io1 \<and> open_handles (trace io1) = open_handles (trace io) \<and>
       trace io' = trace io1 @
         (case r of Some e \<Rightarrow> if l_onError l = None then [] else [EReport None e] | None \<Rightarrow> [])) \<and>
    open_spans (l_tel l') = open_spans (l_tel l) \<and> activeConns (l_tel l') = activeConns (l_tel l)"
proof -
  from assms(1) obtain l1 io1 where body: "consumer_body env ctx handler idx l io = Some (r, l1, io1)"
    by (auto simp: runConsumer_def Let_def split: option.splits prod.splits)
  note spec = consumer_body_spec [OF body assms(2)]
  show ?thesis
  proof (cases r)
    case None
    with assms body have "l' = setConsumerState idx StateStopped l1" "io' = io1"
      by (simp_all add: runConsumer_def)
    with None spec assms(2) show ?thesis by (auto simp: setConsumerState_eq only_slot_def)
  next
    case (Some e)
    with assms body have l': "l' = setConsumerState idx StateFailed l1" and
      io': "io' = reportError l' ctx None (Some e) io1"
      by (auto simp: runConsumer_def Let_def)
    from l' spec assms(2) have "l_onError l' = l_onError l"
      "l_states l' = (l_states l)[nat idx := StateFailed]"
      by (simp_all add: setConsumerState_eq only_slot_def)
    with Some spec assms(2) l' io' show ?thesis
      by (auto simp: reportError_spec only_slot_def)
  qed
qed

subsection \<open>The receive loop ends\<close>

text \<open>
  How far a world is from the end of a context: polling does not move it, receiving does,
  and neither the clock nor user code moves it back.
\<close>

definition deadline ::
  "('w \<Rightarrow> nat) \<Rightarrow> 'w env \<Rightarrow> ctx \<Rightarrow> 'w MessageHandler \<Rightarrow> 'w Listener \<Rightarrow> bool" where
  "deadline m env ctx handler l \<longleftrightarrow>
     (\<forall>w. m w = 0 \<longrightarrow> fst (ctxErr env ctx w) \<noteq> None) \<and>
     (\<forall>w. m (snd (ctxErr env ctx w)) = m w) \<and>
     (\<forall>q md gmo n w. 0 < m w \<longrightarrow> m (snd (GetSliceQ env q md gmo n w)) < m w) \<and>
     (\<forall>w. m (snd (timeNow env w)) \<le> m w) \<and>
     (\<forall>c msg w. m (snd (snd (handler c msg w))) \<le> m w) \<and>
     (\<forall>f c msg e w. l_onError l = Some f \<longrightarrow> m (snd (f c msg e w)) \<le> m w)"

lemma deadline_time: "deadline m env ctx handler l \<Longrightarrow> time_Now env io = (d, io') \<Longrightarrow> m (world io') \<le> m (world io)"
  by (auto simp: deadline_def time_Now_def split: prod.splits) (metis snd_conv)

lemma deadline_handler:
  "deadline m env ctx handler l \<Longrightarrow> invokeHandler c handler msg io = (e, msg', io') \<Longrightarrow>
     m (world io') \<le> m (world io)"
  by (auto simp: deadline_def invokeHandler_def split: prod.splits outcome.splits) (metis snd_conv)+

lemma deadline_report: "deadline m env ctx handler l \<Longrightarrow> m (world (reportError l c msg e io)) \<le> m (world io)"
  by (cases "l_onError l"; cases e)
    (auto simp: deadline_def reportError_def split: prod.splits, metis snd_conv)

lemma deadline_dispatch:
  assumes "deadline m env ctx handler l" and "dispatch env ctx handler md data l io = (l', io')"
  shows "m (world io') \<le> m (world io)"
proof -
  let ?msg = "messageFromMQMD md data"
  let ?mc = "extractFromMessage (otel_api env) (l_tel l) ctx ?msg"
  obtain sc sp tel1 where sp: "startConsumerSpan (otel_api env) ?mc (l_queue l) (ID ?msg) (l_tel l) = (sc, sp, tel1)"
    by (cases "startConsumerSpan (otel_api env) ?mc (l_queue l) (ID ?msg) (l_tel l)")
  obtain start io1 where t1: "time_Now env io = (start, io1)" by (cases "time_Now env io")
  obtain e msg' io2 where h: "invokeHandler sc handler ?msg io1 = (e, msg', io2)"
    by (cases "invokeHandler sc handler ?msg io1")
  define io3 where "io3 = (if e \<noteq> None then reportError l sc (Some msg') e io2 else io2)"
  obtain now io4 where t2: "time_Now env io3 = (now, io4)" by (cases "time_Now env io3")
  have "io' = io4" using assms(2) sp t1 h t2 by (simp add: dispatch_def Let_def io3_def)
  moreover have "m (world io3) \<le> m (world io2)"
    using deadline_report [OF assms(1)] by (simp add: io3_def)
  ultimately show ?thesis
    using deadline_time [OF assms(1) t1] deadline_handler [OF assms(1) h] deadline_time [OF assms(1) t2]
    by simp
qed

lemma deadline_tel: "deadline m env ctx handler (l\<lparr>l_tel := t\<rparr>) = deadline m env ctx handler l"
  by (simp add: deadline_def)

lemma consume_once_progress:
  assumes dl: "deadline m env ctx handler l" and once: "consume_once env ctx q handler l io = (None, l', io')"
  shows "m (world io') < m (world io)" and "deadline m env ctx handler l'"
proof -
  obtain p io1 where poll: "ctx_Err env ctx io = (p, io1)" by (cases "ctx_Err env ctx io")
  with once have p: "p = None" by (cases p) (simp_all add: consume_once_def)
  have m1: "m (world io1) = m (world io)"
    using dl poll by (auto simp: deadline_def ctx_Err_def split: prod.splits) (metis snd_conv)
  have "m (world io) \<noteq> 0" using dl poll p by (auto simp: deadline_def ctx_Err_def split: prod.splits)
  then have pos: "0 < m (world io1)" using m1 by simp
  obtain g io2 where get: "mq_Get env q (newMQMD env) (consume_options env) (4 * 1024 * 1024) io1 = (g, io2)"
    by (cases "mq_Get env q (newMQMD env) (consume_options env) (4 * 1024 * 1024) io1")
  then have "world io2 = snd (GetSliceQ env q (newMQMD env) (consume_options env) (4 * 1024 * 1024) (world io1))"
    by (auto simp: mq_Get_def split: prod.splits)
  with dl pos have m2: "m (world io2) < m (world io1)" by (simp add: deadline_def)
  have "m (world io') < m (world io) \<and> deadline m env ctx handler l'"
  proof (cases g)
    case (Inl err)
    with once poll p get have "io' = io2" "l' = l" by (auto simp: consume_once_def split: if_splits)
    with m1 m2 dl show ?thesis by simp
  next
    case (Inr y)
    then obtain md data where y: "g = Inr (md, data)" by (cases y) simp
    with once poll p get have d: "dispatch env ctx handler md data l io2 = (l', io')"
      by (auto simp: consume_once_def)
    from dispatch_trace [OF d] obtain t where "l' = l\<lparr>l_tel := t\<rparr>" by blast
    with deadline_dispatch [OF dl d] m1 m2 dl show ?thesis by (simp add: deadline_tel)
  qed
  then show "m (world io') < m (world io)" "deadline m env ctx handler l'" by simp_all
qed

lemma consume_iter_returns:
  "deadline m env ctx handler l \<Longrightarrow> \<exists>y. consume_iter env ctx q handler l io = Some y"
proof (induction "m (world io)" arbitrary: l io rule: less_induct)
  case less
  obtain x l' io' where once: "consume_once env ctx q handler l io = (x, l', io')"
    by (cases "consume_once env ctx q handler l io")
  show ?case
  proof (cases x)
    case None
    from consume_once_progress [OF less.prems once [unfolded None]] less.hyps have
      "\<exists>y. consume_iter env ctx q handler l' io' = Some y" by blast
    with once None show ?thesis by (subst consume_iter.simps) simp
  next
    case (Some r)
    with once show ?thesis by (subst consume_iter.simps) simp
  qed
qed

text \<open>
  C18: a consumer stops. If the context has a deadline (a bound on the number of receive calls
  after which it reports that it is done) that handler and callback do not push back,
  \<^verbatim>\<open>consumeLoop\<close> returns, whatever messages arrive and however the handler fails.
\<close>

theorem consume_loop_returns:
  assumes "deadline m env ctx handler l"
  shows "\<exists>r l' io'. consumeLoop env ctx conn handler l io = Some (r, l', io')"
proof -
  have "\<exists>r l' io'. consume_iter env ctx q handler l io1 = Some (r, l', io')" for q io1
    using consume_iter_returns [OF assms, of q io1] by (auto simp: split_paired_Ex)
  then have "consume_iter env ctx q handler l io1 \<noteq> None" for q io1 by (metis option.distinct(1))
  then have "consumeLoop env ctx conn handler l io \<noteq> None"
    by (auto simp: consumeLoop_def split: prod.splits sum.splits)
  then show ?thesis by (auto simp: split_paired_Ex)
qed

text \<open>A world whose context ends when the scripted messages are used up, and a failing handler.\<close>

definition deadline_env :: "script env" where
  "deadline_env = script_env\<lparr>ctxErr := (\<lambda>ctx w. (if q_get w = [] then Some (Sentinel DeadlineExceeded) else None, w))\<rparr>"

definition panic_handler :: "'w MessageHandler" where
  "panic_handler ctx msg w = (Panics ''boom'', msg, w)"

definition demo_listener :: "script Listener" where
  "demo_listener = initStates (new_listener (demo_config\<lparr>InputConcurrency := 1\<rparr>) ''Q.IN'')"

lemma demo_deadline: "deadline (\<lambda>w. length (q_get w)) deadline_env ctx panic_handler demo_listener"
proof -
  have "timeNow deadline_env w = (0, w)" for w by (simp add: deadline_env_def script_env_def)
  moreover have "0 < length (q_get w) \<Longrightarrow> length (q_get (snd (GetSliceQ deadline_env q md gmo n w))) < length (q_get w)"
    for q md gmo n w
    by (cases "q_get w") (simp_all add: deadline_env_def script_env_def)
  moreover have "ctxErr deadline_env ctx w = (if q_get w = [] then Some (Sentinel DeadlineExceeded) else None, w)" for w
    by (simp add: deadline_env_def)
  ultimately show ?thesis
    by (simp add: deadline_def panic_handler_def demo_listener_def initStates_def new_listener_def)
qed

theorem consume_loop_returns_witness:
  "\<exists>r l' io'. consumeLoop deadline_env 0 (fresh_connection demo_config) panic_handler demo_listener
     (start_io (quiet_script\<lparr>q_get := [Inr (script_mqmd, [1, 2, 3])]\<rparr>)) = Some (r, l', io')"
  using demo_deadline by (rule consume_loop_returns)

theorem consume_loop_delivers_witness:
  "\<exists>r l' io' seg. consumeLoop deadline_env 0 (fresh_connection demo_config) panic_handler demo_listener
     (start_io (quiet_script\<lparr>q_get := [Inr (script_mqmd, [1, 2, 3])]\<rparr>)) = Some (r, l', io') \<and>
     trace io' = seg \<and> handled seg = received seg"
proof -
  have "consume_iter deadline_env 0 q panic_handler demo_listener io \<noteq> None" for q io
    using consume_iter_returns [OF demo_deadline, where q = q and io = io] by auto
  then have "consumeLoop deadline_env 0 (fresh_connection demo_config) panic_handler demo_listener
      (start_io (quiet_script\<lparr>q_get := [Inr (script_mqmd, [1, 2, 3])]\<rparr>)) \<noteq> None"
    by (auto simp: consumeLoop_def split: prod.splits sum.splits)
  then obtain r l' io' where run: "consumeLoop deadline_env 0 (fresh_connection demo_config) panic_handler demo_listener
      (start_io (quiet_script\<lparr>q_get := [Inr (script_mqmd, [1, 2, 3])]\<rparr>)) = Some (r, l', io')"
    by (auto simp: split_paired_Ex)
  from consume_loop_delivers [OF run] have "handled (trace io') = received (trace io')"
    by (auto simp: start_io_def)
  with run show ?thesis by blast
qed

text \<open>A consumer that loses its connection once, redials, and then finds its context done.\<close>

definition lossy_script :: script where
  "lossy_script = quiet_script\<lparr>q_connx := [Inr 7, Inr 8],
     q_get := [Inl (MQReturn 2 2009 ''MQRC_CONNECTION_BROKEN''), Inl (MQReturn 2 2033 ''MQRC_NO_MSG_AVAILABLE'')]\<rparr>"

lemma deadline_calls:
  "ctx_Err deadline_env c io =
     (if q_get (world io) = [] then Some (Sentinel DeadlineExceeded) else None, io)"
  "q_connx (world io) = r # rs \<Longrightarrow>
     mq_Connx deadline_env n cno io = (r, emit (EConnx n cno r) ((world io)\<lparr>q_connx := rs\<rparr>) io)"
  "q_open (world io) = [] \<Longrightarrow>
     mq_Open deadline_env h od oo io = (Inr (2, od), emit (EOpen h (ObjectName od) oo (Inr 2)) (world io) io)"
  "mq_Disc deadline_env h io = (None, emit (EDisc h) (world io) io)"
  "mq_Close deadline_env h io = emit (EClose h) (world io) io"
  "q_get (world io) = x # xs \<Longrightarrow>
     mq_Get deadline_env h md gmo k io = (x, emit (EGet h md gmo x) ((world io)\<lparr>q_get := xs\<rparr>) io)"
  by (simp_all add: ctx_Err_def mq_Connx_def mq_Disc_def mq_Open_def mq_Close_def mq_Get_def
      deadline_env_def script_env_def)

lemma lossy_consumer:
  "\<exists>l' io'. runConsumer deadline_env 0 panic_handler 0 demo_listener (start_io lossy_script) = Some (None, l', io') \<and>
     connects io' = 2"
  by (simp add: runConsumer_def consumer_body_def newConnectionWithRetry_def retry_attempts_def deadline_calls
      dial_def fresh_connection_def setLastError_def conn_setState_def lossy_script_def start_io_def
      quiet_script_def consumer_iter.simps consumeLoop_def consume_iter.simps consume_once_def demo_listener_def
      new_listener_def initStates_def Let_def demo_config_def l_on_tel_def setConsumerState_def Reconnect_def
      conn_Close_def connects_def MQRC_NO_MSG_AVAILABLE_def connection_reasons_def)

theorem run_consumer_exit_witness:
  "\<exists>l' io'. runConsumer deadline_env 0 panic_handler 0 demo_listener (start_io lossy_script) = Some (None, l', io') \<and>
     connects io' = 2 \<and> link_closed (start_io lossy_script) io' \<and> l_states l' = [StateStopped]"
proof -
  obtain l' io' where run: "runConsumer deadline_env 0 panic_handler 0 demo_listener (start_io lossy_script) =
      Some (None, l', io')" "connects io' = 2" using lossy_consumer by blast
  from run_consumer_exit [OF run(1)] obtain io1 where io1: "link_closed (start_io lossy_script) io1"
    "trace io' = trace io1" by auto
  from io1(1) have "link_closed (start_io lossy_script) io'" unfolding link_trace(2) [OF io1(2)] .
  moreover have "l_states l' = [StateStopped]"
    using run_consumer_exit [OF run(1)] by (simp add: demo_listener_def initStates_def new_listener_def)
  ultimately show ?thesis using run by blast
qed

subsection \<open>Start\<close>

definition exit_state :: "go_error option \<Rightarrow> ConnectionState" where
  "exit_state r = (if r = None then StateStopped else StateFailed)"

definition exit_states :: "(int \<times> go_error option) list \<Rightarrow> ConnectionState list \<Rightarrow> ConnectionState list" where
  "exit_states ps sts = fold (\<lambda>(i, r) sts. sts[nat i := exit_state r]) ps sts"

text \<open>What a run of consumers leaves as it was.\<close>

definition same_books :: "'w Listener \<times> 'w io \<Rightarrow> 'w Listener \<times> 'w io \<Rightarrow> bool" where
  "same_books x y \<longleftrightarrow>
     l_closed (fst y) = l_closed (fst x) \<and> l_started (fst y) = l_started (fst x) \<and>
     open_spans (l_tel (fst y)) = open_spans (l_tel (fst x)) \<and>
     activeConns (l_tel (fst y)) = activeConns (l_tel (fst x)) \<and>
     open_handles (trace (snd y)) = open_handles (trace (snd x))"

lemma runConsumer_slot:
  assumes "runConsumer env ctx handler idx l io = Some (r, l', io')" and "0 \<le> idx"
  shows "same_books (l, io) (l', io')" and "l_states l' = (l_states l)[nat idx := exit_state r]"
proof -
  from assms(1) obtain l1 io1 where body: "consumer_body env ctx handler idx l io = Some (r, l1, io1)"
    by (auto simp: runConsumer_def Let_def split: option.splits prod.splits)
  note spec = consumer_body_spec [OF body assms(2)]
  have l': "l' = setConsumerState idx (exit_state r) l1"
    using assms(1) body by (cases r) (auto simp: runConsumer_def Let_def exit_state_def)
  have "open_handles (trace io') = open_handles (trace io1)"
    using assms(1) body by (cases r) (auto simp: runConsumer_def Let_def reportError_spec)
  with l' spec assms(2) show "same_books (l, io) (l', io')"
    by (simp add: same_books_def setConsumerState_eq only_slot_def)
  from l' spec assms(2) show "l_states l' = (l_states l)[nat idx := exit_state r]"
    by (simp add: setConsumerState_eq only_slot_def)
qed

lemma run_consumers_spec:
  assumes "run_consumers env ctx handler order l io = Some (errs, l', io')" and "\<forall>i \<in> set order. 0 \<le> i"
  shows "\<exists>rs. length rs = length order \<and> errs = List.map_filter (\<lambda>x. x) rs \<and>
    l_states l' = exit_states (zip order rs) (l_states l) \<and> same_books (l, io) (l', io')"
  using assms
proof (induction order arbitrary: l io errs)
  case Nil
  then show ?case by (simp add: exit_states_def same_books_def map_filter_simps)
next
  case (Cons i order)
  from Cons.prems(1) obtain r l1 io1 errs1 where
    run: "runConsumer env ctx handler i l io = Some (r, l1, io1)" and
    rest: "run_consumers env ctx handler order l1 io1 = Some (errs1, l', io')" and
    errs: "errs = (case r of None \<Rightarrow> errs1 | Some e \<Rightarrow> e # errs1)"
    by (auto split: option.splits prod.splits)
  from Cons.IH [OF rest] Cons.prems(2) obtain rs where "length rs = length order"
    "errs1 = List.map_filter (\<lambda>x. x) rs" "l_states l' = exit_states (zip order rs) (l_states l1)"
    "same_books (l1, io1) (l', io')" by auto
  with runConsumer_slot [OF run] Cons.prems(2) errs show ?case
    by (intro exI [of _ "r # rs"])
      (auto simp: exit_states_def same_books_def map_filter_simps split: option.splits)
qed

lemma length_exit_states [simp]: "length (exit_states ps sts) = length sts"
  unfolding exit_states_def by (induction ps arbitrary: sts) auto

lemma exit_states_keep:
  "\<forall>p \<in> set ps. 0 \<le> fst p \<Longrightarrow> int j \<notin> fst ` set ps \<Longrightarrow> exit_states ps sts ! j = sts ! j"
  unfolding exit_states_def
proof (induction ps arbitrary: sts)
  case (Cons p ps)
  then have "nat (fst p) \<noteq> j" by auto
  with Cons show ?case by (cases p) simp
qed simp

lemma exit_states_nth:
  assumes "distinct (map fst ps)" and "\<forall>p \<in> set ps. 0 \<le> fst p" and "(int j, r) \<in> set ps" and "j < length sts"
  shows "exit_states ps sts ! j = exit_state r"
  using assms
proof (induction ps arbitrary: sts)
  case (Cons p ps)
  show ?case
  proof (cases "p = (int j, r)")
    case True
    with Cons.prems have "int j \<notin> fst ` set ps" by auto
    with Cons.prems True exit_states_keep [of ps j "sts[j := exit_state r]"] show ?thesis
      by (simp add: exit_states_def)
  next
    case False
    with Cons show ?thesis by (cases p) (auto simp: exit_states_def)
  qed
qed simp

text \<open>When every slot of the listener is some consumer's, the final states are the consumers' results.\<close>

lemma exit_states_all:
  assumes "distinct order" and "set order = {0 ..< int (length sts)}" and "length rs = length order"
  shows "exit_states (zip order rs) sts = replicate (length sts) StateStopped \<longleftrightarrow> (\<forall>x \<in> set rs. x = None)"
    and "set (exit_states (zip order rs) sts) \<subseteq> {StateStopped, StateFailed}"
proof -
  let ?new = "exit_states (zip order rs) sts"
  have slot: "nat (order ! k) < length sts \<and> ?new ! nat (order ! k) = exit_state (rs ! k)"
    if k: "k < length order" for k
  proof -
    from k assms(2) have i: "order ! k \<in> {0 ..< int (length sts)}" using nth_mem by blast
    have "(int (nat (order ! k)), rs ! k) \<in> set (zip order rs)" using k assms(3) i by (force simp: set_zip)
    moreover have "\<forall>p \<in> set (zip order rs). 0 \<le> fst p" using assms(2) by (auto dest: set_zip_leftD)
    moreover have "nat (order ! k) < length sts" using i by auto
    ultimately show ?thesis using exit_states_nth [of "zip order rs"] assms(1,3) by simp
  qed
  have index: "\<exists>k < length order. nat (order ! k) = j" if "j < length sts" for j
    using that assms(2) by (metis atLeastLessThan_iff in_set_conv_nth nat_int of_nat_0_le_iff of_nat_less_iff)
  have "?new = replicate (length sts) StateStopped \<longleftrightarrow> (\<forall>j < length sts. ?new ! j = StateStopped)"
    by (auto simp: list_eq_iff_nth_eq)
  also have "\<dots> \<longleftrightarrow> (\<forall>k < length order. exit_state (rs ! k) = StateStopped)"
    using slot index by metis
  finally show "?new = replicate (length sts) StateStopped \<longleftrightarrow> (\<forall>x \<in> set rs. x = None)"
    by (auto simp: exit_state_def all_set_conv_all_nth assms(3))
  show "set ?new \<subseteq> {StateStopped, StateFailed}"
  proof
    fix st
    assume "st \<in> set ?new"
    then obtain j where "j < length sts" "st = ?new ! j" by (auto simp: in_set_conv_nth)
    with slot index show "st \<in> {StateStopped, StateFailed}" by (metis exit_state_def insertI1 insertI2)
  qed
qed

text \<open>
  \<^verbatim>\<open>Start\<close>. On a listener that is neither closed nor started, in whatever order its
  consumers finish, \<^verbatim>\<open>Start\<close> returns nil exactly when every consumer stopped cleanly, and
  each consumer's slot then tells how it ended: \<^verbatim>\<open>StateStopped\<close> or \<^verbatim>\<open>StateFailed\<close>. Gauge,
  spans and queue handles balance. Afterwards a second \<^verbatim>\<open>Start\<close> is refused without any
  call, and \<^verbatim>\<open>close\<close> returns at once.
\<close>

theorem start_outcome:
  assumes "Start env runCtx handler order l io = Some (r, l', io')"
    and "\<not> l_closed l" and "\<not> l_started l"
    and "distinct order" and "set order = {0 ..< int (length (l_states l))}"
  shows "(r = None \<longleftrightarrow> l_states l' = replicate (length (l_states l)) StateStopped) \<and>
    set (l_states l') \<subseteq> {StateStopped, StateFailed} \<and> length (l_states l') = length (l_states l) \<and>
    same_books (l\<lparr>l_started := True\<rparr>, io) (l', io') \<and>
    (\<forall>handler' order' io''. Start env runCtx handler' order' l' io'' = Some (Some started_twice, l', io'')) \<and>
    (\<forall>io'' :: 'w io. Listener_close l' io'' = Some (None, l'\<lparr>l_closed := True\<rparr>, io''))"
proof -
  let ?l0 = "l\<lparr>l_started := True, l_running := True\<rparr>"
  from assms(1-3) obtain errs l1 where run: "run_consumers env runCtx handler order ?l0 io = Some (errs, l1, io')"
    and r: "r = errors_join errs" and l': "l' = l1\<lparr>l_running := False\<rparr>"
    by (auto simp: Start_def split: option.splits prod.splits)
  have pos: "\<forall>i \<in> set order. 0 \<le> i" using assms(5) by simp
  from run_consumers_spec [OF run pos] obtain rs where rs: "length rs = length order"
    "errs = List.map_filter (\<lambda>x. x) rs" "l_states l1 = exit_states (zip order rs) (l_states l)"
    "same_books (?l0, io) (l1, io')" by auto
  note exits = exit_states_all [OF assms(4,5) rs(1)]
  have len: "length (l_states l') = length (l_states l)" using rs(3) l' by simp
  have "errs = [] \<longleftrightarrow> (\<forall>x \<in> set rs. x = None)"
    by (auto simp: rs(2) map_filter_def filter_empty_conv)
  then have "r = None \<longleftrightarrow> l_states l' = replicate (length (l_states l)) StateStopped"
    using r exits(1) rs(3) l' by (simp add: errors_join_def)
  moreover have "set (l_states l') \<subseteq> {StateStopped, StateFailed}" using exits(2) rs(3) l' by simp
  moreover have "same_books (l\<lparr>l_started := True\<rparr>, io) (l', io')"
    using rs(4) l' by (simp add: same_books_def)
  moreover from this have "l_started l'" "\<not> l_closed l'" "\<not> l_running l'"
    using assms(2) l' by (simp_all add: same_books_def)
  ultimately show ?thesis using len by (simp add: Start_def Listener_close_def)
qed

theorem start_outcome_witness:
  "\<exists>r l' io'. Start deadline_env 0 panic_handler [0] demo_listener (start_io quiet_script) = Some (r, l', io') \<and>
     set (l_states l') \<subseteq> {StateStopped, StateFailed}"
proof -
  have d: "\<not> l_closed demo_listener" "\<not> l_started demo_listener" "length (l_states demo_listener) = 1"
    by (simp_all add: demo_listener_def initStates_def new_listener_def)
  have "ctx_Err deadline_env 0 (start_io quiet_script) = (Some (Sentinel DeadlineExceeded), start_io quiet_script)"
    by (simp add: ctx_Err_def deadline_env_def start_io_def quiet_script_def)
  then have "\<exists>r l' io'. Start deadline_env 0 panic_handler [0] demo_listener (start_io quiet_script) = Some (r, l', io')"
    using d by (simp add: Start_def runConsumer_def consumer_body_def)
  then obtain r l' io' where
    run: "Start deadline_env 0 panic_handler [0] demo_listener (start_io quiet_script) = Some (r, l', io')" by blast
  have "set [0 :: int] = {0 ..< int (length (l_states demo_listener))}" using d by auto
  from start_outcome [OF run d(1,2) _ this] run show ?thesis by auto
qed

end
