(* ===== verification/Listener_Life.thy ===== *)
theory Listener_Life
  imports MQ_Listener
begin

text \<open>
  The goroutines of a listener (\<^verbatim>\<open>src/mq/listener.go\<close>): any number of calls of \<^verbatim>\<open>Start\<close>, of
  which one gets through and spawns the consumers, the consumers themselves, and \<^verbatim>\<open>close\<close>.
  Their atomic sections (a critical section of \<^verbatim>\<open>l.mu\<close>, a store to a consumer's state, an
  operation on the wait group, the error channel or the gauge, a call of MQ or of the
  handler) interleave in any order. What a consumer does inside one MQ call or one handler
  call is the subject of \<open>MQ_Listener\<close>; here such a call is one step whose answer the label
  names. Connections are numbered in the order they are dialled.
\<close>

subsection \<open>A consumer\<close>

text \<open>
  The program points of \<^verbatim>\<open>runConsumer\<close> and \<^verbatim>\<open>consumeLoop\<close>, each named after what happens next:
  \<open>KPoll\<close> the early \<^verbatim>\<open>select\<close>, \<open>KMark\<close> the store of \<^verbatim>\<open>StateReconnecting\<close>, \<open>KDial\<close> the dial,
  \<open>KDialErr\<close> the test of the context after a failed one, \<open>KUp\<close> the store of
  \<^verbatim>\<open>StateConnected\<close>, \<open>KCount\<close> the increment of the gauge, \<open>KHead\<close> the head of the loop,
  \<open>KOpen\<close> the MQOPEN, \<open>KTop\<close> the \<^verbatim>\<open>select\<close> of the receive loop, \<open>KGet\<close> the MQGET, \<open>KHandle\<close>
  the handler, \<open>KLoopErr\<close> the tests after \<^verbatim>\<open>consumeLoop\<close> failed, \<open>KBroken\<close> to \<open>KBack\<close> the
  reconnect, \<open>KUncount\<close> to \<open>KReport\<close> the deferred calls, \<open>KSend\<close> the send to the error
  channel, \<open>KLeave\<close> the deferred \<^verbatim>\<open>wg.Done\<close>. The optional error is the value returned.
\<close>

datatype cons_pc =
    KUnborn
  | KPoll
  | KMark
  | KDial
  | KDialErr go_error
  | KUp nat
  | KCount nat
  | KHead nat
  | KOpen nat
  | KTop nat
  | KGet nat
  | KHandle nat nat
  | KLoopErr nat go_error
  | KBroken nat
  | KReconn nat
  | KReconnErr nat go_error
  | KBack nat
  | KUncount nat "go_error option"
  | KDisc nat "go_error option"
  | KEnd "go_error option"
  | KReport go_error
  | KSend go_error
  | KLeave "go_error option"
  | KGone "go_error option"

text \<open>
  Who decides a step: the consumer itself (\<open>Move\<close>), or the call it waits for, which
  returns (\<open>Answer\<close>), fails, or delivers a message.
\<close>

datatype cons_label = Move | Answer | Fails go_error | Arrives nat

text \<open>What a step does to the state it shares with other goroutines; \<open>ReportError\<close> is a call of \<^verbatim>\<open>l.reportError\<close>.\<close>

datatype cons_eff =
    Quiet
  | Store ConnectionState
  | Inc
  | Dec
  | Dialled
  | Closed nat
  | Got nat
  | Handled nat
  | ReportError go_error
  | Sent go_error
  | WgDone

text \<open>\<open>own\<close>: the consumer goes on by itself; \<open>call\<close>: it goes on with the answer of a call.\<close>

definition own :: "cons_label \<Rightarrow> cons_pc \<times> cons_eff \<Rightarrow> (cons_pc \<times> cons_eff) option" where
  "own l x = (if l = Move then Some x else None)"

definition call :: "cons_label \<Rightarrow> cons_pc \<times> cons_eff \<Rightarrow> (go_error \<Rightarrow> cons_pc) \<Rightarrow> (cons_pc \<times> cons_eff) option" where
  "call l ok err =
     (case l of Answer \<Rightarrow> Some ok | Fails e \<Rightarrow> Some (err e, Quiet) | _ \<Rightarrow> None)"

fun cons_move :: "bool \<Rightarrow> nat \<Rightarrow> cons_label \<Rightarrow> cons_pc \<Rightarrow> (cons_pc \<times> cons_eff) option" where
  "cons_move ctxDone fresh l KUnborn = None"
| "cons_move ctxDone fresh l KPoll = own l (if ctxDone then KEnd None else KMark, Quiet)"
| "cons_move ctxDone fresh l KMark = own l (KDial, Store StateReconnecting)"
| "cons_move ctxDone fresh l KDial = call l (KUp fresh, Dialled) KDialErr"
| "cons_move ctxDone fresh l (KDialErr err) = own l (KEnd (if ctxDone then None else Some err), Quiet)"
| "cons_move ctxDone fresh l (KUp c) = own l (KCount c, Store StateConnected)"
| "cons_move ctxDone fresh l (KCount c) = own l (KHead c, Inc)"
| "cons_move ctxDone fresh l (KHead c) = own l (if ctxDone then KUncount c None else KOpen c, Quiet)"
| "cons_move ctxDone fresh l (KOpen c) = call l (KTop c, Quiet) (KLoopErr c)"
| "cons_move ctxDone fresh l (KTop c) = own l (if ctxDone then KUncount c None else KGet c, Quiet)"
| "cons_move ctxDone fresh l (KGet c) =
     (case l of
        Arrives m \<Rightarrow> Some (KHandle c m, Got m)
      | Fails err \<Rightarrow> Some (if IsEmptyQueueError (Some err) then KTop c else KLoopErr c err, Quiet)
      | _ \<Rightarrow> None)"
| "cons_move ctxDone fresh l (KHandle c m) =
     (case l of
        Answer \<Rightarrow> Some (KTop c, Handled m)
      | Fails handlerErr \<Rightarrow> Some (KTop c, Handled m)
      | _ \<Rightarrow> None)"
| "cons_move ctxDone fresh l (KLoopErr c loopErr) =
     own l (if ctxDone then KUncount c None
            else if IsConnectionError (Some loopErr) then KBroken c else KUncount c (Some loopErr), Quiet)"
| "cons_move ctxDone fresh l (KBroken c) = own l (KReconn c, Store StateReconnecting)"
| "cons_move ctxDone fresh l (KReconn c) = call l (KBack c, Quiet) (KReconnErr c)"
| "cons_move ctxDone fresh l (KReconnErr c reconnErr) =
     own l (KUncount c (if ctxDone then None else Some reconnErr), Quiet)"
| "cons_move ctxDone fresh l (KBack c) = own l (KHead c, Store StateConnected)"
| "cons_move ctxDone fresh l (KUncount c r) = own l (KDisc c r, Dec)"
| "cons_move ctxDone fresh l (KDisc c r) =
     (case l of
        Answer \<Rightarrow> Some (KEnd r, Closed c)
      | Fails discErr \<Rightarrow> Some (KEnd r, Closed c)
      | _ \<Rightarrow> None)"
| "cons_move ctxDone fresh l (KEnd r) =
     own l (case r of None \<Rightarrow> (KLeave None, Store StateStopped) | Some err \<Rightarrow> (KReport err, Store StateFailed))"
| "cons_move ctxDone fresh l (KReport err) = (if l = Answer then Some (KSend err, ReportError err) else None)"
| "cons_move ctxDone fresh l (KSend err) = own l (KLeave (Some err), Sent err)"
| "cons_move ctxDone fresh l (KLeave r) = own l (KGone r, WgDone)"
| "cons_move ctxDone fresh l (KGone r) = None"

subsection \<open>The listener\<close>

text \<open>
  \<open>MSpawn k\<close> and the later points are those of the call of \<^verbatim>\<open>Start\<close> that got through: it has
  spawned \<open>k\<close> consumers, waits for the wait group, reads the closed error channel, runs
  its deferred \<^verbatim>\<open>cancel\<close> and \<^verbatim>\<open>close(done)\<close>, and has returned.
\<close>

datatype main_pc =
    MIdle
  | MSpawn nat
  | MWait
  | MDrain "go_error list"
  | MCancel "go_error option"
  | MClose "go_error option"
  | MRet "go_error option"

datatype start_pc = SIdle | SRefused | STwice | SRunning

datatype stop_pc = XIdle | XCancel | XWait | XDone

text \<open>
  \<open>x_parent\<close>: the caller's context is done; \<open>x_cancel\<close>: the derived context was cancelled;
  \<open>x_done\<close>: the channel \<^verbatim>\<open>l.done\<close> is closed; \<open>x_onError\<close>: the listener has an error
  callback, which was given the errors \<open>x_reported\<close> when consumers ended; \<open>x_panicked\<close>: a send
  on a closed channel or a negative wait group counter.
\<close>

record lsys =
  x_onError :: bool
  x_started :: bool
  x_closed :: bool
  x_parent :: bool
  x_cancel :: bool
  x_done :: bool
  x_wg :: nat
  x_gauge :: "64 word"
  x_slots :: "ConnectionState list"
  x_errs :: "go_error chan"
  x_errs_closed :: bool
  x_calls :: "start_pc list"
  x_main :: main_pc
  x_closer :: stop_pc
  x_cons :: "cons_pc list"
  x_next :: nat
  x_dead :: "nat list"
  x_got :: "nat list"
  x_handled :: "nat list"
  x_reported :: "go_error list"
  x_panicked :: bool

definition ctx_done :: "lsys \<Rightarrow> bool" where
  "ctx_done s \<longleftrightarrow> x_parent s \<or> x_cancel s"

fun do_eff :: "nat \<Rightarrow> cons_eff \<Rightarrow> lsys \<Rightarrow> lsys option" where
  "do_eff i Quiet s = Some s"
| "do_eff i (Store st) s = Some (s\<lparr>x_slots := (x_slots s)[i := st]\<rparr>)"
| "do_eff i Inc s = Some (s\<lparr>x_gauge := x_gauge s + 1\<rparr>)"
| "do_eff i Dec s = Some (s\<lparr>x_gauge := x_gauge s - 1\<rparr>)"
| "do_eff i Dialled s = Some (s\<lparr>x_next := x_next s + 1\<rparr>)"
| "do_eff i (Closed c) s = Some (s\<lparr>x_dead := x_dead s @ [c]\<rparr>)"
| "do_eff i (Got m) s = Some (s\<lparr>x_got := x_got s @ [m]\<rparr>)"
| "do_eff i (Handled m) s = Some (s\<lparr>x_handled := x_handled s @ [m]\<rparr>)"
| "do_eff i (ReportError e) s =
     Some (if x_onError s then s\<lparr>x_reported := x_reported s @ [e]\<rparr> else s)"
| "do_eff i (Sent e) s =
     (if x_errs_closed s then Some (s\<lparr>x_panicked := True\<rparr>)
      else map_option (\<lambda>ch. s\<lparr>x_errs := ch\<rparr>) (try_send e (x_errs s)))"
| "do_eff i WgDone s =
     Some (if x_wg s = 0 then s\<lparr>x_panicked := True\<rparr> else s\<lparr>x_wg := x_wg s - 1\<rparr>)"

definition cons_step :: "nat \<Rightarrow> cons_label \<Rightarrow> lsys \<Rightarrow> lsys option" where
  "cons_step i l s =
     (if i < length (x_cons s)
      then (case cons_move (ctx_done s) (x_next s) l (x_cons s ! i) of
              None \<Rightarrow> None
            | Some (pc, eff) \<Rightarrow> do_eff i eff (s\<lparr>x_cons := (x_cons s)[i := pc]\<rparr>))
      else None)"

datatype llabel =
    Call nat
  | Spawn
  | Join
  | Drain
  | Stop
  | SignalDone
  | ParentDone
  | CloseLock
  | CloseCancel
  | CloseWait
  | Consumer nat cons_label

fun lstep :: "llabel \<Rightarrow> lsys \<Rightarrow> lsys option" where
  "lstep (Call j) s =
     (if j < length (x_calls s) \<and> x_calls s ! j = SIdle
      then Some (if x_closed s then s\<lparr>x_calls := (x_calls s)[j := SRefused]\<rparr>
                 else if x_started s then s\<lparr>x_calls := (x_calls s)[j := STwice]\<rparr>
                 else s\<lparr>x_calls := (x_calls s)[j := SRunning], x_started := True, x_main := MSpawn 0\<rparr>)
      else None)"
| "lstep Spawn s =
     (case x_main s of
        MSpawn k \<Rightarrow>
          Some (if k < length (x_cons s)
                then s\<lparr>x_cons := (x_cons s)[k := KPoll], x_wg := x_wg s + 1, x_main := MSpawn (Suc k)\<rparr>
                else s\<lparr>x_main := MWait\<rparr>)
      | _ \<Rightarrow> None)"
| "lstep Join s =
     (if x_main s = MWait \<and> x_wg s = 0
      then Some (s\<lparr>x_errs_closed := True, x_main := MDrain []\<rparr>) else None)"
| "lstep Drain s =
     (case x_main s of
        MDrain errList \<Rightarrow>
          Some (case try_recv (x_errs s) of
                  Some (err, ch) \<Rightarrow> s\<lparr>x_errs := ch, x_main := MDrain (errList @ [err])\<rparr>
                | None \<Rightarrow> s\<lparr>x_main := MCancel (errors_join errList)\<rparr>)
      | _ \<Rightarrow> None)"
| "lstep Stop s =
     (case x_main s of MCancel r \<Rightarrow> Some (s\<lparr>x_cancel := True, x_main := MClose r\<rparr>) | _ \<Rightarrow> None)"
| "lstep SignalDone s =
     (case x_main s of MClose r \<Rightarrow> Some (s\<lparr>x_done := True, x_main := MRet r\<rparr>) | _ \<Rightarrow> None)"
| "lstep ParentDone s = (if x_parent s then None else Some (s\<lparr>x_parent := True\<rparr>))"
| "lstep CloseLock s =
     (if x_closer s = XIdle
      then Some (s\<lparr>x_closed := True, x_closer := if x_started s then XCancel else XDone\<rparr>) else None)"
| "lstep CloseCancel s =
     (if x_closer s = XCancel then Some (s\<lparr>x_cancel := True, x_closer := XWait\<rparr>) else None)"
| "lstep CloseWait s =
     (if x_closer s = XWait \<and> x_done s then Some (s\<lparr>x_closer := XDone\<rparr>) else None)"
| "lstep (Consumer i l) s = cons_step i l s"

definition listener_start :: "bool \<Rightarrow> nat \<Rightarrow> nat \<Rightarrow> lsys" where
  "listener_start onError concurrency calls =
     \<lparr>x_onError = onError, x_started = False, x_closed = False, x_parent = False, x_cancel = False, x_done = False, x_wg = 0,
      x_gauge = 0, x_slots = replicate concurrency StateUnknown, x_errs = make_chan concurrency,
      x_errs_closed = False, x_calls = replicate calls SIdle, x_main = MIdle, x_closer = XIdle,
      x_cons = replicate concurrency KUnborn, x_next = 0, x_dead = [], x_got = [], x_handled = [],
      x_reported = [], x_panicked = False\<rparr>"

definition listener_init :: "lsys \<Rightarrow> bool" where
  "listener_init s \<longleftrightarrow> (\<exists>b n k. s = listener_start b n k)"

subsection \<open>The invariant\<close>

text \<open>What a consumer at a program point holds, owes and shows.\<close>

fun pc_live :: "cons_pc \<Rightarrow> nat" where
  "pc_live KUnborn = 0"
| "pc_live (KGone _) = 0"
| "pc_live _ = 1"

fun pc_held :: "cons_pc \<Rightarrow> nat multiset" where
  "pc_held (KUp c) = {#c#}"
| "pc_held (KCount c) = {#c#}"
| "pc_held (KHead c) = {#c#}"
| "pc_held (KOpen c) = {#c#}"
| "pc_held (KTop c) = {#c#}"
| "pc_held (KGet c) = {#c#}"
| "pc_held (KHandle c _) = {#c#}"
| "pc_held (KLoopErr c _) = {#c#}"
| "pc_held (KBroken c) = {#c#}"
| "pc_held (KReconn c) = {#c#}"
| "pc_held (KReconnErr c _) = {#c#}"
| "pc_held (KBack c) = {#c#}"
| "pc_held (KUncount c _) = {#c#}"
| "pc_held (KDisc c _) = {#c#}"
| "pc_held _ = {#}"

fun pc_counted :: "cons_pc \<Rightarrow> nat" where
  "pc_counted (KUp _) = 0"
| "pc_counted (KCount _) = 0"
| "pc_counted (KDisc _ _) = 0"
| "pc_counted pc = size (pc_held pc)"

fun pc_sent :: "cons_pc \<Rightarrow> go_error multiset" where
  "pc_sent (KLeave r) = (case r of None \<Rightarrow> {#} | Some e \<Rightarrow> {#e#})"
| "pc_sent (KGone r) = (case r of None \<Rightarrow> {#} | Some e \<Rightarrow> {#e#})"
| "pc_sent _ = {#}"

fun pc_reported :: "cons_pc \<Rightarrow> go_error multiset" where
  "pc_reported (KSend e) = {#e#}"
| "pc_reported pc = pc_sent pc"

fun pc_msg :: "cons_pc \<Rightarrow> nat multiset" where
  "pc_msg (KHandle _ m) = {#m#}"
| "pc_msg _ = {#}"

fun slot_ok :: "cons_pc \<Rightarrow> ConnectionState \<Rightarrow> bool" where
  "slot_ok KUnborn st \<longleftrightarrow> st = StateUnknown"
| "slot_ok KPoll st \<longleftrightarrow> st = StateUnknown"
| "slot_ok KMark st \<longleftrightarrow> st = StateUnknown"
| "slot_ok KDial st \<longleftrightarrow> st = StateReconnecting"
| "slot_ok (KDialErr _) st \<longleftrightarrow> st = StateReconnecting"
| "slot_ok (KUp _) st \<longleftrightarrow> st = StateReconnecting"
| "slot_ok (KReconn _) st \<longleftrightarrow> st = StateReconnecting"
| "slot_ok (KReconnErr _ _) st \<longleftrightarrow> st = StateReconnecting"
| "slot_ok (KBack _) st \<longleftrightarrow> st = StateReconnecting"
| "slot_ok (KUncount _ _) st \<longleftrightarrow> st \<noteq> StateStopped \<and> st \<noteq> StateFailed"
| "slot_ok (KDisc _ _) st \<longleftrightarrow> st \<noteq> StateStopped \<and> st \<noteq> StateFailed"
| "slot_ok (KEnd _) st \<longleftrightarrow> st \<noteq> StateStopped \<and> st \<noteq> StateFailed"
| "slot_ok (KReport _) st \<longleftrightarrow> st = StateFailed"
| "slot_ok (KSend _) st \<longleftrightarrow> st = StateFailed"
| "slot_ok (KLeave r) st \<longleftrightarrow> st = exit_state r"
| "slot_ok (KGone r) st \<longleftrightarrow> st = exit_state r"
| "slot_ok _ st \<longleftrightarrow> st = StateConnected"

definition tally :: "(cons_pc \<Rightarrow> 'a :: comm_monoid_add) \<Rightarrow> lsys \<Rightarrow> 'a" where
  "tally f s = sum_list (map f (x_cons s))"

definition sums_ok :: "lsys \<Rightarrow> bool" where
  "sums_ok s \<longleftrightarrow>
     x_wg s = tally pc_live s \<and> x_gauge s = of_nat (tally pc_counted s) \<and>
     mset (x_dead s) + tally pc_held s = mset_set {..<x_next s} \<and>
     mset (x_got s) = mset (x_handled s) + tally pc_msg s \<and>
     mset (x_reported s) = (if x_onError s then tally pc_reported s else {#})"

definition slots_ok :: "lsys \<Rightarrow> bool" where
  "slots_ok s \<longleftrightarrow> list_all2 slot_ok (x_cons s) (x_slots s)"

text \<open>
  The errors consumers have sent are in the channel or in the list \<^verbatim>\<open>Start\<close> collects, and the
  value it returns is their join.
\<close>

fun errs_main :: "main_pc \<Rightarrow> go_error list \<Rightarrow> go_error multiset \<Rightarrow> bool" where
  "errs_main MIdle buf sent \<longleftrightarrow> mset buf = sent"
| "errs_main (MSpawn _) buf sent \<longleftrightarrow> mset buf = sent"
| "errs_main MWait buf sent \<longleftrightarrow> mset buf = sent"
| "errs_main (MDrain errList) buf sent \<longleftrightarrow> mset errList + mset buf = sent"
| "errs_main (MCancel r) buf sent \<longleftrightarrow> (\<exists>errList. r = errors_join errList \<and> mset errList = sent)"
| "errs_main (MClose r) buf sent \<longleftrightarrow> (\<exists>errList. r = errors_join errList \<and> mset errList = sent)"
| "errs_main (MRet r) buf sent \<longleftrightarrow> (\<exists>errList. r = errors_join errList \<and> mset errList = sent)"

definition errs_ok :: "lsys \<Rightarrow> bool" where
  "errs_ok s \<longleftrightarrow>
     chan_cap (x_errs s) = length (x_cons s) \<and> chan_ok (x_errs s) \<and> \<not> x_panicked s \<and>
     errs_main (x_main s) (chan_buf (x_errs s)) (tally pc_sent s)"

definition all_gone :: "cons_pc list \<Rightarrow> bool" where
  "all_gone cs \<longleftrightarrow> (\<forall>pc \<in> set cs. \<exists>r. pc = KGone r)"

text \<open>How far the consumers and the error channel are at each point of \<^verbatim>\<open>Start\<close>.\<close>

fun main_phase :: "main_pc \<Rightarrow> bool \<Rightarrow> cons_pc list \<Rightarrow> bool" where
  "main_phase MIdle ec cs \<longleftrightarrow> \<not> ec \<and> (\<forall>pc \<in> set cs. pc = KUnborn)"
| "main_phase (MSpawn k) ec cs \<longleftrightarrow>
     \<not> ec \<and> k \<le> length cs \<and> (\<forall>i < length cs. cs ! i = KUnborn \<longleftrightarrow> k \<le> i)"
| "main_phase MWait ec cs \<longleftrightarrow> \<not> ec \<and> KUnborn \<notin> set cs"
| "main_phase (MDrain _) ec cs \<longleftrightarrow> ec \<and> all_gone cs"
| "main_phase (MCancel _) ec cs \<longleftrightarrow> ec \<and> all_gone cs"
| "main_phase (MClose _) ec cs \<longleftrightarrow> ec \<and> all_gone cs"
| "main_phase (MRet _) ec cs \<longleftrightarrow> ec \<and> all_gone cs"

definition calls_at :: "start_pc \<Rightarrow> start_pc list \<Rightarrow> nat" where
  "calls_at pc xs = length (filter ((=) pc) xs)"

definition main_ok :: "lsys \<Rightarrow> bool" where
  "main_ok s \<longleftrightarrow>
     (x_started s \<longleftrightarrow> x_main s \<noteq> MIdle) \<and> (x_done s \<longleftrightarrow> (\<exists>r. x_main s = MRet r)) \<and>
     calls_at SRunning (x_calls s) = of_bool (x_started s) \<and>
     main_phase (x_main s) (x_errs_closed s) (x_cons s)"

definition closer_sound :: "lsys \<Rightarrow> bool" where
  "closer_sound s \<longleftrightarrow>
     (case x_closer s of
        XIdle \<Rightarrow> \<not> x_closed s
      | XCancel \<Rightarrow> x_closed s \<and> x_started s
      | XWait \<Rightarrow> x_closed s \<and> x_started s \<and> x_cancel s
      | XDone \<Rightarrow> x_closed s \<and> (x_started s \<longrightarrow> x_done s))"

definition listener_inv :: "lsys \<Rightarrow> bool" where
  "listener_inv s \<longleftrightarrow> sums_ok s \<and> slots_ok s \<and> errs_ok s \<and> main_ok s \<and> closer_sound s"

subsection \<open>What a consumer's step does\<close>

lemmas move_defs = own_def call_def exit_state_def

text \<open>Every step keeps the balance of what a consumer has and what it did to the shared state.\<close>

lemma move_live:
  "cons_move d n l pc = Some (pc', eff) \<Longrightarrow> pc_live pc = 1 \<and> pc_live pc' + of_bool (eff = WgDone) = 1"
  by (cases pc) (auto simp: move_defs split: if_splits cons_label.splits option.splits)

lemma move_counted:
  "cons_move d n l pc = Some (pc', eff) \<Longrightarrow>
     pc_counted pc' + of_bool (eff = Dec) = pc_counted pc + of_bool (eff = Inc)"
  by (cases pc) (auto simp: move_defs split: if_splits cons_label.splits option.splits)

lemma move_held:
  "cons_move d n l pc = Some (pc', eff) \<Longrightarrow>
     pc_held pc' + (case eff of Closed c \<Rightarrow> {#c#} | _ \<Rightarrow> {#}) =
     pc_held pc + (if eff = Dialled then {#n#} else {#})"
  by (cases pc) (auto simp: move_defs split: if_splits cons_label.splits option.splits)

lemma move_msg:
  "cons_move d n l pc = Some (pc', eff) \<Longrightarrow>
     pc_msg pc' + (case eff of Handled m \<Rightarrow> {#m#} | _ \<Rightarrow> {#}) =
     pc_msg pc + (case eff of Got m \<Rightarrow> {#m#} | _ \<Rightarrow> {#})"
  by (cases pc) (auto simp: move_defs split: if_splits cons_label.splits option.splits)

lemma move_errors:
  "cons_move d n l pc = Some (pc', eff) \<Longrightarrow>
     pc_reported pc' = pc_reported pc + (case eff of ReportError e \<Rightarrow> {#e#} | _ \<Rightarrow> {#}) \<and>
     pc_sent pc' = pc_sent pc + (case eff of Sent e \<Rightarrow> {#e#} | _ \<Rightarrow> {#})"
  by (cases pc) (auto simp: move_defs split: if_splits cons_label.splits option.splits)

lemma move_slot:
  "cons_move d n l pc = Some (pc', eff) \<Longrightarrow> slot_ok pc st \<Longrightarrow>
     slot_ok pc' (case eff of Store st' \<Rightarrow> st' | _ \<Rightarrow> st)"
  by (cases pc) (auto simp: move_defs split: if_splits cons_label.splits option.splits)

lemma move_born: "cons_move d n l pc = Some (pc', eff) \<Longrightarrow> pc \<noteq> KUnborn \<and> pc' \<noteq> KUnborn \<and> pc \<noteq> KGone r"
  by (cases pc) (auto simp: move_defs split: if_splits cons_label.splits option.splits)

lemma cons_tally_update:
  "i < length (x_cons s) \<Longrightarrow>
     tally f (s\<lparr>x_cons := (x_cons s)[i := pc]\<rparr>) + f (x_cons s ! i) = tally f s + f pc"
  using sum_list_map_update [of i "x_cons s" f pc] by (simp add: tally_def)

lemma tally_cong: "x_cons s = x_cons t \<Longrightarrow> tally f s = tally f t"
  by (simp add: tally_def)

lemma do_eff_frame:
  assumes "do_eff i eff s = Some t"
  shows "x_cons t = x_cons s" "x_main t = x_main s" "x_started t = x_started s" "x_closed t = x_closed s"
    "x_parent t = x_parent s" "x_cancel t = x_cancel s" "x_done t = x_done s" "x_calls t = x_calls s"
    "x_closer t = x_closer s" "x_errs_closed t = x_errs_closed s"
    "x_slots t = (case eff of Store st \<Rightarrow> (x_slots s)[i := st] | _ \<Rightarrow> x_slots s)"
    "x_onError t = x_onError s"
  using assms by (cases eff; auto split: if_splits)+

text \<open>A step of consumer \<open>i\<close>, taken apart.\<close>

lemma cons_stepE:
  assumes "cons_step i l s = Some t"
  obtains pc' eff where "i < length (x_cons s)"
    "cons_move (ctx_done s) (x_next s) l (x_cons s ! i) = Some (pc', eff)"
    "do_eff i eff (s\<lparr>x_cons := (x_cons s)[i := pc']\<rparr>) = Some t"
  using assms by (auto simp: cons_step_def split: if_splits option.splits)

lemma cons_tally:
  fixes f :: "cons_pc \<Rightarrow> 'a :: comm_monoid_add"
  assumes "i < length (x_cons s)" and "do_eff i eff (s\<lparr>x_cons := (x_cons s)[i := pc']\<rparr>) = Some t"
  shows "tally f t + f (x_cons s ! i) = tally f s + f pc'"
  using do_eff_frame(1) [OF assms(2)] sum_list_map_update [OF assms(1), of f pc'] by (simp add: tally_def)

lemma tally_pos: "i < length (x_cons s) \<Longrightarrow> f (x_cons s ! i) \<le> tally f s" for f :: "cons_pc \<Rightarrow> nat"
  using elem_le_sum_list [of i "map f (x_cons s)"] by (simp add: tally_def)

lemma sums_cons:
  assumes "sums_ok s" and "cons_step i l s = Some t"
  shows "sums_ok t" and "x_panicked t \<longrightarrow> x_panicked s \<or> x_errs_closed s"
proof -
  from assms(2) obtain pc' eff where x: "i < length (x_cons s)"
    "cons_move (ctx_done s) (x_next s) l (x_cons s ! i) = Some (pc', eff)"
    "do_eff i eff (s\<lparr>x_cons := (x_cons s)[i := pc']\<rparr>) = Some t" by (rule cons_stepE)
  note t = cons_tally [OF x(1,3)]
  have wg: "0 < x_wg s"
    using assms(1) tally_pos [OF x(1), of pc_live] move_live [OF x(2)] by (simp add: sums_ok_def)
  show "x_panicked t \<longrightarrow> x_panicked s \<or> x_errs_closed s"
    using x(3) wg by (cases eff) (auto split: if_splits)
  have "(of_nat (tally pc_counted t) :: 64 word) + of_bool (eff = Dec) =
      of_nat (tally pc_counted s) + of_bool (eff = Inc)"
  proof -
    have "tally pc_counted t + of_bool (eff = Dec) = tally pc_counted s + of_bool (eff = Inc)"
      using t move_counted [OF x(2)] by (rule balance_cancel)
    then show ?thesis by (metis of_nat_add of_nat_of_bool)
  qed
  moreover have "tally pc_live t + of_bool (eff = WgDone) = tally pc_live s"
    using t [of pc_live] move_live [OF x(2)] by linarith
  moreover have "mset (x_dead t) + tally pc_held t = mset_set {..<x_next t}"
  proof -
    have d: "mset (x_dead t) = mset (x_dead s) + (case eff of Closed c \<Rightarrow> {#c#} | _ \<Rightarrow> {#})"
      "mset_set {..<x_next t} = mset_set {..<x_next s} + (if eff = Dialled then {#x_next s#} else {#})"
      using x(3) by (cases eff; auto simp: lessThan_Suc split: if_splits)+
    have "mset (x_dead t) + tally pc_held t =
        mset (x_dead s) + (tally pc_held t + (case eff of Closed c \<Rightarrow> {#c#} | _ \<Rightarrow> {#}))"
      by (simp only: d(1) ac_simps)
    also have "\<dots> = mset_set {..<x_next t}"
      using assms(1) by (simp only: balance_cancel [OF t move_held [OF x(2)]] d(2) sums_ok_def flip: add.assoc)
    finally show ?thesis .
  qed
  moreover note balance_cancel [OF t move_msg [OF x(2)]]
  moreover have "tally pc_reported t = tally pc_reported s + (case eff of ReportError e \<Rightarrow> {#e#} | _ \<Rightarrow> {#})"
    using balance_cancel [OF t, of pc_reported "{#}"] move_errors [OF x(2)] by simp
  ultimately show "sums_ok t"
    using x(3) assms(1) wg unfolding sums_ok_def
    by (cases eff) (auto simp: diff_eq_eq split: if_splits)
qed

lemma slots_cons:
  assumes "slots_ok s" and "cons_step i l s = Some t"
  shows "slots_ok t"
proof -
  from assms(2) obtain pc' eff where x: "i < length (x_cons s)"
    "cons_move (ctx_done s) (x_next s) l (x_cons s ! i) = Some (pc', eff)"
    "do_eff i eff (s\<lparr>x_cons := (x_cons s)[i := pc']\<rparr>) = Some t" by (rule cons_stepE)
  from assms(1) x(1) have "slot_ok (x_cons s ! i) (x_slots s ! i)"
    by (simp add: slots_ok_def list_all2_nthD)
  from move_slot [OF x(2) this]
  have "list_all2 slot_ok ((x_cons s)[i := pc'])
      ((x_slots s)[i := (case eff of Store st \<Rightarrow> st | _ \<Rightarrow> x_slots s ! i)])"
    using assms(1) by (simp add: slots_ok_def list_all2_update_cong)
  then show ?thesis
    using do_eff_frame(1,11) [OF x(3)] by (cases eff) (simp_all add: slots_ok_def)
qed

text \<open>Only born consumers that are not gone move, so \<^verbatim>\<open>Start\<close> is spawning them or waiting for them.\<close>

lemma cons_step_main:
  assumes "main_ok s" and "cons_step i l s = Some t"
  shows "(\<exists>k. x_main s = MSpawn k) \<or> x_main s = MWait" and "\<not> x_errs_closed s" and "main_ok t"
proof -
  from assms(2) obtain pc' eff where x: "i < length (x_cons s)"
    "cons_move (ctx_done s) (x_next s) l (x_cons s ! i) = Some (pc', eff)"
    "do_eff i eff (s\<lparr>x_cons := (x_cons s)[i := pc']\<rparr>) = Some t" by (rule cons_stepE)
  note born = move_born [OF x(2)]
  have mem: "x_cons s ! i \<in> set (x_cons s)" using x(1) by simp
  show m: "(\<exists>k. x_main s = MSpawn k) \<or> x_main s = MWait"
    using assms(1) mem born by (cases "x_main s") (auto simp: main_ok_def all_gone_def)
  with assms(1) show "\<not> x_errs_closed s" by (auto simp: main_ok_def)
  have spawn: "\<forall>j < length (x_cons s). (x_cons s)[i := pc'] ! j = KUnborn \<longleftrightarrow> k \<le> j"
    if "\<forall>j < length (x_cons s). x_cons s ! j = KUnborn \<longleftrightarrow> k \<le> j" for k
    using that x(1) born by (auto simp: nth_list_update)
  have wait: "KUnborn \<notin> set ((x_cons s)[i := pc'])" if "KUnborn \<notin> set (x_cons s)"
    using that born set_update_subset_insert [of "x_cons s" i pc'] by auto
  show "main_ok t"
    using m
  proof
    assume "\<exists>k. x_main s = MSpawn k"
    with assms(1) spawn show ?thesis by (auto simp: main_ok_def do_eff_frame [OF x(3)])
  next
    assume "x_main s = MWait"
    with assms(1) wait show ?thesis by (simp add: main_ok_def do_eff_frame [OF x(3)])
  qed
qed

lemma errs_cons:
  assumes "errs_ok s" and "main_ok s" and "sums_ok s" and "cons_step i l s = Some t"
  shows "errs_ok t"
proof -
  from assms(4) obtain pc' eff where x: "i < length (x_cons s)"
    "cons_move (ctx_done s) (x_next s) l (x_cons s ! i) = Some (pc', eff)"
    "do_eff i eff (s\<lparr>x_cons := (x_cons s)[i := pc']\<rparr>) = Some t" by (rule cons_stepE)
  note m = cons_step_main [OF assms(2,4)]
  have p: "\<not> x_panicked t" using sums_cons(2) [OF assms(3,4)] m(2) assms(1) by (simp add: errs_ok_def)
  have "tally pc_sent t = tally pc_sent s + (case eff of Sent e \<Rightarrow> {#e#} | _ \<Rightarrow> {#})"
    using balance_cancel [OF cons_tally [OF x(1,3)], of pc_sent "{#}"] move_errors [OF x(2)] by simp
  then have "mset (chan_buf (x_errs t)) = tally pc_sent t" "chan_cap (x_errs t) = chan_cap (x_errs s)" "chan_ok (x_errs t)"
    using x(3) m(1,2) assms(1) by (cases eff; auto simp: errs_ok_def dest!: chan.send_Some split: if_splits)+
  with p m(1) assms(1) do_eff_frame(1,2) [OF x(3)] show ?thesis by (auto simp: errs_ok_def)
qed

lemma closer_cons:
  assumes "closer_sound s" and "cons_step i l s = Some t"
  shows "closer_sound t"
  using assms(2)
proof (rule cons_stepE)
  fix pc' eff
  assume "do_eff i eff (s\<lparr>x_cons := (x_cons s)[i := pc']\<rparr>) = Some t"
  from do_eff_frame [OF this] assms(1) show ?thesis by (simp add: closer_sound_def split: stop_pc.splits)
qed

subsection \<open>The invariant holds\<close>

text \<open>The steps of the other goroutines leave the consumers' shared sums alone, but for a spawn.\<close>

lemma not_consumer_frame:
  assumes "lstep l s = Some t" and "\<And>i c. l \<noteq> Consumer i c"
  shows "x_gauge t = x_gauge s" "x_slots t = x_slots s" "x_next t = x_next s" "x_dead t = x_dead s"
    "x_got t = x_got s" "x_handled t = x_handled s" "x_reported t = x_reported s"
    "x_panicked t = x_panicked s" "chan_cap (x_errs t) = chan_cap (x_errs s)"
    "x_onError t = x_onError s"
  using assms by (cases l; auto split: if_splits main_pc.splits option.splits dest!: chan.recv_Some)+

lemma not_consumer_chan:
  "lstep l s = Some t \<Longrightarrow> (\<And>i c. l \<noteq> Consumer i c) \<Longrightarrow> chan_ok (x_errs s) \<Longrightarrow> chan_ok (x_errs t)"
  by (cases l) (auto split: if_splits main_pc.splits option.splits dest: chan.ok_recv)

lemma spawn_cons:
  assumes "lstep l s = Some t" and "\<And>i c. l \<noteq> Consumer i c"
  obtains (same) "x_cons t = x_cons s" "x_wg t = x_wg s"
  | (spawn) k where "x_main s = MSpawn k" "k < length (x_cons s)" "x_cons t = (x_cons s)[k := KPoll]"
      "x_wg t = x_wg s + 1" "x_main t = MSpawn (Suc k)" "x_errs t = x_errs s"
  using assms by (cases l) (auto split: if_splits main_pc.splits option.splits)

lemma spawn_tally:
  fixes f :: "cons_pc \<Rightarrow> 'a :: cancel_comm_monoid_add"
  assumes "main_ok s" and "x_main s = MSpawn k" and "k < length (x_cons s)"
    and "x_cons t = (x_cons s)[k := KPoll]" and "f KUnborn = 0"
  shows "tally f t = tally f s + f KPoll" and "x_cons s ! k = KUnborn"
proof -
  from assms(1-3) show k: "x_cons s ! k = KUnborn" by (simp add: main_ok_def)
  with sum_list_map_update [OF assms(3), of f KPoll] assms(4,5) show "tally f t = tally f s + f KPoll"
    by (simp add: tally_def)
qed

lemma sums_other:
  assumes "sums_ok s" and "main_ok s" and "lstep l s = Some t" and "\<And>i c. l \<noteq> Consumer i c"
  shows "sums_ok t"
  using assms(3,4)
proof (cases rule: spawn_cons)
  case same
  with assms(1) not_consumer_frame [OF assms(3,4)] show ?thesis by (simp add: sums_ok_def tally_def)
next
  case (spawn k)
  note f = spawn_tally(1) [OF assms(2) spawn(1-3)]
  show ?thesis
    using assms(1) not_consumer_frame [OF assms(3,4)] spawn(4)
    by (simp add: sums_ok_def f)
qed

lemma slots_other:
  assumes "slots_ok s" and "main_ok s" and "lstep l s = Some t" and "\<And>i c. l \<noteq> Consumer i c"
  shows "slots_ok t"
  using assms(3,4)
proof (cases rule: spawn_cons)
  case same
  with assms(1) not_consumer_frame(2) [OF assms(3,4)] show ?thesis by (simp add: slots_ok_def)
next
  case (spawn k)
  have "x_cons s ! k = KUnborn" by (rule spawn_tally(2) [OF assms(2) spawn(1-3), of "\<lambda>_. 0 :: nat"]) simp
  with assms(1) spawn(2) have "x_slots s ! k = StateUnknown"
    by (auto simp: slots_ok_def dest: list_all2_nthD)
  with list_all2_update_cong [of slot_ok "x_cons s" "x_slots s" KPoll StateUnknown k] assms(1)
  have "list_all2 slot_ok ((x_cons s)[k := KPoll]) (x_slots s)"
    by (metis list_update_id slot_ok.simps(2) slots_ok_def)
  with spawn(3) not_consumer_frame(2) [OF assms(3,4)] show ?thesis by (simp add: slots_ok_def)
qed

lemma errs_other:
  assumes "errs_ok s" and "main_ok s" and "lstep l s = Some t" and "\<And>i c. l \<noteq> Consumer i c"
  shows "errs_ok t"
  using assms(3,4)
proof (cases rule: spawn_cons)
  case same
  have tl: "tally pc_sent t = tally pc_sent s" using same by (simp add: tally_def)
  have "errs_main (x_main t) (chan_buf (x_errs t)) (tally pc_sent t)"
  proof (cases l)
    case (Call j)
    with assms(1-3) tl show ?thesis by (auto simp: errs_ok_def main_ok_def split: if_splits)
  next
    case Drain
    with assms(3) obtain errList where m: "x_main s = MDrain errList" by (auto split: main_pc.splits)
    show ?thesis
    proof (cases "try_recv (x_errs s)")
      case None
      with m Drain assms(1,3) tl show ?thesis by (auto simp: errs_ok_def chan.recv_None)
    next
      case (Some x)
      then obtain e ch where x: "try_recv (x_errs s) = Some (e, ch)" by (cases x) auto
      from chan.recv_Some [OF x] x m Drain assms(1,3) tl show ?thesis by (auto simp: errs_ok_def)
    qed
  qed (use assms(1,3,4) tl in \<open>auto simp: errs_ok_def split: if_splits main_pc.splits\<close>)
  with same assms(1) not_consumer_frame(8,9) [OF assms(3,4)] not_consumer_chan [OF assms(3,4)] show ?thesis
    by (simp add: errs_ok_def)
next
  case (spawn k)
  note f = spawn_tally(1) [OF assms(2) spawn(1-3), of pc_sent]
  show ?thesis
    using assms(1) not_consumer_frame(8,9) [OF assms(3,4)] spawn by (simp add: errs_ok_def f)
qed

lemma wg_zero:
  assumes "sums_ok s" and "x_wg s = 0" and "KUnborn \<notin> set (x_cons s)"
  shows "all_gone (x_cons s)"
proof -
  have "\<exists>r. pc = KGone r" if "pc \<in> set (x_cons s)" for pc
  proof -
    have "pc_live pc = 0" "pc \<noteq> KUnborn" using that assms by (auto simp: sums_ok_def tally_def)
    then show ?thesis by (cases pc) simp_all
  qed
  then show ?thesis by (simp add: all_gone_def)
qed

text \<open>The three outcomes of the critical section of \<^verbatim>\<open>Start\<close>.\<close>

lemma call_cases:
  assumes "lstep (Call j) s = Some t"
  obtains pc where "t = s\<lparr>x_calls := (x_calls s)[j := pc]\<rparr>" "x_closed s \<or> x_started s"
      "calls_at SIdle (x_calls s) = Suc (calls_at SIdle (x_calls t))"
      "calls_at SRunning (x_calls t) = calls_at SRunning (x_calls s)"
  | "t = s\<lparr>x_calls := (x_calls s)[j := SRunning], x_started := True, x_main := MSpawn 0\<rparr>"
      "\<not> x_started s" "calls_at SIdle (x_calls s) = Suc (calls_at SIdle (x_calls t))"
      "calls_at SRunning (x_calls t) = calls_at SRunning (x_calls s) + 1"
proof -
  from assms have j: "j < length (x_calls s)" "x_calls s ! j = SIdle" by (auto split: if_splits)
  have u: "calls_at SIdle (x_calls s) = Suc (calls_at SIdle ((x_calls s)[j := pc]))"
      "calls_at SRunning ((x_calls s)[j := pc]) = calls_at SRunning (x_calls s) + of_bool (pc = SRunning)"
    if "pc \<noteq> SIdle" for pc
    using that count_update [OF j(1), of "(=) SIdle" pc] count_update [OF j(1), of "(=) SRunning" pc] j(2)
    by (auto simp: calls_at_def)
  show thesis
    using assms j
    by (auto split: if_splits intro: that(1) [of SRefused] that(1) [of STwice] that(2) simp: u)
qed

lemma main_call:
  assumes "main_ok s" and "lstep (Call j) s = Some t"
  shows "main_ok t"
  using assms(2)
proof (cases rule: call_cases)
  case (1 pc)
  with assms(1) show ?thesis by (simp add: main_ok_def)
next
  case 2
  with assms(1) show ?thesis by (auto simp: main_ok_def)
qed

lemma main_spawn:
  assumes "main_ok s" and "lstep Spawn s = Some t"
  shows "main_ok t"
proof -
  from assms(2) obtain k where m: "x_main s = MSpawn k" by (auto split: main_pc.splits)
  with assms(1) have k: "k \<le> length (x_cons s)" "\<forall>i < length (x_cons s). x_cons s ! i = KUnborn \<longleftrightarrow> k \<le> i"
    by (simp_all add: main_ok_def)
  show ?thesis
  proof (cases "k < length (x_cons s)")
    case True
    with k(2) have "\<forall>i < length (x_cons s). (x_cons s)[k := KPoll] ! i = KUnborn \<longleftrightarrow> Suc k \<le> i"
      by (auto simp: nth_list_update)
    with True m assms show ?thesis by (auto simp: main_ok_def)
  next
    case False
    with k have "KUnborn \<notin> set (x_cons s)" by (auto simp: in_set_conv_nth)
    with False m assms show ?thesis by (auto simp: main_ok_def)
  qed
qed

lemma main_other:
  assumes "main_ok s" and "sums_ok s" and "lstep l s = Some t" and "\<And>i c. l \<noteq> Consumer i c"
  shows "main_ok t"
proof (cases l)
  case (Call j)
  with main_call assms(1,3) show ?thesis by blast
next
  case Spawn
  with main_spawn assms(1,3) show ?thesis by blast
next
  case Join
  with assms(3) have "x_main s = MWait" "x_wg s = 0" by (auto split: if_splits)
  with Join assms(1,3) wg_zero [OF assms(2)] show ?thesis by (auto simp: main_ok_def)
qed (use assms(1,3,4) in \<open>auto simp: main_ok_def split: if_splits main_pc.splits option.splits\<close>)

lemma closer_other:
  assumes "closer_sound s" and "main_ok s" and "lstep l s = Some t" and "\<And>i c. l \<noteq> Consumer i c"
  shows "closer_sound t"
  using assms(1,3,4)
  by (cases l; cases "x_closer s")
    (auto simp: closer_sound_def split: if_splits main_pc.splits option.splits)

interpretation listener: invariant_system lstep listener_init listener_inv
proof
  fix s
  assume "listener_init s"
  then obtain b n k where s: "s = listener_start b n k" by (auto simp: listener_init_def)
  have z: "sum_list (replicate n {#}) = ({#} :: nat multiset)" "sum_list (replicate n {#}) = ({#} :: go_error multiset)"
    by (induction n) simp_all
  have "calls_at SRunning (replicate k SIdle) = 0" by (induction k) (simp_all add: calls_at_def)
  then show "listener_inv s"
    by (simp add: s listener_inv_def listener_start_def sums_ok_def slots_ok_def errs_ok_def main_ok_def
        closer_sound_def tally_def z sum_list_replicate list_all2_conv_all_nth)
next
  fix s l t
  assume inv: "listener_inv s" and step: "lstep l s = Some t"
  show "listener_inv t"
  proof (cases "\<exists>i c. l = Consumer i c")
    case True
    then obtain i c where "cons_step i c s = Some t" using step by auto
    with inv show ?thesis
      unfolding listener_inv_def
      by (blast intro: sums_cons slots_cons errs_cons cons_step_main closer_cons)
  next
    case False
    then have "\<And>i c. l \<noteq> Consumer i c" by blast
    with inv step show ?thesis
      unfolding listener_inv_def
      by (blast intro: sums_other slots_other errs_other main_other closer_other)
  qed
qed

subsection \<open>Shutdown\<close>

text \<open>How many steps a consumer can still take once its context is done.\<close>

fun pc_rank :: "cons_pc \<Rightarrow> nat" where
  "pc_rank KUnborn = 15"
| "pc_rank KPoll = 13"
| "pc_rank KMark = 12"
| "pc_rank KDial = 11"
| "pc_rank (KDialErr _) = 6"
| "pc_rank (KUp _) = 10"
| "pc_rank (KCount _) = 9"
| "pc_rank (KHead _) = 8"
| "pc_rank (KOpen _) = 9"
| "pc_rank (KTop _) = 8"
| "pc_rank (KGet _) = 10"
| "pc_rank (KHandle _ _) = 9"
| "pc_rank (KLoopErr _ _) = 8"
| "pc_rank (KBroken _) = 11"
| "pc_rank (KReconn _) = 10"
| "pc_rank (KReconnErr _ _) = 8"
| "pc_rank (KBack _) = 9"
| "pc_rank (KUncount _ _) = 7"
| "pc_rank (KDisc _ _) = 6"
| "pc_rank (KEnd _) = 5"
| "pc_rank (KReport _) = 4"
| "pc_rank (KSend _) = 3"
| "pc_rank (KLeave _) = 1"
| "pc_rank (KGone _) = 0"

fun main_rank :: "nat \<Rightarrow> main_pc \<Rightarrow> nat" where
  "main_rank n MIdle = n + 5"
| "main_rank n (MSpawn k) = (n - k) + 5"
| "main_rank n MWait = 4"
| "main_rank n (MDrain _) = 3"
| "main_rank n (MCancel _) = 2"
| "main_rank n (MClose _) = 1"
| "main_rank n (MRet _) = 0"

fun stop_rank :: "stop_pc \<Rightarrow> nat" where
  "stop_rank XIdle = 3"
| "stop_rank XCancel = 2"
| "stop_rank XWait = 1"
| "stop_rank XDone = 0"

definition listener_rank :: "lsys \<Rightarrow> nat" where
  "listener_rank s = tally pc_rank s + main_rank (length (x_cons s)) (x_main s) + stop_rank (x_closer s) +
     of_bool (\<not> x_parent s) + calls_at SIdle (x_calls s) + length (chan_buf (x_errs s))"

lemma move_rank:
  "cons_move True n l pc = Some (pc', eff) \<Longrightarrow> pc_rank pc' + of_bool (\<exists>e. eff = Sent e) < pc_rank pc"
  by (cases pc) (auto simp: move_defs split: if_splits cons_label.splits option.splits)

lemma rank_cons:
  assumes "ctx_done s" and "cons_step i l s = Some t"
  shows "listener_rank t < listener_rank s"
proof -
  from assms(2) obtain pc' eff where x: "i < length (x_cons s)"
    "cons_move (ctx_done s) (x_next s) l (x_cons s ! i) = Some (pc', eff)"
    "do_eff i eff (s\<lparr>x_cons := (x_cons s)[i := pc']\<rparr>) = Some t" by (rule cons_stepE)
  have "length (chan_buf (x_errs t)) \<le> length (chan_buf (x_errs s)) + of_bool (\<exists>e. eff = Sent e)"
    using x(3) by (cases eff) (auto split: if_splits dest!: chan.send_Some)
  moreover have "tally pc_rank t + of_bool (\<exists>e. eff = Sent e) < tally pc_rank s"
    using cons_tally [OF x(1,3), of pc_rank] move_rank [of "x_next s" l "x_cons s ! i"] x(2) assms(1) by auto
  ultimately show ?thesis using do_eff_frame [OF x(3)] by (simp add: listener_rank_def)
qed

lemma rank_other:
  assumes "main_ok s" and "lstep l s = Some t" and "\<And>i c. l \<noteq> Consumer i c"
  shows "listener_rank t < listener_rank s"
proof (cases l)
  case (Call j)
  with assms(2) have "lstep (Call j) s = Some t" by simp
  then show ?thesis
    by (cases rule: call_cases) (use assms(1) in \<open>simp_all add: listener_rank_def main_ok_def tally_def\<close>)
next
  case Spawn
  with assms(2) obtain k where m: "x_main s = MSpawn k" by (auto split: main_pc.splits)
  show ?thesis
  proof (cases "k < length (x_cons s)")
    case True
    with m assms(1) have "x_cons s ! k = KUnborn" by (simp add: main_ok_def)
    with cons_tally_update [OF True, of pc_rank KPoll] True m Spawn assms(2) show ?thesis
      by (auto simp: listener_rank_def tally_def)
  next
    case False
    with m Spawn assms(2) show ?thesis by (auto simp: listener_rank_def tally_def)
  qed
next
  case Drain
  with assms(2) show ?thesis
    by (auto simp: listener_rank_def tally_def split: main_pc.splits option.splits dest!: chan.recv_Some)
qed (use assms in \<open>auto simp: listener_rank_def tally_def split: if_splits main_pc.splits\<close>)

lemma ctx_done_step:
  assumes "ctx_done s" and "lstep l s = Some t"
  shows "ctx_done t"
proof (cases "\<exists>i c. l = Consumer i c")
  case True
  then obtain i c where "cons_step i c s = Some t" using assms(2) by auto
  then show ?thesis
    by (rule cons_stepE) (use assms(1) do_eff_frame(5,6) in \<open>force simp: ctx_done_def\<close>)
next
  case False
  with assms show ?thesis
    by (cases l) (auto simp: ctx_done_def split: if_splits main_pc.splits option.splits)
qed

interpretation listener_drain: draining_system lstep listener_init listener_inv listener_rank ctx_done
proof
  fix s l t
  assume "listener_inv s" "ctx_done s" "lstep l s = Some t"
  then show "listener_rank t < listener_rank s"
    by (cases "\<exists>i c. l = Consumer i c") (auto simp: listener_inv_def intro: rank_cons rank_other)
qed (rule ctx_done_step)

text \<open>Every consumer that is born and not gone can go on, whatever it waits for.\<close>

lemma move_enabled: "pc_live pc \<noteq> 0 \<Longrightarrow> \<exists>l pc' eff. cons_move d n l pc = Some (pc', eff)"
  by (cases pc) (auto simp: move_defs split: option.splits cons_label.splits intro: exI [of _ Move] exI [of _ Answer])

lemma sent_bound:
  assumes "errs_ok s" and "main_phase (x_main s) False (x_cons s)" and "i < length (x_cons s)"
    and "x_cons s ! i = KSend e"
  shows "length (chan_buf (x_errs s)) < chan_cap (x_errs s)"
proof -
  let ?n = "\<lambda>pc. size (pc_sent pc)"
  have one: "?n pc \<le> 1" for pc by (cases pc) (auto split: option.splits)
  have "sum_list (map ?n xs) \<le> length xs" for xs
  proof (induction xs)
    case (Cons a xs)
    with one [of a] show ?case by simp
  qed simp
  from this [of "(x_cons s)[i := KGone (Some e)]"]
  have "tally ?n s < length (x_cons s)"
    using sum_list_map_update [OF assms(3), of ?n "KGone (Some e)"] assms(4) by (simp add: tally_def)
  moreover have "size (sum_list (map pc_sent xs)) = sum_list (map ?n xs)" for xs by (induction xs) simp_all
  moreover have "mset (chan_buf (x_errs s)) = tally pc_sent s"
    using assms(1,2) by (cases "x_main s") (auto simp: errs_ok_def)
  then have "length (chan_buf (x_errs s)) = size (tally pc_sent s)" by (metis size_mset)
  ultimately show ?thesis using assms(1) by (simp add: errs_ok_def tally_def)
qed

lemma cons_enabled:
  assumes "listener_inv s" and "i < length (x_cons s)" and "pc_live (x_cons s ! i) \<noteq> 0"
  shows "\<exists>l. lstep (Consumer i l) s \<noteq> None"
proof -
  from move_enabled [OF assms(3)] obtain l pc' eff where
    m: "cons_move (ctx_done s) (x_next s) l (x_cons s ! i) = Some (pc', eff)" by blast
  have "do_eff i eff (s\<lparr>x_cons := (x_cons s)[i := pc']\<rparr>) \<noteq> None"
  proof (cases "\<exists>e. eff = Sent e")
    case True
    then obtain e where e: "eff = Sent e" by blast
    with m have k: "x_cons s ! i = KSend e"
      by (cases "x_cons s ! i") (auto simp: move_defs split: if_splits cons_label.splits option.splits)
    show ?thesis
    proof (cases "x_errs_closed s")
      case False
      with assms(1) have "main_phase (x_main s) False (x_cons s)" by (simp add: listener_inv_def main_ok_def)
      with sent_bound [OF _ _ assms(2) k] assms(1) chan.send_enabled [of "x_errs s" e] False e show ?thesis
        by (auto simp: listener_inv_def)
    qed (simp add: e)
  qed (cases eff; simp)
  with m assms(2) have "lstep (Consumer i l) s \<noteq> None" by (simp add: cons_step_def)
  then show ?thesis by blast
qed

text \<open>The steps of the goroutines of \<^verbatim>\<open>Start\<close>: not those of \<^verbatim>\<open>close\<close> or of the caller's context.\<close>

definition start_label :: "llabel \<Rightarrow> bool" where
  "start_label l \<longleftrightarrow> l \<notin> {ParentDone, CloseLock, CloseCancel, CloseWait}"

text \<open>Of these, the steps of the goroutines that are already running: those of the call of
  \<^verbatim>\<open>Start\<close> that got through and of its consumers.\<close>

definition running_label :: "llabel \<Rightarrow> bool" where
  "running_label l \<longleftrightarrow> l \<in> {Spawn, Join, Drain, Stop, SignalDone} \<or> (\<exists>i c. l = Consumer i c)"

lemma running_enabled:
  assumes "listener_inv s"
  shows "x_main s = MIdle \<or> (\<exists>r. x_main s = MRet r) \<or> (\<exists>l. running_label l \<and> lstep l s \<noteq> None)"
proof (cases "x_main s")
  case MWait
  show ?thesis
  proof (cases "x_wg s = 0")
    case True
    with MWait have "lstep Join s \<noteq> None" by simp
    moreover have "running_label Join" by (simp add: running_label_def)
    ultimately show ?thesis by blast
  next
    case False
    then have "tally pc_live s \<noteq> 0" using assms by (simp add: listener_inv_def sums_ok_def)
    then have "\<exists>pc \<in> set (x_cons s). pc_live pc \<noteq> 0"
      unfolding tally_def by (rule contrapos_np) (intro sum_list_map_zero, blast)
    then obtain i where "i < length (x_cons s)" "pc_live (x_cons s ! i) \<noteq> 0"
      by (auto simp: in_set_conv_nth)
    from cons_enabled [OF assms this] obtain l where "lstep (Consumer i l) s \<noteq> None" by blast
    moreover have "running_label (Consumer i l)" by (simp add: running_label_def)
    ultimately show ?thesis by blast
  qed
next
  case (MSpawn k)
  then have "lstep Spawn s \<noteq> None" by simp
  then show ?thesis unfolding running_label_def by blast
next
  case (MDrain errList)
  then have "lstep Drain s \<noteq> None" by simp
  then show ?thesis unfolding running_label_def by blast
next
  case (MCancel r)
  then have "lstep Stop s \<noteq> None" by simp
  then show ?thesis unfolding running_label_def by blast
next
  case (MClose r)
  then have "lstep SignalDone s \<noteq> None" by simp
  then show ?thesis unfolding running_label_def by blast
qed auto

lemma stuck_start:
  assumes "listener_inv s" and "\<And>l. start_label l \<Longrightarrow> lstep l s = None"
  shows "SIdle \<notin> set (x_calls s)" and "x_main s = MIdle \<or> (\<exists>r. x_main s = MRet r)"
proof -
  show "SIdle \<notin> set (x_calls s)"
  proof
    assume "SIdle \<in> set (x_calls s)"
    then obtain j where "j < length (x_calls s)" "x_calls s ! j = SIdle" by (auto simp: in_set_conv_nth)
    with assms(2) [of "Call j"] show False by (simp add: start_label_def)
  qed
  have "lstep l s = None" if "running_label l" for l
    by (rule assms(2)) (use that in \<open>auto simp: running_label_def start_label_def\<close>)
  with running_enabled [OF assms(1)] show "x_main s = MIdle \<or> (\<exists>r. x_main s = MRet r)" by auto
qed

lemma close_enabled:
  assumes "listener_inv s" and "x_closer s = XCancel \<or> x_closer s = XWait"
  shows "lstep CloseCancel s \<noteq> None \<or> lstep CloseWait s \<noteq> None \<or> (\<exists>l. running_label l \<and> lstep l s \<noteq> None)"
proof (cases "x_closer s = XCancel \<or> x_done s")
  case True
  with assms(2) show ?thesis by auto
next
  case False
  with assms have "x_main s \<noteq> MIdle" "\<nexists>r. x_main s = MRet r"
    by (auto simp: listener_inv_def main_ok_def closer_sound_def)
  with running_enabled [OF assms(1)] show ?thesis by blast
qed

lemma gone_tally: "all_gone (x_cons s) \<Longrightarrow> (\<And>r. f (KGone r) = 0) \<Longrightarrow> tally f s = 0"
  unfolding tally_def by (rule sum_list_map_zero) (auto simp: all_gone_def)

lemma listener_reachable: "reachable lstep listener_init s \<Longrightarrow> listener_inv s"
  by (rule listener.inv_reachable)

subsection \<open>What the goroutines of a listener guarantee\<close>

text \<open>A connection has at most one owner and its owner has not closed it.\<close>

lemma held_once:
  assumes "sums_ok s" and "i < length (x_cons s)" and "c \<in># pc_held (x_cons s ! i)"
  shows "c \<notin> set (x_dead s)" and "\<And>j. j < length (x_cons s) \<Longrightarrow> c \<in># pc_held (x_cons s ! j) \<Longrightarrow> j = i"
proof -
  have mono: "count (pc_held x) c \<le> count (sum_list (map pc_held xs)) c" if "x \<in> set xs" for x xs
    using that by (induction xs) auto
  have "count (mset (x_dead s) + tally pc_held s) c = count (mset_set {..<x_next s}) c"
    using assms(1) by (simp add: sums_ok_def)
  then have one: "count (mset (x_dead s)) c + count (tally pc_held s) c \<le> 1"
    by (simp add: count_mset_set')
  have i: "0 < count (pc_held (x_cons s ! i)) c" using assms(3) by simp
  have "count (pc_held (x_cons s ! i)) c \<le> count (tally pc_held s) c"
    unfolding tally_def by (rule mono) (simp add: assms(2))
  with i one have "count (mset (x_dead s)) c = 0" by linarith
  then show "c \<notin> set (x_dead s)" by (simp add: count_mset_0_iff)
  show "j = i" if j: "j < length (x_cons s)" "c \<in># pc_held (x_cons s ! j)" for j
  proof (rule ccontr)
    assume ne: "j \<noteq> i"
    let ?xs = "(x_cons s)[i := KUnborn]"
    from ne j have "x_cons s ! j \<in> set ?xs" by (metis length_list_update nth_list_update_neq nth_mem)
    from mono [OF this] j(2) have "0 < count (sum_list (map pc_held ?xs)) c"
      using count_greater_zero_iff [of "pc_held (x_cons s ! j)" c] by linarith
    moreover have "sum_list (map pc_held ?xs) + pc_held (x_cons s ! i) = tally pc_held s"
      using sum_list_map_update [OF assms(2), of pc_held KUnborn] by (simp add: tally_def)
    then have "count (sum_list (map pc_held ?xs)) c + count (pc_held (x_cons s ! i)) c = count (tally pc_held s) c"
      by (metis count_union)
    ultimately show False using i one by linarith
  qed
qed

lemma slot_connected:
  "slot_ok pc StateConnected \<Longrightarrow> (\<exists>c. pc_held pc = {#c#}) \<or> (\<exists>r. pc = KEnd r)"
  by (cases pc) (auto simp: exit_state_def split: if_splits)

lemma slot_ended: "slot_ok pc st \<Longrightarrow> st = StateStopped \<or> st = StateFailed \<Longrightarrow> pc_held pc = {#} \<and> pc_msg pc = {#}"
  by (cases pc) auto

text \<open>
  C14: what an observer sees of a running listener. In every reachable state, with any
  interleaving of \<^verbatim>\<open>Start\<close> calls, consumers, \<^verbatim>\<open>close\<close> and a cancelled context: no send hits a
  closed channel and the wait group never goes negative; the gauge counts the consumers
  between their increment and their decrement; a consumer shown as connected owns an open
  connection that no other consumer uses, unless it is about to store its final state; one
  shown as stopped or failed owns none; at most one \<^verbatim>\<open>Start\<close> got through; and every message
  received was handed to the handler or is being handled.
\<close>

theorem listener_observables:
  assumes "reachable lstep listener_init s"
  shows "\<not> x_panicked s \<and> x_gauge s = of_nat (tally pc_counted s) \<and> calls_at SRunning (x_calls s) \<le> 1 \<and>
    mset (x_got s) = mset (x_handled s) + tally pc_msg s \<and>
    (\<forall>i < length (x_cons s).
       (x_slots s ! i = StateConnected \<longrightarrow>
         (\<exists>r. x_cons s ! i = KEnd r) \<or>
         (\<exists>c. pc_held (x_cons s ! i) = {#c#} \<and> c \<notin> set (x_dead s) \<and>
            (\<forall>j < length (x_cons s). c \<in># pc_held (x_cons s ! j) \<longrightarrow> j = i))) \<and>
       (x_slots s ! i = StateStopped \<or> x_slots s ! i = StateFailed \<longrightarrow> pc_held (x_cons s ! i) = {#}))"
proof -
  from listener_reachable [OF assms] have inv: "sums_ok s" "slots_ok s" "errs_ok s" "main_ok s"
    by (simp_all add: listener_inv_def)
  have "(x_slots s ! i = StateConnected \<longrightarrow>
         (\<exists>r. x_cons s ! i = KEnd r) \<or>
         (\<exists>c. pc_held (x_cons s ! i) = {#c#} \<and> c \<notin> set (x_dead s) \<and>
            (\<forall>j < length (x_cons s). c \<in># pc_held (x_cons s ! j) \<longrightarrow> j = i))) \<and>
       (x_slots s ! i = StateStopped \<or> x_slots s ! i = StateFailed \<longrightarrow> pc_held (x_cons s ! i) = {#})"
    if i: "i < length (x_cons s)" for i
  proof -
    have ok: "slot_ok (x_cons s ! i) (x_slots s ! i)" using inv(2) i by (simp add: slots_ok_def list_all2_nthD)
    from held_once [OF inv(1) i]
    have "c \<notin> set (x_dead s) \<and> (\<forall>j < length (x_cons s). c \<in># pc_held (x_cons s ! j) \<longrightarrow> j = i)"
      if "pc_held (x_cons s ! i) = {#c#}" for c using that by auto
    with ok slot_connected [of "x_cons s ! i"] slot_ended [OF ok] show ?thesis by metis
  qed
  with inv show ?thesis by (simp add: sums_ok_def errs_ok_def main_ok_def)
qed

lemma gone_results:
  assumes "all_gone cs"
  obtains rs where "cs = map KGone rs"
proof
  show "cs = map KGone (map (\<lambda>pc. case pc of KGone r \<Rightarrow> r | _ \<Rightarrow> None) cs)"
    using assms by (induction cs) (auto simp: all_gone_def)
qed

definition errors_of :: "go_error option list \<Rightarrow> go_error list" where
  "errors_of rs = map the (filter (\<lambda>r. r \<noteq> None) rs)"

lemma tally_errors:
  "x_cons s = map KGone rs \<Longrightarrow> tally pc_sent s = mset (errors_of rs) \<and> tally pc_reported s = mset (errors_of rs)"
proof -
  have "sum_list (map f (map KGone rs)) = mset (errors_of rs)" if "\<And>r. f (KGone r) = pc_sent (KGone r)" for f
    by (induction rs) (auto simp: errors_of_def that split: option.splits)
  then show "x_cons s = map KGone rs \<Longrightarrow> ?thesis" by (simp add: tally_def)
qed

lemma returned_clean:
  assumes "listener_inv s" and "x_main s = MRet r"
  shows "mset (x_dead s) = mset_set {..<x_next s}" "x_gauge s = 0" "mset (x_got s) = mset (x_handled s)"
proof -
  have gone: "all_gone (x_cons s)" using assms by (simp add: listener_inv_def main_ok_def)
  from assms(1) gone_tally [OF gone, of pc_held] gone_tally [OF gone, of pc_counted] gone_tally [OF gone, of pc_msg]
  show "mset (x_dead s) = mset_set {..<x_next s}" "x_gauge s = 0" "mset (x_got s) = mset (x_handled s)"
    by (simp_all add: listener_inv_def sums_ok_def)
qed

text \<open>
  C11: how \<^verbatim>\<open>Start\<close> ends. When the call that got through has returned, in whatever order its
  consumers ran and ended, each consumer is gone and its slot tells how: \<^verbatim>\<open>StateStopped\<close> for
  nil, \<^verbatim>\<open>StateFailed\<close> for an error. The value returned joins exactly the consumers' errors
  (in some order), each of which was also given to the error callback if the listener has
  one, and is nil exactly when every consumer stopped cleanly; every connection dialled has been closed exactly once, the gauge is back
  at zero and every message received was handled.
\<close>

theorem listener_start_result:
  assumes "reachable lstep listener_init s" and "x_main s = MRet r"
  shows "\<exists>rs errList. x_cons s = map KGone rs \<and> x_slots s = map exit_state rs \<and>
    r = errors_join errList \<and> mset errList = mset (errors_of rs) \<and>
    mset (x_reported s) = (if x_onError s then mset errList else {#}) \<and>
    (r = None \<longleftrightarrow> (\<forall>st \<in> set (x_slots s). st = StateStopped)) \<and>
    mset (x_dead s) = mset_set {..<x_next s} \<and> x_gauge s = 0 \<and> mset (x_got s) = mset (x_handled s)"
proof -
  from listener_reachable [OF assms(1)] have inv: "sums_ok s" "slots_ok s" "errs_ok s" "main_ok s"
    by (simp_all add: listener_inv_def)
  from inv(4) assms(2) have gone: "all_gone (x_cons s)" by (simp add: main_ok_def)
  then obtain rs where rs: "x_cons s = map KGone rs" by (rule gone_results)
  have slots: "x_slots s = map exit_state rs"
    using inv(2) rs by (auto simp: slots_ok_def list_all2_conv_all_nth intro: nth_equalityI)
  from inv(3) assms(2) tally_errors [OF rs] obtain errList where
    e: "r = errors_join errList" "mset errList = mset (errors_of rs)" by (auto simp: errs_ok_def)
  have "errList = [] \<longleftrightarrow> errors_of rs = []" using e(2) by (metis mset_zero_iff)
  then have "r = None \<longleftrightarrow> (\<forall>st \<in> set (x_slots s). st = StateStopped)"
    by (auto simp: e(1) errors_join_def slots errors_of_def exit_state_def filter_empty_conv)
  moreover have "mset (x_reported s) = (if x_onError s then mset errList else {#})" using inv(1) e(2) tally_errors [OF rs] by (simp add: sums_ok_def)
  ultimately show ?thesis using rs slots e returned_clean [OF listener_reachable [OF assms(1)] assms(2)] by blast
qed

text \<open>After \<^verbatim>\<open>close\<close> has returned nothing moves but refused calls of \<^verbatim>\<open>Start\<close> and the caller's context.\<close>

lemma closed_idle:
  assumes "listener_inv s" and "x_closer s = XDone"
  shows "x_main s = MIdle \<or> (\<exists>r. x_main s = MRet r)" and "\<And>pc. pc \<in> set (x_cons s) \<Longrightarrow> pc = KUnborn \<or> (\<exists>r. pc = KGone r)"
proof -
  show m: "x_main s = MIdle \<or> (\<exists>r. x_main s = MRet r)"
    using assms by (auto simp: listener_inv_def closer_sound_def main_ok_def)
  show "pc = KUnborn \<or> (\<exists>r. pc = KGone r)" if "pc \<in> set (x_cons s)" for pc
    using m assms(1) that by (auto simp: listener_inv_def main_ok_def all_gone_def)
qed

lemma closed_step:
  assumes "listener_inv s" and "x_closer s = XDone" and "lstep l s = Some t"
  shows "x_closer t = XDone \<and> x_cons t = x_cons s \<and> x_got t = x_got s \<and> x_handled t = x_handled s \<and>
    x_next t = x_next s \<and> x_dead t = x_dead s \<and> x_slots t = x_slots s"
proof (cases "\<exists>i c. l = Consumer i c")
  case True
  then obtain i c where "cons_step i c s = Some t" using assms(3) by auto
  with closed_idle(1) [OF assms(1,2)] cons_step_main(1) [of s i c t] assms(1) show ?thesis
    by (auto simp: listener_inv_def)
next
  case False
  have "x_closed s" using assms(1,2) by (simp add: listener_inv_def closer_sound_def)
  with False closed_idle(1) [OF assms(1,2)] assms(2,3) show ?thesis
    by (cases l) (auto split: if_splits)
qed

text \<open>
  C12: after \<^verbatim>\<open>close\<close>. Once it has returned, no connection of the listener is open, the gauge
  is zero and every message received has been handled; and whatever happens afterwards, no
  consumer is started or moves, nothing is dialled or received and no handler runs.
\<close>

theorem listener_close_final:
  assumes "reachable lstep listener_init s" and "x_closer s = XDone" and "run_steps lstep ls s = Some t"
  shows "mset (x_dead s) = mset_set {..<x_next s} \<and> x_gauge s = 0 \<and> mset (x_got s) = mset (x_handled s) \<and>
    x_cons t = x_cons s \<and> x_slots t = x_slots s \<and> x_next t = x_next s \<and> x_got t = x_got s \<and> x_handled t = x_handled s"
proof -
  have inv: "listener_inv s" by (rule listener_reachable [OF assms(1)])
  have z: "tally f s = 0" if "f KUnborn = 0" "\<And>r. f (KGone r) = 0" for f :: "cons_pc \<Rightarrow> 'a :: comm_monoid_add"
    unfolding tally_def by (rule sum_list_map_zero) (use closed_idle(2) [OF inv assms(2)] that in force)
  have "x_cons t = x_cons s \<and> x_slots t = x_slots s \<and> x_next t = x_next s \<and> x_got t = x_got s \<and> x_handled t = x_handled s"
    using inv assms(2,3)
  proof (induction ls arbitrary: s)
    case Nil
    then show ?case by simp
  next
    case (Cons l ls)
    then obtain u where u: "lstep l s = Some u" "run_steps lstep ls u = Some t" by (auto split: option.splits)
    with Cons.IH [of u] closed_step [OF Cons.prems(1,2) u(1)] listener.inv_step [OF Cons.prems(1) u(1)]
    show ?case by simp
  qed
  moreover have "mset (x_dead s) = mset_set {..<x_next s}" "x_gauge s = 0" "mset (x_got s) = mset (x_handled s)"
    using inv z [of pc_held] z [of pc_counted] z [of pc_msg] by (simp_all add: listener_inv_def sums_ok_def)
  ultimately show ?thesis by blast
qed

lemma rank_bound:
  assumes "listener_inv s"
  shows "listener_rank s \<le> 17 * length (x_cons s) + length (x_calls s) + 9"
proof -
  have p: "pc_rank pc \<le> 15" for pc by (cases pc) simp_all
  have "sum_list (map pc_rank xs) \<le> 15 * length xs" for xs
  proof (induction xs)
    case (Cons a xs)
    with p [of a] show ?case by simp
  qed simp
  then have "tally pc_rank s \<le> 15 * length (x_cons s)" by (simp add: tally_def)
  moreover have "main_rank n m \<le> n + 5" for n m by (cases m) auto
  moreover have "stop_rank c \<le> 3" for c by (cases c) auto
  moreover have "calls_at SIdle (x_calls s) \<le> length (x_calls s)" by (simp add: calls_at_def)
  moreover have "length (chan_buf (x_errs s)) \<le> length (x_cons s)"
    using assms chan.ok_len [of "x_errs s"] by (simp add: listener_inv_def errs_ok_def)
  moreover have "of_bool (\<not> x_parent s) \<le> (1 :: nat)" by simp
  ultimately show ?thesis
    unfolding listener_rank_def
    using \<open>\<And>n m. main_rank n m \<le> n + 5\<close> [of "length (x_cons s)" "x_main s"] \<open>\<And>c. stop_rank c \<le> 3\<close> [of "x_closer s"]
    by linarith
qed

text \<open>
  C13: shutdown terminates. Once the context is done (the caller's was cancelled, or \<^verbatim>\<open>close\<close>
  cancelled the derived one), the listener can take only a number of steps that is linear in
  its concurrency, however its goroutines interleave and whatever MQ calls and handlers
  answer. In every state on the way a \<^verbatim>\<open>Start\<close> that got through and has not returned can go
  on by a step of its own or of one of its consumers, without any help from \<^verbatim>\<open>close\<close> or from the
  caller; a call of \<^verbatim>\<open>Start\<close> that has not begun can; and a \<^verbatim>\<open>close\<close> that has begun and not returned can
  go on itself or waits for such a step. So a shutdown ends, with
  every call returned, if the MQ calls and handlers in progress do.
\<close>

theorem listener_shutdown:
  assumes "reachable lstep listener_init s" and "ctx_done s" and "run_steps lstep ls s = Some t"
  shows "length ls \<le> 17 * length (x_cons s) + length (x_calls s) + 9 \<and>
    (x_main t = MIdle \<or> (\<exists>r. x_main t = MRet r) \<or> (\<exists>l. running_label l \<and> lstep l t \<noteq> None)) \<and>
    (\<forall>j < length (x_calls t). x_calls t ! j = SIdle \<longrightarrow> lstep (Call j) t \<noteq> None) \<and>
    (x_closer t = XIdle \<longrightarrow> lstep CloseLock t \<noteq> None) \<and>
    (x_closer t = XCancel \<or> x_closer t = XWait \<longrightarrow>
       lstep CloseCancel t \<noteq> None \<or> lstep CloseWait t \<noteq> None \<or> (\<exists>l. running_label l \<and> lstep l t \<noteq> None))"
proof -
  have inv: "listener_inv s" by (rule listener_reachable [OF assms(1)])
  from listener_drain.run_bounded [OF inv assms(2,3)] rank_bound [OF inv]
  have "length ls \<le> 17 * length (x_cons s) + length (x_calls s) + 9" by simp
  moreover have t: "listener_inv t" by (rule listener.inv_run [OF inv assms(3)])
  moreover have "lstep (Call j) t \<noteq> None" if "j < length (x_calls t)" "x_calls t ! j = SIdle" for j
    using that by simp
  moreover have "x_closer t = XIdle \<longrightarrow> lstep CloseLock t \<noteq> None" by simp
  ultimately show ?thesis using running_enabled [OF t] close_enabled [OF t] by blast
qed

subsection \<open>A served message and a shutdown\<close>

lemma start_reaches: "run_steps lstep ls (listener_start b n k) = Some s \<Longrightarrow> reachable lstep listener_init s"
  by (rule reachable_run [OF reachable.start]) (auto simp: listener_init_def)

definition serving_run :: "llabel list" where
  "serving_run = [Call 0, Spawn, Spawn] @ map (Consumer 0) [Move, Move, Answer, Move, Move, Move, Answer, Move, Arrives 7] @
     [CloseLock, CloseCancel]"

definition serving_state :: lsys where
  "serving_state = (listener_start True 1 2)\<lparr>x_started := True, x_closed := True, x_cancel := True, x_wg := 1,
     x_gauge := 1, x_slots := [StateConnected], x_calls := [SRunning, SIdle], x_main := MWait, x_closer := XWait,
     x_cons := [KHandle 0 7], x_next := 1, x_got := [7]\<rparr>"

definition shutdown_run :: "llabel list" where
  "shutdown_run = map (Consumer 0) [Answer, Move, Move, Answer, Move, Move] @
     [Join, Drain, Stop, SignalDone, CloseWait]"

definition shutdown_state :: lsys where
  "shutdown_state = (listener_start True 1 2)\<lparr>x_started := True, x_closed := True, x_cancel := True, x_done := True,
     x_slots := [StateStopped], x_errs_closed := True, x_calls := [SRunning, SIdle], x_main := MRet None,
     x_closer := XDone, x_cons := [KGone None], x_next := 1, x_dead := [0], x_got := [7], x_handled := [7]\<rparr>"

lemmas life_defs = listener_start_def cons_step_def ctx_done_def own_def call_def make_chan_def try_recv_def
  errors_join_def numeral_2_eq_2

lemma serving: "run_steps lstep serving_run (listener_start True 1 2) = Some serving_state"
  by (simp add: serving_run_def serving_state_def life_defs)

lemma shutdown: "run_steps lstep shutdown_run serving_state = Some shutdown_state"
  by (simp add: shutdown_run_def serving_state_def shutdown_state_def life_defs)

lemma shutdown_reachable: "reachable lstep listener_init shutdown_state"
  by (rule reachable_run [OF start_reaches [OF serving] shutdown])

theorem listener_observables_witness: "pc_held (x_cons serving_state ! 0) = {#0#} \<and> 0 \<notin> set (x_dead serving_state)"
  using listener_observables [OF start_reaches [OF serving]]
  by (auto simp: serving_state_def)

theorem listener_close_final_witness: "mset (x_got shutdown_state) = mset (x_handled shutdown_state)"
  using listener_close_final [OF shutdown_reachable, of "[]" shutdown_state] by (simp add: shutdown_state_def)

theorem listener_shutdown_witness: "length shutdown_run \<le> 28"
  using listener_shutdown [OF start_reaches [OF serving] _ shutdown] by (simp add: ctx_done_def serving_state_def)

text \<open>A consumer whose dial fails for good, in a listener with an error callback and in one without.\<close>

definition failing_run :: "llabel list" where
  "failing_run = [Call 0, Spawn, Spawn] @
     map (Consumer 0) [Move, Move, Fails down_error, Move, Move, Answer, Move, Move] @
     [Join, Drain, Drain, Stop, SignalDone]"

definition failed_state :: "bool \<Rightarrow> lsys" where
  "failed_state b = (listener_start b 1 2)\<lparr>x_started := True, x_cancel := True, x_done := True,
     x_slots := [StateFailed], x_errs_closed := True, x_calls := [SRunning, SIdle],
     x_main := MRet (errors_join [down_error]), x_cons := [KGone (Some down_error)],
     x_reported := if b then [down_error] else []\<rparr>"

lemma failing: "run_steps lstep failing_run (listener_start b 1 2) = Some (failed_state b)"
  by (simp add: failing_run_def failed_state_def life_defs try_send_def)

theorem listener_start_result_witness:
  "mset (x_reported (failed_state True)) = {#down_error#} \<and> mset (x_reported (failed_state False)) = {#} \<and>
   \<not> (\<forall>st \<in> set (x_slots (failed_state True)). st = StateStopped)"
proof -
  have m: "x_main (failed_state b) = MRet (errors_join [down_error])" for b by (simp add: failed_state_def)
  note res = listener_start_result [OF start_reaches [OF failing] m]
  from res [of True] res [of False] show ?thesis
    by (auto simp: failed_state_def listener_start_def errors_of_def errors_join_def)
qed

end
