(* ===== verification/Listener_Refinement.thy ===== *)
theory Listener_Refinement
  imports Listener_Life
begin

text \<open>
  The two models of the listener agree. \<open>MQ_Listener\<close> runs a consumer to its end as one
  function; \<open>Listener_Life\<close> interleaves the atomic steps of all goroutines. Here every
  completed call of \<^verbatim>\<open>runConsumer\<close> is a run of one consumer of \<open>Listener_Life\<close>, and every
  completed \<^verbatim>\<open>Start\<close> a run of the whole listener from its initial state to the return of
  \<^verbatim>\<open>Start\<close>, with the same result, states, gauge, messages and reports.
\<close>

subsection \<open>What both models show\<close>

text \<open>The errors reported to the callback without a message: those that ended a consumer.\<close>

fun stop_reports :: "mq_event list \<Rightarrow> go_error list" where
  "stop_reports [] = []"
| "stop_reports (EReport None e # evs) = e # stop_reports evs"
| "stop_reports (_ # evs) = stop_reports evs"

lemma stop_reports_append [simp]: "stop_reports (xs @ ys) = stop_reports xs @ stop_reports ys"
  by (induction xs rule: stop_reports.induct) simp_all

text \<open>\<open>es\<close> lists the errors in the channel.\<close>

definition life_sim :: "go_error list \<Rightarrow> 'w Listener \<Rightarrow> 'w io \<Rightarrow> lsys \<Rightarrow> bool" where
  "life_sim es l io s \<longleftrightarrow>
     x_slots s = l_states l \<and> x_gauge s = activeConns (l_tel l) \<and>
     length (x_got s) = length (received (trace io)) \<and> length (x_handled s) = length (handled (trace io)) \<and>
     (x_onError s \<longleftrightarrow> l_onError l \<noteq> None) \<and> x_reported s = stop_reports (trace io) \<and> chan_buf (x_errs s) = es"

lemma received_link: "received (filter (\<lambda>e. \<not> is_link e) evs) = received evs"
  by (induction evs rule: received.induct) simp_all

lemma handled_link: "handled (filter (\<lambda>e. \<not> is_link e) evs) = handled evs"
  by (induction evs rule: handled.induct) simp_all

lemma stop_reports_link: "stop_reports (filter (\<lambda>e. \<not> is_link e) evs) = stop_reports evs"
  by (induction evs rule: stop_reports.induct) simp_all

lemma life_sim_link:
  assumes "queue_trace io' = queue_trace io"
  shows "life_sim es l io' s = life_sim es l io s"
proof -
  from assms have "received (trace io') = received (trace io)" "handled (trace io') = handled (trace io)"
    "stop_reports (trace io') = stop_reports (trace io)"
    unfolding queue_trace_def by (metis received_link, metis handled_link, metis stop_reports_link)
  then show ?thesis by (simp add: life_sim_def)
qed

lemma life_sim_other [simp]:
  "life_sim es l io (s\<lparr>x_cons := cs\<rparr>) = life_sim es l io s"
  "life_sim es l io (s\<lparr>x_next := n\<rparr>) = life_sim es l io s"
  "life_sim es l io (s\<lparr>x_dead := ds\<rparr>) = life_sim es l io s"
  "life_sim es l io (s\<lparr>x_wg := k\<rparr>) = life_sim es l io s"
  "life_sim es l io (s\<lparr>x_panicked := b\<rparr>) = life_sim es l io s"
  "life_sim es l io (s\<lparr>x_parent := b\<rparr>) = life_sim es l io s"
  "life_sim es l io (s\<lparr>x_cancel := b\<rparr>) = life_sim es l io s"
  "life_sim es l io (s\<lparr>x_done := b\<rparr>) = life_sim es l io s"
  "life_sim es l io (s\<lparr>x_errs_closed := b\<rparr>) = life_sim es l io s"
  "life_sim es l io (s\<lparr>x_main := m\<rparr>) = life_sim es l io s"
  by (simp_all add: life_sim_def)

text \<open>
  A context stays done: \<open>D\<close> holds of the worlds in which it is, and neither asking for its
  error nor closing a queue or a connection undoes it.
\<close>

definition ctx_latches :: "('w \<Rightarrow> bool) \<Rightarrow> 'w env \<Rightarrow> ctx \<Rightarrow> bool" where
  "ctx_latches D env ctx \<longleftrightarrow>
     (\<forall>w. fst (ctxErr env ctx w) \<noteq> None \<longleftrightarrow> D w) \<and> (\<forall>w. D w \<longrightarrow> D (snd (ctxErr env ctx w))) \<and>
     (\<forall>q w. D w \<longrightarrow> D (CloseQ env q w)) \<and> (\<forall>h w. D w \<longrightarrow> D (snd (Disc env h w)))"

subsection \<open>Runs of one consumer\<close>

fun moves_only :: "nat \<Rightarrow> llabel \<Rightarrow> bool" where
  "moves_only i (Consumer j _) \<longleftrightarrow> i = j"
| "moves_only i ParentDone \<longleftrightarrow> True"
| "moves_only i _ \<longleftrightarrow> False"

definition leads :: "nat \<Rightarrow> lsys \<Rightarrow> lsys \<Rightarrow> bool" where
  "leads i s t \<longleftrightarrow> (\<exists>ls. list_all (moves_only i) ls \<and> run_steps lstep ls s = Some t) \<and>
     (\<exists>pc. x_cons t = (x_cons s)[i := pc]) \<and> x_main t = x_main s"

lemma leads_refl: "leads i s s"
proof -
  have "list_all (moves_only i) [] \<and> run_steps lstep [] s = Some s" by simp
  moreover have "x_cons s = (x_cons s)[i := x_cons s ! i]" by simp
  ultimately show ?thesis unfolding leads_def by blast
qed

lemma leads_trans:
  assumes "leads i s t" and "leads i t u"
  shows "leads i s u"
proof -
  from assms obtain ks ls where "list_all (moves_only i) (ks @ ls)" "run_steps lstep (ks @ ls) s = Some u"
    by (auto simp: leads_def run_steps_append)
  with assms show ?thesis unfolding leads_def by (metis list_update_overwrite)
qed

text \<open>Where consumer \<open>i\<close> is, in a state that shows what the sequential run shows.\<close>

definition stage ::
  "('w \<Rightarrow> bool) \<Rightarrow> nat \<Rightarrow> bool \<Rightarrow> cons_pc \<Rightarrow> go_error list \<Rightarrow> 'w Listener \<Rightarrow> 'w io \<Rightarrow> lsys \<Rightarrow> bool" where
  "stage D i d pc es l io s \<longleftrightarrow>
     i < length (x_cons s) \<and> x_cons s ! i = pc \<and> ctx_done s = d \<and> (d \<longrightarrow> D (world io)) \<and>
     life_sim es l io s \<and> listener_inv s"

definition goes ::
  "('w \<Rightarrow> bool) \<Rightarrow> nat \<Rightarrow> lsys \<Rightarrow> bool \<Rightarrow> cons_pc \<Rightarrow> go_error list \<Rightarrow> 'w Listener \<Rightarrow> 'w io \<Rightarrow> bool" where
  "goes D i s d pc es l io \<longleftrightarrow> (\<exists>t. leads i s t \<and> stage D i d pc es l io t)"

lemma goes_here: "stage D i d pc es l io s \<Longrightarrow> goes D i s d pc es l io"
  using leads_refl by (auto simp: goes_def)

lemma goes_then:
  assumes "goes D i s d pc es l io" and "\<And>t. stage D i d pc es l io t \<Longrightarrow> goes D i t d' pc' es' l' io'"
  shows "goes D i s d' pc' es' l' io'"
  using assms by (auto simp: goes_def intro: leads_trans)

lemma stage_world:
  assumes "stage D i d pc es l io s" and "queue_trace io' = queue_trace io" and "d \<longrightarrow> D (world io')"
  shows "stage D i d pc es l io' s"
  using assms life_sim_link [OF assms(2)] by (auto simp: stage_def)

text \<open>One step of the consumer.\<close>

lemma goes_move:
  assumes at: "stage D i d pc es l io s" and move: "cons_move d (x_next s) lab pc = Some (pc', eff)"
    and eff: "do_eff i eff (s\<lparr>x_cons := (x_cons s)[i := pc']\<rparr>) = Some t"
    and sim: "life_sim es' l' io' t" and ctx: "d \<longrightarrow> D (world io')"
  shows "goes D i s d pc' es' l' io'"
proof -
  from at move eff have step: "lstep (Consumer i lab) s = Some t" by (simp add: stage_def cons_step_def)
  then have "list_all (moves_only i) [Consumer i lab] \<and> run_steps lstep [Consumer i lab] s = Some t" by simp
  moreover note frame = do_eff_frame(1-11) [OF eff]
  ultimately have "leads i s t" unfolding leads_def by fastforce
  moreover have "stage D i d pc' es' l' io' t"
    using at sim ctx frame listener.inv_step [OF _ step] by (simp add: stage_def ctx_done_def)
  ultimately show ?thesis by (auto simp: goes_def)
qed

lemma goes_quiet:
  assumes "stage D i d pc es l io s" and "\<And>n. cons_move d n lab pc = Some (pc', Quiet)"
    and "\<And>t. life_sim es l io t \<Longrightarrow> life_sim es l' io' t" and "d \<longrightarrow> D (world io')"
  shows "goes D i s d pc' es l' io'"
  using goes_move [OF assms(1) assms(2), where es' = es] assms by (simp add: stage_def)

lemma goes_store:
  assumes "stage D i d pc es l io s" and "\<And>n. cons_move d n lab pc = Some (pc', Store st)"
  shows "goes D i s d pc' es (setConsumerState (int i) st l) io"
  using goes_move [OF assms(1) assms(2), where es' = es] assms(1)
  by (simp add: stage_def life_sim_def setConsumerState_eq)

lemma goes_gauge:
  assumes "stage D i d pc es l io s"
  shows "(\<And>n. cons_move d n lab pc = Some (pc', Inc)) \<Longrightarrow> goes D i s d pc' es (l_on_tel incConnActive l) io"
    and "(\<And>n. cons_move d n lab pc = Some (pc', Dec)) \<Longrightarrow> goes D i s d pc' es (l_on_tel decConnActive l) io"
proof -
  assume "\<And>n. cons_move d n lab pc = Some (pc', Inc)"
  from goes_move [OF assms this, where es' = es and io' = io and l' = "l_on_tel incConnActive l"] assms
  show "goes D i s d pc' es (l_on_tel incConnActive l) io"
    by (simp add: stage_def life_sim_def l_on_tel_def incConnActive_def)
next
  assume "\<And>n. cons_move d n lab pc = Some (pc', Dec)"
  from goes_move [OF assms this, where es' = es and io' = io and l' = "l_on_tel decConnActive l"] assms
  show "goes D i s d pc' es (l_on_tel decConnActive l) io"
    by (simp add: stage_def life_sim_def l_on_tel_def decConnActive_def)
qed

text \<open>Asking whether the context is done: if the answer is yes, the context's owner has moved.\<close>

lemma latches_poll:
  assumes "ctx_latches D env ctx" and "ctx_Err env ctx io = (p, io')"
  shows "p \<noteq> None \<longleftrightarrow> D (world io)" and "D (world io) \<Longrightarrow> D (world io')"
proof -
  obtain r w where c: "ctxErr env ctx (world io) = (r, w)" by (cases "ctxErr env ctx (world io)")
  with assms(2) have "p = r" "io' = io\<lparr>world := w\<rparr>" by (simp_all add: ctx_Err_def)
  moreover have "r \<noteq> None \<longleftrightarrow> D (world io)" "D (world io) \<longrightarrow> D w"
    using assms(1) c unfolding ctx_latches_def by (metis fst_conv, metis snd_conv)
  ultimately show "p \<noteq> None \<longleftrightarrow> D (world io)" "D (world io) \<Longrightarrow> D (world io')" by simp_all
qed

lemma poll_going:
  assumes "ctx_latches D env ctx" and "stage D i d pc es l io s" and "ctx_Err env ctx io = (None, io')"
  shows "\<not> d" and "stage D i False pc es l io' s"
proof -
  from assms(2) latches_poll(1) [OF assms(1,3)] show "\<not> d" by (simp add: stage_def)
  with assms(2) stage_world [OF assms(2) ctx_Err_queue_trace [OF assms(3)]] show "stage D i False pc es l io' s"
    by simp
qed

lemma poll_done:
  assumes "ctx_latches D env ctx" and "stage D i d pc es l io s" and "ctx_Err env ctx io = (Some e, io')"
  shows "goes D i s True pc es l io'"
proof -
  have D: "D (world io')" using latches_poll [OF assms(1,3)] by simp
  have st: "stage D i d pc es l io' s"
    using stage_world [OF assms(2) ctx_Err_queue_trace [OF assms(3)]] D by simp
  show ?thesis
  proof (cases d)
    case True
    with st show ?thesis by (simp add: goes_here)
  next
    case False
    let ?t = "s\<lparr>x_parent := True\<rparr>"
    from False st have step: "lstep ParentDone s = Some ?t" by (simp add: stage_def ctx_done_def)
    then have "list_all (moves_only i) [ParentDone] \<and> run_steps lstep [ParentDone] s = Some ?t" by simp
    moreover have "x_cons ?t = (x_cons s)[i := x_cons s ! i]" by simp
    ultimately have "leads i s ?t" unfolding leads_def by fastforce
    moreover have "stage D i True pc es l io' ?t"
      using st D listener.inv_step [OF _ step] by (simp add: stage_def ctx_done_def life_sim_def)
    ultimately show ?thesis by (auto simp: goes_def)
  qed
qed

subsection \<open>A consumer's run\<close>

lemma dispatch_sim:
  assumes at: "stage D i False (KHandle c m) es l io s" and run: "dispatch env ctx handler md data l io = (l', io')"
  shows "goes D i s False (KTop c) es l' io'"
proof -
  from dispatch_trace [OF run] obtain rep t where
    tr: "trace io' = trace io @ EHandler (messageFromMQMD md data) # rep"
      "rep = [] \<or> (\<exists>m e. rep = [EReport (Some m) e])" and
    l': "l' = l\<lparr>l_tel := t\<rparr>" "activeConns (l_tel l') = activeConns (l_tel l)" by blast
  show ?thesis
    by (rule goes_move [OF at, where lab = Answer and eff = "Handled m"])
      (use at tr l' in \<open>auto simp: stage_def life_sim_def\<close>)
qed

text \<open>Where a turn of the receive loop and the loop itself leave the consumer.\<close>

definition loop_exit :: "nat \<Rightarrow> go_error option \<Rightarrow> cons_pc" where
  "loop_exit c r = (case r of None \<Rightarrow> KUncount c None | Some e \<Rightarrow> KLoopErr c e)"

lemma consume_once_sim:
  assumes ctx: "ctx_latches D env ctx" and at: "stage D i False (KTop c) es l io s"
    and run: "consume_once env ctx q handler l io = (x, l', io')"
  shows "goes D i s (x = Some None) (case x of None \<Rightarrow> KTop c | Some r \<Rightarrow> loop_exit c r) es l' io'"
proof -
  obtain p io1 where poll: "ctx_Err env ctx io = (p, io1)" by (cases "ctx_Err env ctx io")
  show ?thesis
  proof (cases p)
    case (Some e)
    with run poll have x: "x = Some None" "l' = l" "io' = io1" by (simp_all add: consume_once_def)
    from poll_done [OF ctx at poll [unfolded Some]] have "goes D i s True (KUncount c None) es l io1"
      by (rule goes_then, intro goes_quiet [where lab = Move]) (auto simp: own_def stage_def)
    with x show ?thesis by (simp add: loop_exit_def)
  next
    case None
    note live = poll_going(2) [OF ctx at poll [unfolded None]]
    obtain g io2 where get: "mq_Get env q (newMQMD env) (consume_options env) (4 * 1024 * 1024) io1 = (g, io2)"
      by (cases "mq_Get env q (newMQMD env) (consume_options env) (4 * 1024 * 1024) io1")
    then obtain md gmo where tr: "trace io2 = trace io1 @ [EGet q md gmo g]"
      by (auto simp: mq_Get_def split: prod.splits)
    have top: "goes D i s False (KGet c) es l io1"
      by (rule goes_quiet [OF live, where lab = Move]) (auto simp: own_def)
    show ?thesis
    proof (cases g)
      case (Inl err)
      have "goes D i t False (if IsEmptyQueueError (Some err) then KTop c else KLoopErr c err) es l io2"
        if "stage D i False (KGet c) es l io1 t" for t
        by (rule goes_quiet [OF that, where lab = "Fails err"]) (use tr Inl in \<open>auto simp: life_sim_def\<close>)
      from goes_then [OF top this] run poll None get Inl show ?thesis
        by (auto simp: consume_once_def loop_exit_def split: if_splits)
    next
      case (Inr y)
      obtain rmd data where y: "y = (rmd, data)" by (cases y)
      have "goes D i t False (KHandle c 0) es l io2" if "stage D i False (KGet c) es l io1 t" for t
        by (rule goes_move [OF that, where lab = "Arrives 0" and eff = "Got 0"])
          (use that tr Inr y in \<open>auto simp: stage_def life_sim_def\<close>)
      note got = goes_then [OF top this]
      have "x = None \<and> dispatch env ctx handler rmd data l io2 = (l', io')"
        using run poll None get Inr y by (auto simp: consume_once_def)
      with goes_then [OF got dispatch_sim] show ?thesis by auto
    qed
  qed
qed

lemma consume_iter_sim:
  assumes "consume_iter env ctx q handler l io = Some y" and "ctx_latches D env ctx"
    and "stage D i False (KTop c) es l io s"
  shows "case y of (r, l', io') \<Rightarrow> goes D i s (r = None) (loop_exit c r) es l' io'"
  using assms
proof (induction arbitrary: s rule: consume_iter.raw_induct [rotated 1, consumes 1])
  case (1 iter env ctx q handler l io y)
  obtain x l1 io1 where once: "consume_once env ctx q handler l io = (x, l1, io1)"
    by (cases "consume_once env ctx q handler l io")
  note turn = consume_once_sim [OF 1(3,4) once]
  show ?case
  proof (cases x)
    case None
    obtain r l' io' where y: "y = (r, l', io')" by (cases y)
    from None 1(2) once have "iter env ctx q handler l1 io1 = Some y" by simp
    from 1(1) [OF this 1(3)] turn None show ?thesis by (auto simp: y intro: goes_then)
  next
    case (Some r)
    with 1(2) once turn show ?thesis by auto
  qed
qed

lemma mq_Close_stage:
  assumes "ctx_latches D env ctx" and "stage D i d pc es l io s"
  shows "stage D i d pc es l (mq_Close env q io) s"
  using assms by (auto simp: stage_def life_sim_def mq_Close_def ctx_latches_def)

lemma conn_Close_stage:
  assumes "ctx_latches D env ctx" and "stage D i d pc es l io s" and "conn_Close env c io = (e, c', io')"
  shows "stage D i d pc es l io' s"
proof (rule stage_world [OF assms(2) conn_Close_queue_trace [OF assms(3)]])
  have "D (world io) \<longrightarrow> D (world (snd (mq_Disc env h io)))" for h
    using assms(1) by (auto simp: ctx_latches_def mq_Disc_def split: prod.splits) (metis snd_conv)
  then have "D (world io) \<longrightarrow> D (world io')"
    using assms(3) by (auto simp: conn_Close_def Let_def split: prod.splits if_splits option.splits) (metis snd_conv)+
  with assms(2) show "d \<longrightarrow> D (world io')" by (simp add: stage_def)
qed

lemma consumeLoop_sim:
  assumes ctx: "ctx_latches D env ctx" and at: "stage D i False (KOpen c) es l io s"
    and run: "consumeLoop env ctx conn handler l io = Some (r, l', io')"
  shows "goes D i s (r = None) (loop_exit c r) es l' io'"
proof -
  let ?od = "(newMQOD env)\<lparr>ObjectName := l_queue l\<rparr>" and ?oo = "consumer_open_options env (l_queueOpts l)"
  obtain o1 io1 where op: "mq_Open env (queueManager conn) ?od ?oo io = (o1, io1)"
    by (cases "mq_Open env (queueManager conn) ?od ?oo io")
  then obtain h n oo x where tr: "trace io1 = trace io @ [EOpen h n oo x]"
    by (auto simp: mq_Open_def split: prod.splits)
  show ?thesis
  proof (cases o1)
    case (Inl err)
    with run op obtain e where e: "r = Some e" "l' = l" "io' = io1" by (auto simp: consumeLoop_def)
    have "goes D i s False (KLoopErr c e) es l io1"
      by (rule goes_quiet [OF at, where lab = "Fails e"]) (use tr in \<open>auto simp: call_def life_sim_def\<close>)
    with e show ?thesis by (simp add: loop_exit_def)
  next
    case (Inr y)
    obtain q od where y: "y = (q, od)" by (cases y)
    with run op Inr obtain io2 where it: "consume_iter env ctx q handler l io1 = Some (r, l', io2)"
      and io': "io' = mq_Close env q io2"
      by (auto simp: consumeLoop_def)
    have "goes D i s False (KTop c) es l io1"
      by (rule goes_quiet [OF at, where lab = Answer]) (use tr in \<open>auto simp: call_def life_sim_def\<close>)
    moreover have "goes D i t (r = None) (loop_exit c r) es l' io2" if "stage D i False (KTop c) es l io1 t" for t
      using consume_iter_sim [OF it ctx that] by simp
    ultimately have "goes D i s (r = None) (loop_exit c r) es l' io2" by (rule goes_then)
    then show ?thesis
      by (rule goes_then) (auto simp: io' intro: goes_here mq_Close_stage [OF ctx])
  qed
qed

text \<open>After a failed receive loop: a done context ends the consumer, a connection error is followed by a reconnect.\<close>

lemma reconnect_sim:
  assumes at: "stage D i False (KBroken c) es l io s" and run: "Reconnect env ctx conn io = (rr, conn', io')"
  shows "goes D i s False (case rr of None \<Rightarrow> KHead c | Some e \<Rightarrow> KReconnErr c e) es
    (case rr of None \<Rightarrow> setConsumerState (int i) StateConnected (setConsumerState (int i) StateReconnecting l)
      | Some _ \<Rightarrow> setConsumerState (int i) StateReconnecting l) io'"
proof -
  let ?l = "setConsumerState (int i) StateReconnecting l"
  note same = life_sim_link [OF Reconnect_queue_trace [OF run]]
  have 1: "goes D i s False (KReconn c) es ?l io" by (rule goes_store [OF at, where lab = Move]) (simp add: own_def)
  show ?thesis
  proof (cases rr)
    case (Some e)
    have "goes D i t False (KReconnErr c e) es ?l io'" if "stage D i False (KReconn c) es ?l io t" for t
      by (rule goes_quiet [OF that, where lab = "Fails e"]) (simp_all add: call_def same)
    from goes_then [OF 1 this] Some show ?thesis by simp
  next
    case None
    have "goes D i t False (KBack c) es ?l io'" if "stage D i False (KReconn c) es ?l io t" for t
      by (rule goes_quiet [OF that, where lab = Answer]) (simp_all add: call_def same)
    note 2 = goes_then [OF 1 this]
    have "goes D i t False (KHead c) es (setConsumerState (int i) StateConnected ?l) io'"
      if "stage D i False (KBack c) es ?l io' t" for t
      by (rule goes_store [OF that, where lab = Move]) (simp add: own_def)
    from goes_then [OF 2 this] None show ?thesis by simp
  qed
qed

text \<open>A poll that finds the context done at a point from which the consumer then ends.\<close>

lemma poll_ends:
  assumes "ctx_latches D env ctx" and "stage D i d pc es l io s" and "ctx_Err env ctx io = (Some e, io')"
    and "\<And>n. cons_move True n Move pc = Some (pc', Quiet)"
  shows "goes D i s True pc' es l io'"
  using poll_done [OF assms(1-3)]
proof (rule goes_then)
  fix t
  assume at: "stage D i True pc es l io' t"
  then show "goes D i t True pc' es l io'"
    by (rule goes_quiet [where lab = Move]) (use at assms(4) in \<open>simp_all add: stage_def\<close>)
qed

lemma poll_moves:
  assumes "ctx_latches D env ctx" and "stage D i d pc es l io s" and "ctx_Err env ctx io = (None, io')"
    and "\<And>n. cons_move False n Move pc = Some (pc', Quiet)"
  shows "goes D i s False pc' es l io'"
  using poll_going(2) [OF assms(1-3)] by (rule goes_quiet [where lab = Move]) (simp_all add: assms(4))

text \<open>What follows a failed receive loop, with \<open>again\<close> for the next turn of the consumer's loop.\<close>

lemma failed_sim:
  assumes ctx: "ctx_latches D env ctx" and at: "stage D i False (KLoopErr c loopErr) es l io s"
    and run: "(case ctx_Err env ctx io of
        (Some _, io3) \<Rightarrow> Some (None, conn, l, io3)
      | (None, io3) \<Rightarrow>
          (if IsConnectionError (Some loopErr)
           then (case Reconnect env ctx conn io3 of
                   (Some reconnErr, conn', io4) \<Rightarrow>
                     (case ctx_Err env ctx io4 of
                        (Some _, io5) \<Rightarrow> Some (None, conn', setConsumerState (int i) StateReconnecting l, io5)
                      | (None, io5) \<Rightarrow>
                          Some (Some reconnErr, conn', setConsumerState (int i) StateReconnecting l, io5))
                 | (None, conn', io4) \<Rightarrow>
                     again conn' (setConsumerState (int i) StateConnected
                       (setConsumerState (int i) StateReconnecting l)) io4)
           else Some (Some loopErr, conn, l, io3))) = Some (r, conn', l', io')"
    and again: "\<And>c2 l2 io2 t. again c2 l2 io2 = Some (r, conn', l', io') \<Longrightarrow>
      stage D i False (KHead c) es l2 io2 t \<Longrightarrow> goes D i t (r = None) (KUncount c r) es l' io'"
  shows "goes D i s (r = None) (KUncount c r) es l' io'"
proof -
  obtain p3 io3 where poll3: "ctx_Err env ctx io = (p3, io3)" by (cases "ctx_Err env ctx io")
  obtain rr c2 io4 where rec: "Reconnect env ctx conn io3 = (rr, c2, io4)" by (cases "Reconnect env ctx conn io3")
  obtain p5 io5 where poll5: "ctx_Err env ctx io4 = (p5, io5)" by (cases "ctx_Err env ctx io4")
  consider (ended) e where "p3 = Some e" | (other) "p3 = None" "\<not> IsConnectionError (Some loopErr)"
    | (broken) "p3 = None" "IsConnectionError (Some loopErr)" by (cases p3) auto
  then show ?thesis
  proof cases
    case ended
    from poll_ends [OF ctx at poll3 [unfolded ended], of "KUncount c None"] ended run poll3 show ?thesis
      by (auto simp: own_def)
  next
    case other
    from poll_moves [OF ctx at poll3 [unfolded other(1)], of "KUncount c (Some loopErr)"] other run poll3
    show ?thesis by (auto simp: own_def)
  next
    case broken
    have "goes D i s False (KBroken c) es l io3"
      by (rule poll_moves [OF ctx at poll3 [unfolded broken(1)]]) (simp add: own_def broken)
    note again_up = goes_then [OF this reconnect_sim [OF _ rec]]
    show ?thesis
    proof (cases rr)
      case None
      with again_up have "goes D i s False (KHead c) es (setConsumerState (int i) StateConnected
          (setConsumerState (int i) StateReconnecting l)) io4" by simp
      then show ?thesis by (rule goes_then) (rule again, use run poll3 broken rec None in \<open>auto\<close>)
    next
      case (Some e)
      let ?l = "setConsumerState (int i) StateReconnecting l"
      from again_up Some have "goes D i s False (KReconnErr c e) es ?l io4" by simp
      then show ?thesis
      proof (rule goes_then)
        fix t
        assume at5: "stage D i False (KReconnErr c e) es ?l io4 t"
        show "goes D i t (r = None) (KUncount c r) es l' io'"
          using poll_ends [OF ctx at5, of _ io5 "KUncount c None"]
            poll_moves [OF ctx at5, of io5 "KUncount c (Some e)"] run poll3 broken rec Some poll5
          by (cases p5) (auto simp: own_def)
      qed
    qed
  qed
qed

lemma consumer_iter_sim:
  assumes "consumer_iter env ctx handler idx conn l io = Some y" and "ctx_latches D env ctx" and "idx = int i"
    and "stage D i False (KHead c) es l io s"
  shows "case y of (r, conn', l', io') \<Rightarrow> goes D i s (r = None) (KUncount c r) es l' io'"
  using assms
proof (induction arbitrary: s rule: consumer_iter.raw_induct [rotated 1, consumes 1])
  case (1 iter env ctx handler idx conn l io y)
  note ctx = 1(3) and idx = 1(4) and at = 1(5)
  obtain p io1 where poll: "ctx_Err env ctx io = (p, io1)" by (cases "ctx_Err env ctx io")
  show ?case
  proof (cases p)
    case (Some e)
    from poll_ends [OF ctx at poll [unfolded Some], of "KUncount c None"] Some 1(2) poll show ?thesis
      by (auto simp: own_def)
  next
    case None
    obtain le l2 io2 where loop: "consumeLoop env ctx conn handler l io1 = Some (le, l2, io2)"
      using 1(2) poll None by (cases "consumeLoop env ctx conn handler l io1") auto
    have "goes D i s False (KOpen c) es l io1"
      by (rule poll_moves [OF ctx at poll [unfolded None]]) (simp add: own_def)
    from goes_then [OF this consumeLoop_sim [OF ctx _ loop]]
    have turn: "goes D i s (le = None) (loop_exit c le) es l2 io2" by blast
    show ?thesis
    proof (cases le)
      case None
      with turn 1(2) poll \<open>p = None\<close> loop show ?thesis by (auto simp: loop_exit_def)
    next
      case (Some loopErr)
      obtain r conn' l' io' where y: "y = (r, conn', l', io')" by (cases y)
      from turn Some have "goes D i s False (KLoopErr c loopErr) es l2 io2" by (simp add: loop_exit_def)
      then have "goes D i s (r = None) (KUncount c r) es l' io'"
      proof (rule goes_then)
        fix t
        assume "stage D i False (KLoopErr c loopErr) es l2 io2 t"
        then show "goes D i t (r = None) (KUncount c r) es l' io'"
          by (rule failed_sim [OF ctx, where again = "iter env ctx handler idx" and conn = conn])
            (use 1 poll None loop Some y in \<open>auto\<close>)
      qed
      then show ?thesis by (simp add: y)
    qed
  qed
qed

lemma serve_sim:
  assumes ctx: "ctx_latches D env ctx" and at: "stage D i False (KUp c) es l io s"
    and it: "consumer_iter env ctx handler (int i) conn
        (l_on_tel incConnActive (setConsumerState (int i) StateConnected l)) io = Some (r, conn', l2, io3)"
    and cl: "conn_Close env conn' io3 = (e, c2, io4)"
  shows "goes D i s (r = None) (KEnd r) es (l_on_tel decConnActive l2) io4"
proof -
  let ?l = "setConsumerState (int i) StateConnected l"
  have "goes D i s False (KCount c) es ?l io" by (rule goes_store [OF at, where lab = Move]) (simp add: own_def)
  moreover have "goes D i t False (KHead c) es (l_on_tel incConnActive ?l) io"
    if "stage D i False (KCount c) es ?l io t" for t
    by (rule goes_gauge(1) [OF that, where lab = Move]) (simp add: own_def)
  ultimately have "goes D i s False (KHead c) es (l_on_tel incConnActive ?l) io" by (rule goes_then)
  moreover have "goes D i t (r = None) (KUncount c r) es l2 io3"
    if "stage D i False (KHead c) es (l_on_tel incConnActive ?l) io t" for t
    using consumer_iter_sim [OF it ctx refl that] by simp
  ultimately have "goes D i s (r = None) (KUncount c r) es l2 io3" by (rule goes_then)
  moreover have "goes D i t (r = None) (KDisc c r) es (l_on_tel decConnActive l2) io3"
    if "stage D i (r = None) (KUncount c r) es l2 io3 t" for t
    by (rule goes_gauge(2) [OF that, where lab = Move]) (simp add: own_def)
  ultimately have "goes D i s (r = None) (KDisc c r) es (l_on_tel decConnActive l2) io3" by (rule goes_then)
  then show ?thesis
  proof (rule goes_then)
    fix t
    assume "stage D i (r = None) (KDisc c r) es (l_on_tel decConnActive l2) io3 t"
    from conn_Close_stage [OF ctx this cl] have st: "stage D i (r = None) (KDisc c r) es (l_on_tel decConnActive l2) io4 t" .
    show "goes D i t (r = None) (KEnd r) es (l_on_tel decConnActive l2) io4"
      by (rule goes_move [OF st, where lab = Answer and eff = "Closed c"])
        (use st in \<open>auto simp: stage_def\<close>)
  qed
qed

lemma dial_sim:
  assumes ctx: "ctx_latches D env ctx" and at: "stage D i False KDial es l io s"
    and new: "newConnectionWithRetry env ctx cfg io = (n, io2)"
    and run: "(case n of
        Inl err \<Rightarrow> (case ctx_Err env ctx io2 of (Some _, io3) \<Rightarrow> Some (None, l, io3) | (None, io3) \<Rightarrow> Some (Some err, l, io3))
      | Inr conn \<Rightarrow>
          (case consumer_iter env ctx handler (int i) conn
                  (l_on_tel incConnActive (setConsumerState (int i) StateConnected l)) io2 of
             None \<Rightarrow> None
           | Some (r, conn', l2, io3) \<Rightarrow>
               (case conn_Close env conn' io3 of (_, _, io4) \<Rightarrow> Some (r, l_on_tel decConnActive l2, io4)))) =
      Some (r, l', io')"
  shows "goes D i s (r = None) (KEnd r) es l' io'"
proof (cases n)
  case (Inl err)
  obtain p3 io3 where poll3: "ctx_Err env ctx io2 = (p3, io3)" by (cases "ctx_Err env ctx io2")
  have "goes D i s False (KDialErr err) es l io2"
    by (rule goes_quiet [OF at, where lab = "Fails err"])
      (simp_all add: call_def life_sim_link [OF newConnectionWithRetry_queue_trace [OF new]])
  then show ?thesis
  proof (rule goes_then)
    fix t
    assume at3: "stage D i False (KDialErr err) es l io2 t"
    show "goes D i t (r = None) (KEnd r) es l' io'"
      using poll_ends [OF ctx at3, of _ io3 "KEnd None"] poll_moves [OF ctx at3, of io3 "KEnd (Some err)"]
        run Inl poll3
      by (cases p3) (auto simp: own_def)
  qed
next
  case (Inr conn)
  have "goes D i s False (KUp (x_next s)) es l io2"
    by (rule goes_move [OF at, where lab = Answer and eff = Dialled])
      (use at in \<open>auto simp: call_def stage_def life_sim_link [OF newConnectionWithRetry_queue_trace [OF new]]\<close>)
  moreover from run Inr obtain conn' l2 io3 e c2 where
    "consumer_iter env ctx handler (int i) conn
       (l_on_tel incConnActive (setConsumerState (int i) StateConnected l)) io2 = Some (r, conn', l2, io3)"
    "conn_Close env conn' io3 = (e, c2, io')" "l' = l_on_tel decConnActive l2"
    by (auto split: option.splits prod.splits)
  ultimately show ?thesis by (auto intro: goes_then serve_sim [OF ctx])
qed

lemma consumer_body_sim:
  assumes ctx: "ctx_latches D env ctx" and at: "stage D i d KPoll es l io s"
    and run: "consumer_body env ctx handler (int i) l io = Some (r, l', io')"
  shows "goes D i s (r = None) (KEnd r) es l' io'"
proof -
  let ?cfg = "(l_cfg l)\<lparr>MaxRetries := l_maxRetries l\<rparr>" and ?l = "setConsumerState (int i) StateReconnecting l"
  obtain p io1 where poll: "ctx_Err env ctx io = (p, io1)" by (cases "ctx_Err env ctx io")
  obtain n io2 where new: "newConnectionWithRetry env ctx ?cfg io1 = (n, io2)"
    by (cases "newConnectionWithRetry env ctx ?cfg io1")
  show ?thesis
  proof (cases p)
    case (Some e)
    with poll_ends [OF ctx at poll [unfolded Some], of "KEnd None"] run poll show ?thesis
      by (auto simp: consumer_body_def own_def)
  next
    case None
    have "goes D i s False KMark es l io1"
      by (rule poll_moves [OF ctx at poll [unfolded None]]) (simp add: own_def)
    moreover have "goes D i t False KDial es ?l io1" if "stage D i False KMark es l io1 t" for t
      by (rule goes_store [OF that, where lab = Move]) (simp add: own_def)
    ultimately have "goes D i s False KDial es ?l io1" by (rule goes_then)
    then show ?thesis
    proof (rule goes_then)
      fix t
      assume "stage D i False KDial es ?l io1 t"
      from dial_sim [OF ctx this new, where handler = handler and r = r and l' = l' and io' = io'] run poll None new
      show "goes D i t (r = None) (KEnd r) es l' io'" by (simp add: consumer_body_def [unfolded Let_def])
    qed
  qed
qed

lemma error_send_sim:
  assumes at: "stage D i d (KSend e) es l io s"
  shows "goes D i s d (KLeave (Some e)) (es @ [e]) l io"
proof -
  from at have inv: "listener_inv s" and i: "i < length (x_cons s)" "x_cons s ! i = KSend e"
    by (simp_all add: stage_def)
  then have "\<not> all_gone (x_cons s)" by (auto simp: all_gone_def dest!: nth_mem)
  with inv have open_errs: "\<not> x_errs_closed s" by (cases "x_main s") (auto simp: listener_inv_def main_ok_def)
  with inv have "main_phase (x_main s) False (x_cons s)" by (simp add: listener_inv_def main_ok_def)
  from sent_bound [OF _ this i] inv chan.send_enabled [of "x_errs s" e] obtain ch where
    ch: "try_send e (x_errs s) = Some ch" by (auto simp: listener_inv_def)
  show ?thesis
    by (rule goes_move [OF at, where lab = Move and eff = "Sent e"])
      (use at open_errs ch chan.send_Some [OF ch] in \<open>auto simp: own_def stage_def life_sim_def\<close>)
qed

lemma runConsumer_sim:
  assumes ctx: "ctx_latches D env ctx" and at: "stage D i d KPoll es l io s"
    and run: "runConsumer env ctx handler (int i) l io = Some (r, l', io')"
  shows "goes D i s (r = None) (KGone r) (es @ (case r of None \<Rightarrow> [] | Some e \<Rightarrow> [e])) l' io'"
proof -
  from run obtain l1 io1 where body: "consumer_body env ctx handler (int i) l io = Some (r, l1, io1)"
    by (auto simp: runConsumer_def Let_def split: option.splits prod.splits)
  note ends = consumer_body_sim [OF ctx at body]
  have leave: "goes D i t (r = None) (KGone r) es' l' io'" if "stage D i (r = None) (KLeave r) es' l' io' t" for t es'
    by (rule goes_move [OF that, where lab = Move and eff = WgDone]) (use that in \<open>auto simp: own_def stage_def\<close>)
  show ?thesis
  proof (cases r)
    case None
    with run body have l': "l' = setConsumerState (int i) StateStopped l1" "io' = io1"
      by (simp_all add: runConsumer_def)
    have "goes D i t True (KLeave None) es l' io'" if "stage D i True (KEnd None) es l1 io1 t" for t
      unfolding l' by (rule goes_store [OF that, where lab = Move]) (simp add: own_def)
    from goes_then [OF ends [unfolded None] this [simplified]] leave None show ?thesis
      by (auto intro: goes_then)
  next
    case (Some e)
    let ?l = "setConsumerState (int i) StateFailed l1"
    from Some run body have l': "l' = ?l" "io' = reportError ?l ctx None (Some e) io1"
      by (auto simp: runConsumer_def Let_def)
    have 1: "goes D i t False (KReport e) es ?l io1" if "stage D i False (KEnd (Some e)) es l1 io1 t" for t
      by (rule goes_store [OF that, where lab = Move]) (simp add: own_def)
    have 2: "goes D i t False (KSend e) es l' io'" if "stage D i False (KReport e) es ?l io1 t" for t
      by (rule goes_move [OF that, where lab = Answer and eff = "ReportError e"])
        (use that l' in \<open>auto simp: stage_def life_sim_def reportError_spec\<close>)
    have "goes D i s False (KEnd (Some e)) es l1 io1" using ends Some by simp
    from goes_then [OF goes_then [OF goes_then [OF this 1] 2] error_send_sim]
    have "goes D i s False (KLeave (Some e)) (es @ [e]) l' io'" by blast
    with leave Some show ?thesis by (auto intro: goes_then)
  qed
qed

subsection \<open>Start\<close>

text \<open>The consumers one after the other, each from its first program point to its last.\<close>

lemma run_consumers_sim:
  assumes "run_consumers env ctx handler order l io = Some (errs, l', io')" and ctx: "ctx_latches D env ctx"
    and "distinct order" and "\<forall>i \<in> set order. 0 \<le> i \<and> nat i < length (x_cons s) \<and> x_cons s ! nat i = KPoll"
    and "life_sim es l io s" and "listener_inv s" and "ctx_done s \<longrightarrow> D (world io)"
  shows "\<exists>ls t. run_steps lstep ls s = Some t \<and> life_sim (es @ errs) l' io' t \<and> x_main t = x_main s \<and>
    length (x_cons t) = length (x_cons s) \<and> listener_inv t \<and>
    (\<forall>j < length (x_cons s). if int j \<in> set order then \<exists>r. x_cons t ! j = KGone r else x_cons t ! j = x_cons s ! j)"
  using assms(1,3-7)
proof (induction order arbitrary: l io es s errs)
  case Nil
  then have "run_steps lstep [] s = Some s \<and> life_sim (es @ errs) l' io' s" by simp
  with Nil.prems(5) show ?case by fastforce
next
  case (Cons k order)
  obtain i where k: "k = int i" using Cons.prems(3) by (metis list.set_intros(1) nat_0_le)
  obtain r l1 io1 where one: "runConsumer env ctx handler (int i) l io = Some (r, l1, io1)"
    using Cons.prems(1) k by (cases "runConsumer env ctx handler k l io") auto
  then obtain errs' where rest: "run_consumers env ctx handler order l1 io1 = Some (errs', l', io')"
    and errs: "errs = (case r of None \<Rightarrow> [] | Some e \<Rightarrow> [e]) @ errs'"
    using Cons.prems(1) k by (cases r) (auto split: option.splits)
  have "stage D i (ctx_done s) KPoll es l io s" using Cons.prems k by (simp add: stage_def)
  from runConsumer_sim [OF ctx this one] obtain u ks where
    u: "run_steps lstep ks s = Some u" "stage D i (r = None) (KGone r) (es @ (case r of None \<Rightarrow> [] | Some e \<Rightarrow> [e])) l1 io1 u"
      "x_main u = x_main s" and cons: "\<exists>pc. x_cons u = (x_cons s)[i := pc]"
    by (auto simp: goes_def leads_def)
  have other: "x_cons u ! j = x_cons s ! j" if "j \<noteq> i" for j using cons that by auto
  have len: "length (x_cons u) = length (x_cons s)" using cons by auto
  have "\<forall>m \<in> set order. 0 \<le> m \<and> nat m < length (x_cons u) \<and> x_cons u ! nat m = KPoll"
    using Cons.prems(2,3) k other len by (metis distinct.simps(2) list.set_intros(2) nat_0_le)
  from Cons.IH [OF rest _ this, of "es @ (case r of None \<Rightarrow> [] | Some e \<Rightarrow> [e])"] u Cons.prems(2) obtain ls t where
    t: "run_steps lstep ls u = Some t" "life_sim (es @ errs) l' io' t" "x_main t = x_main s" "listener_inv t"
      "length (x_cons t) = length (x_cons u)"
      "\<forall>j < length (x_cons u). if int j \<in> set order then \<exists>r. x_cons t ! j = KGone r else x_cons t ! j = x_cons u ! j"
    by (auto simp: stage_def errs)
  from u(1) t(1) have "run_steps lstep (ks @ ls) s = Some t" by (simp add: run_steps_append)
  moreover have "if int j \<in> set (k # order) then \<exists>r. x_cons t ! j = KGone r else x_cons t ! j = x_cons s ! j"
    if "j < length (x_cons s)" for j
    using that t(6) u(2) other [of j] len k by (cases "j = i") (auto simp: stage_def split: if_splits)
  ultimately show ?case using t len by (intro exI [of _ "ks @ ls"] exI [of _ t]) simp
qed

text \<open>\<^verbatim>\<open>Start\<close> spawning its consumers, and then collecting their errors.\<close>

lemma spawn_run:
  assumes "k \<le> n" and "x_main s = MSpawn 0" and "x_cons s = replicate n KUnborn" and "x_wg s = 0"
  shows "run_steps lstep (replicate k Spawn) s =
    Some (s\<lparr>x_cons := replicate k KPoll @ replicate (n - k) KUnborn, x_wg := k, x_main := MSpawn k\<rparr>)"
  using assms(1)
proof (induction k)
  case 0
  then show ?case using assms(2-4) by simp
next
  case (Suc k)
  then have rest: "replicate (n - k) KUnborn = KUnborn # replicate (n - Suc k) KUnborn"
    by (metis Suc_diff_Suc Suc_le_lessD replicate_Suc)
  have "replicate (Suc k) Spawn = replicate k Spawn @ [Spawn]" by (simp add: replicate_append_same)
  moreover have "lstep Spawn (s\<lparr>x_cons := replicate k KPoll @ replicate (n - k) KUnborn, x_wg := k, x_main := MSpawn k\<rparr>) =
      Some (s\<lparr>x_cons := replicate (Suc k) KPoll @ replicate (n - Suc k) KUnborn, x_wg := Suc k, x_main := MSpawn (Suc k)\<rparr>)"
    using Suc.prems by (simp add: rest list_update_append replicate_app_Cons_same)
  ultimately show ?case using Suc by (simp only: run_steps_append) simp
qed

lemma drain_run:
  assumes "x_main s = MDrain got" and "life_sim es l io s"
  shows "\<exists>t. run_steps lstep (replicate (Suc (length es)) Drain) s = Some t \<and>
    x_main t = MCancel (errors_join (got @ es)) \<and> life_sim [] l io t"
  using assms
proof (induction es arbitrary: got s)
  case Nil
  then show ?case by (auto simp: life_sim_def try_recv_def split: list.splits)
next
  case (Cons e es)
  then obtain ch where ch: "try_recv (x_errs s) = Some (e, ch)" "chan_buf ch = es"
    by (auto simp: life_sim_def try_recv_def)
  let ?s = "s\<lparr>x_errs := ch, x_main := MDrain (got @ [e])\<rparr>"
  from Cons.prems ch have "life_sim es l io ?s" by (simp add: life_sim_def)
  from Cons.IH [OF _ this, of "got @ [e]"] Cons.prems(1) ch show ?case by simp
qed

lemma start_spawned:
  "\<exists>s. run_steps lstep (Call 0 # replicate (Suc n) Spawn) (listener_start b n 1) = Some s \<and>
     x_cons s = replicate n KPoll \<and> x_main s = MWait \<and> \<not> ctx_done s \<and> x_slots s = replicate n StateUnknown \<and>
     x_gauge s = 0 \<and> x_got s = [] \<and> x_handled s = [] \<and> x_reported s = [] \<and> chan_buf (x_errs s) = [] \<and> x_onError s = b"
proof -
  let ?s = "(listener_start b n 1)\<lparr>x_calls := [SRunning], x_started := True, x_main := MSpawn 0\<rparr>"
  have "replicate (Suc n) Spawn = replicate n Spawn @ [Spawn]" by (simp add: replicate_append_same)
  moreover have "run_steps lstep (replicate n Spawn) ?s =
      Some (?s\<lparr>x_cons := replicate n KPoll @ replicate (n - n) KUnborn, x_wg := n, x_main := MSpawn n\<rparr>)"
    by (rule spawn_run) (simp_all add: listener_start_def)
  moreover have "lstep (Call 0) (listener_start b n 1) = Some ?s" by (simp add: listener_start_def)
  ultimately have "run_steps lstep (Call 0 # replicate (Suc n) Spawn) (listener_start b n 1) =
      Some (?s\<lparr>x_cons := replicate n KPoll, x_wg := n, x_main := MWait\<rparr>)"
    by (simp only: run_steps.simps run_steps_append option.case) simp
  then show ?thesis by (auto simp: listener_start_def ctx_done_def make_chan_def)
qed

lemma collect_run:
  assumes "listener_inv s" and "x_main s = MWait" and "all_gone (x_cons s)" and "life_sim es l io s"
  shows "\<exists>ls t. run_steps lstep ls s = Some t \<and> x_main t = MRet (errors_join es) \<and> life_sim [] l io t"
proof -
  let ?s = "s\<lparr>x_errs_closed := True, x_main := MDrain []\<rparr>"
  have "x_wg s = 0"
    using assms(1) gone_tally [OF assms(3), of pc_live] by (simp add: listener_inv_def sums_ok_def)
  with assms(2) have join: "lstep Join s = Some ?s" by simp
  from drain_run [of ?s "[]" es l io] assms(4) obtain t where
    t: "run_steps lstep (replicate (Suc (length es)) Drain) ?s = Some t"
      "x_main t = MCancel (errors_join es)" "life_sim [] l io t" by auto
  let ?u = "t\<lparr>x_cancel := True, x_done := True, x_main := MRet (errors_join es)\<rparr>"
  have "run_steps lstep [Stop, SignalDone] t = Some ?u" using t(2) by simp
  with join t(1) have "run_steps lstep (Join # replicate (Suc (length es)) Drain @ [Stop, SignalDone]) s = Some ?u"
    by (simp only: run_steps.simps run_steps_append option.case) simp
  moreover have "life_sim [] l io ?u" using t(3) by simp
  ultimately show ?thesis by (intro exI [of _ "Join # replicate (Suc (length es)) Drain @ [Stop, SignalDone]"] exI [of _ ?u]) simp
qed

text \<open>
  C16: the sequential \<^verbatim>\<open>Start\<close> refines the interleaved listener. For a context that stays done
  once it is done, every completed \<^verbatim>\<open>Start\<close> of a new listener is a run of the interleaved
  system from its initial state in which one call of \<^verbatim>\<open>Start\<close> gets through and returns the
  same value, with the same final consumer states, the same gauge, as many messages
  received and handled, and the same errors that ended consumers reported to the error
  callback in the same order (none if there is no callback).
\<close>

theorem listener_refines_life:
  assumes "Start env runCtx handler order l io = Some (r, l', io')" and ctx: "ctx_latches D env runCtx"
    and new: "\<not> l_closed l" "\<not> l_started l" "l_states l = replicate n StateUnknown" "activeConns (l_tel l) = 0"
    and "trace io = []" and order: "distinct order" "set order = {0 ..< int n}"
  shows "\<exists>ls t. run_steps lstep ls (listener_start (l_onError l \<noteq> None) n 1) = Some t \<and> x_main t = MRet r \<and>
    x_slots t = l_states l' \<and> x_gauge t = activeConns (l_tel l') \<and>
    length (x_got t) = length (received (trace io')) \<and> length (x_handled t) = length (handled (trace io')) \<and>
    x_reported t = stop_reports (trace io')"
proof -
  let ?l0 = "l\<lparr>l_started := True, l_running := True\<rparr>"
  from assms(1) new obtain errs l1 where run: "run_consumers env runCtx handler order ?l0 io = Some (errs, l1, io')"
    and r: "r = errors_join errs" and l': "l' = l1\<lparr>l_running := False\<rparr>"
    by (auto simp: Start_def split: option.splits prod.splits)
  from start_spawned [of n "l_onError l \<noteq> None"] obtain s where s: "run_steps lstep (Call 0 # replicate (Suc n) Spawn) (listener_start (l_onError l \<noteq> None) n 1) = Some s"
    "x_cons s = replicate n KPoll" "x_main s = MWait" "\<not> ctx_done s"
    and sim: "life_sim [] ?l0 io s" using new(3,4) assms(7) by (auto simp: life_sim_def)
  have "listener_inv s" using listener_reachable [OF start_reaches [OF s(1)]] .
  moreover have "\<forall>i \<in> set order. 0 \<le> i \<and> nat i < length (x_cons s) \<and> x_cons s ! nat i = KPoll"
    using s(2) order(2) by auto
  ultimately obtain ls t where
    t: "run_steps lstep ls s = Some t" "life_sim errs l1 io' t" "x_main t = MWait" "listener_inv t"
      "length (x_cons t) = n" "\<forall>j < n. \<exists>r. x_cons t ! j = KGone r"
    using run_consumers_sim [OF run ctx order(1) _ sim] s order(2) by auto
  then have "all_gone (x_cons t)" by (auto simp: all_gone_def in_set_conv_nth)
  from collect_run [OF t(4,3) this t(2)] obtain ms u where
    u: "run_steps lstep ms t = Some u" "x_main u = MRet r" "life_sim [] l1 io' u" unfolding r by blast
  have "run_steps lstep ((Call 0 # replicate (Suc n) Spawn) @ ls @ ms) (listener_start (l_onError l \<noteq> None) n 1) = Some u"
    using run_steps_trans [OF s(1) run_steps_trans [OF t(1) u(1)]] .
  with u(2,3) show ?thesis
    by (intro exI [of _ "(Call 0 # replicate (Suc n) Spawn) @ ls @ ms"] exI [of _ u])
      (simp add: life_sim_def l' del: run_steps.simps replicate.simps append.simps)
qed

definition one_message :: script where
  "one_message = quiet_script\<lparr>q_get := [Inr (script_mqmd, [104, 105])]\<rparr>"

lemma deadline_latches: "ctx_latches (\<lambda>w. q_get w = []) deadline_env ctx"
  by (simp add: ctx_latches_def deadline_env_def script_env_def)

lemma demo_serves:
  assumes "q_get (world io) = [Inr (md, data)]" and "l_onError l = None"
  shows "\<exists>t io'. consume_iter deadline_env 0 q panic_handler l io = Some (None, l\<lparr>l_tel := t\<rparr>, io') \<and> q_get (world io') = [] \<and>
    handled (trace io') = handled (trace io) @ [messageFromMQMD md data]"
proof -
  have poll: "ctx_Err deadline_env 0 io = (None, io)" using assms(1) by (simp add: ctx_Err_def deadline_env_def)
  obtain io2 gmo d where get: "mq_Get deadline_env q (newMQMD deadline_env) (consume_options deadline_env) 4194304 io =
      (Inr (md, data), io2)" "q_get (world io2) = []" "trace io2 = trace io @ [EGet q d gmo (Inr (md, data))]"
    using assms(1) by (simp add: mq_Get_def deadline_env_def script_env_def)
  obtain l1 io1 where disp: "dispatch deadline_env 0 panic_handler md data l io2 = (l1, io1)"
    by (cases "dispatch deadline_env 0 panic_handler md data l io2")
  have world: "q_get (world io1) = []"
    using disp get(2) assms(2)
    by (auto simp: dispatch_def Let_def invokeHandler_def panic_handler_def reportError_def time_Now_def
        deadline_env_def script_env_def split: prod.splits)
  then have stop: "ctx_Err deadline_env 0 io1 = (Some (Sentinel DeadlineExceeded), io1)"
    by (simp add: ctx_Err_def deadline_env_def)
  have "consume_iter deadline_env 0 q panic_handler l io = consume_iter deadline_env 0 q panic_handler l1 io1"
    by (subst consume_iter.simps) (simp add: consume_once_def poll get disp)
  also have "\<dots> = Some (None, l1, io1)" by (subst consume_iter.simps) (simp add: consume_once_def stop)
  finally have "consume_iter deadline_env 0 q panic_handler l io = Some (None, l1, io1)" .
  with world dispatch_trace [OF disp] get(3) show ?thesis by auto
qed

text \<open>A listener that receives one message, whose handler panics, and then finds its context done.\<close>

lemma demo_start:
  "\<exists>r l' io'. Start deadline_env 0 panic_handler [0] demo_listener (start_io one_message) = Some (r, l', io') \<and>
     length (handled (trace io')) = 1"
proof -
  let ?cfg = "demo_config\<lparr>InputConcurrency := 1\<rparr>"
  have poll: "ctx_Err deadline_env 0 io = (None, io)" if "q_get (world io) \<noteq> []" for io
    using that by (simp add: ctx_Err_def deadline_env_def)
  have w: "q_get one_message = [Inr (script_mqmd, [104, 105])]" "q_connx one_message = []" "q_open one_message = []"
    by (simp_all add: one_message_def quiet_script_def)
  have "Connx deadline_env name cno one_message = (Inr 1, one_message)" for name cno
    using w(2) by (simp add: deadline_env_def script_env_def)
  then obtain c io1 where new: "newConnectionWithRetry deadline_env 0 (demo_config\<lparr>InputConcurrency := 1, MaxRetries := 1\<rparr>)
      (start_io one_message) = (Inr c, io1)" "world io1 = one_message" "handled (trace io1) = []"
    using poll [of "start_io one_message"] w(1)
    by (simp add: newConnectionWithRetry_def retry_attempts_def dial_def mq_Connx_def Let_def start_io_def)
  define l where "l = l_on_tel incConnActive (setConsumerState 0 StateConnected
    (setConsumerState 0 StateReconnecting (demo_listener\<lparr>l_started := True, l_running := True\<rparr>)))"
  obtain q od io2 where op: "mq_Open deadline_env (queueManager c) ((newMQOD deadline_env)\<lparr>ObjectName := l_queue l\<rparr>)
      (consumer_open_options deadline_env (l_queueOpts l)) io1 = (Inr (q, od), io2)"
    "q_get (world io2) = [Inr (script_mqmd, [104, 105])]" "handled (trace io2) = []"
    using new(2,3) w by (simp add: mq_Open_def deadline_env_def script_env_def)
  have "l_onError l = None"
    by (simp add: l_def l_on_tel_def setConsumerState_def demo_listener_def initStates_def new_listener_def)
  from demo_serves [OF op(2) this] op(3) obtain t io3 where
    it: "consume_iter deadline_env 0 q panic_handler l io2 = Some (None, l\<lparr>l_tel := t\<rparr>, io3)"
    "length (handled (trace io3)) = 1" by fastforce
  have "consumer_iter deadline_env 0 panic_handler 0 c l io1 = Some (None, c, l\<lparr>l_tel := t\<rparr>, mq_Close deadline_env q io3)"
    using poll [of io1] new(2) w by (subst consumer_iter.simps) (simp add: consumeLoop_def op(1) it(1))
  moreover have "l_cfg demo_listener\<lparr>MaxRetries := l_maxRetries demo_listener\<rparr> = demo_config\<lparr>InputConcurrency := 1, MaxRetries := 1\<rparr>"
    "\<not> l_closed demo_listener" "\<not> l_started demo_listener"
    by (simp_all add: demo_listener_def initStates_def new_listener_def demo_config_def)
  moreover obtain e c' io4 where "conn_Close deadline_env c (mq_Close deadline_env q io3) = (e, c', io4)"
    "handled (trace io4) = handled (trace io3)"
    by (cases "conn_Close deadline_env c (mq_Close deadline_env q io3)")
      (auto simp: conn_Close_def mq_Disc_def mq_Close_def deadline_env_def script_env_def Let_def)
  ultimately show ?thesis
    using poll [of "start_io one_message"] new(1) w it(2)
    by (simp add: Start_def runConsumer_def consumer_body_def Let_def start_io_def flip: l_def)
qed

theorem listener_refines_life_witness:
  "\<exists>ls t r. run_steps lstep ls (listener_start False 1 1) = Some t \<and> x_main t = MRet r \<and> length (x_handled t) = 1"
proof -
  from demo_start obtain r l' io' where
    run: "Start deadline_env 0 panic_handler [0] demo_listener (start_io one_message) = Some (r, l', io')"
    "length (handled (trace io')) = 1" by blast
  have "l_states demo_listener = replicate 1 StateUnknown" "activeConns (l_tel demo_listener) = 0"
    "\<not> l_closed demo_listener" "\<not> l_started demo_listener" "trace (start_io one_message) = []"
    "l_onError demo_listener = None"
    by (simp_all add: demo_listener_def initStates_def new_listener_def newMQTelemetry_def start_io_def)
  moreover have "set [0 :: int] = {0 ..< int 1}" by auto
  ultimately show ?thesis
    using listener_refines_life [OF run(1) deadline_latches, of 1] run(2) by fastforce
qed

end
