(* ===== verification/Otel_Helpers.thy ===== *)
theory Otel_Helpers
  imports MQ_Telemetry
begin

text \<open>
  The public helpers of \<^verbatim>\<open>src/otel\<close>: instruments, spans, propagation and the telemetry
  configuration. They mirror what the core package does internally, and the result of
  this theory is where the two agree and where they differ. A nil provider or propagator is \<^term>\<open>None\<close>; a tracer is what a provider gave for the instrumentation scope.
\<close>

subsection \<open>Instruments\<close>

record Instruments =
  PublishDuration :: tel_event
  ReceiveDuration :: tel_event
  ConnectionActive :: tel_event
  ErrorsTotal :: tel_event
  connFn :: "unit \<Rightarrow> int"

text \<open>
  Registration of one instrument: the meter (a parameter) accepts it or returns an error.
  The second component is the list of the registrations made so far.
\<close>

definition instrument ::
  "(tel_event \<Rightarrow> go_error option) \<Rightarrow> tel_event \<Rightarrow> tel_event list \<Rightarrow> (go_error + tel_event) \<times> tel_event list" where
  "instrument accept ev got =
     (case accept ev of Some err \<Rightarrow> (Inl err, got) | None \<Rightarrow> (Inr ev, got @ [ev]))"

definition NewInstruments ::
  "(tel_event \<Rightarrow> go_error option) \<Rightarrow> (unit \<Rightarrow> int) option \<Rightarrow> (go_error + Instruments) \<times> tel_event list" where
  "NewInstruments accept activeConnFn =
     (case instrument accept (NewInstrument Float64Histogram ''messaging.publish.duration''
             ''Time from Put call start to Put return'' ''ms'') [] of
        (Inl err, got) \<Rightarrow> (Inl err, got)
      | (Inr publishDur, done1) \<Rightarrow>
      case instrument accept (NewInstrument Float64Histogram ''messaging.receive.duration''
             ''Time from message available to handler return'' ''ms'') done1 of
        (Inl err, got) \<Rightarrow> (Inl err, got)
      | (Inr receiveDur, done2) \<Rightarrow>
      case instrument accept (NewInstrument Int64ObservableGauge ''messaging.connection.active''
             ''Count of live MQ connections'' ''{connection}'') done2 of
        (Inl err, got) \<Rightarrow> (Inl err, got)
      | (Inr active, done3) \<Rightarrow>
      case instrument accept (NewInstrument Int64Counter ''messaging.errors.total''
             ''Count of errors labeled by error.type'' ''{error}'') done3 of
        (Inl err, got) \<Rightarrow> (Inl err, got)
      | (Inr errorsTotal, done4) \<Rightarrow>
          (Inr \<lparr>PublishDuration = publishDur, ReceiveDuration = receiveDur, ConnectionActive = active,
                ErrorsTotal = errorsTotal,
                connFn = (case activeConnFn of None \<Rightarrow> (\<lambda>_. 0) | Some f \<Rightarrow> f)\<rparr>, done4))"

text \<open>The method \<^verbatim>\<open>RecordError\<close> of the instruments: what it adds to the error counter.\<close>

definition Instruments_RecordError :: "ctx \<Rightarrow> string \<Rightarrow> tel_event" where
  "Instruments_RecordError ctx errType = AddError ctx errType"

subsection \<open>Spans\<close>

definition message_attributes :: "string \<Rightarrow> string \<Rightarrow> string \<Rightarrow> (string \<times> string) list" where
  "message_attributes operation queueName msgID =
     [(''messaging.system'', ''ibmmq''), (''messaging.destination.name'', queueName),
      (''messaging.operation.type'', operation)] @
     (if msgID \<noteq> [] then [(''messaging.message.id'', msgID)] else [])"

definition StartProducerSpan ::
  "otel \<Rightarrow> ctx \<Rightarrow> string \<Rightarrow> string \<Rightarrow> mqTelemetry \<Rightarrow> ctx \<times> span \<times> mqTelemetry" where
  "StartProducerSpan ot ctx queueName msgID t =
     start_span ot ctx SpanKindProducer ''messaging send'' (message_attributes ''send'' queueName msgID) t"

definition StartConsumerSpan ::
  "otel \<Rightarrow> ctx \<Rightarrow> string \<Rightarrow> string \<Rightarrow> mqTelemetry \<Rightarrow> ctx \<times> span \<times> mqTelemetry" where
  "StartConsumerSpan ot ctx queueName msgID t =
     start_span ot ctx SpanKindConsumer ''messaging receive'' (message_attributes ''receive'' queueName msgID) t"

definition StartClientSpan ::
  "otel \<Rightarrow> ctx \<Rightarrow> string \<Rightarrow> mqTelemetry \<Rightarrow> ctx \<times> span \<times> mqTelemetry" where
  "StartClientSpan ot ctx queueName t =
     start_span ot ctx SpanKindClient ''messaging request-reply''
       [(''messaging.system'', ''ibmmq''), (''messaging.destination.name'', queueName),
        (''messaging.operation.type'', ''receive'')] t"

text \<open>\<open>errp\<close> is a pointer to an error: nil, or the error (itself nil or not) it points to.\<close>

definition EndSpan :: "span \<Rightarrow> go_error option option \<Rightarrow> mqTelemetry \<Rightarrow> mqTelemetry" where
  "EndSpan sp errp t =
     tel_emit (SpanEnd sp)
       (case errp of
          Some (Some e) \<Rightarrow> tel_emit (SetStatusError sp (error_text e)) (tel_emit (RecordError sp e) t)
        | _ \<Rightarrow> t)"

subsection \<open>Propagation and configuration\<close>

definition InjectToMap :: "otel \<Rightarrow> ctx \<Rightarrow> text_map_propagator option \<Rightarrow> properties option \<Rightarrow> properties option" where
  "InjectToMap ot ctx p carrier =
     (case (p, carrier) of
        (Some q, Some m) \<Rightarrow> Some (propagator_Inject ot q ctx m)
      | _ \<Rightarrow> carrier)"

definition ExtractFromMap :: "otel \<Rightarrow> ctx \<Rightarrow> text_map_propagator option \<Rightarrow> properties option \<Rightarrow> ctx" where
  "ExtractFromMap ot ctx p carrier =
     (case p of
        None \<Rightarrow> ctx
      | Some q \<Rightarrow> propagator_Extract ot q ctx (case carrier of None \<Rightarrow> Map.empty | Some m \<Rightarrow> m))"

definition NoopTracerProvider :: provider where
  "NoopTracerProvider = NoopProvider"

definition NoopMeterProvider :: provider where
  "NoopMeterProvider = NoopProvider"

definition NoopPropagator :: text_map_propagator where
  "NoopPropagator = noopPropagator"

definition NewTelemetryConfig ::
  "provider option \<Rightarrow> provider option \<Rightarrow> text_map_propagator option \<Rightarrow> TelemetryConfig" where
  "NewTelemetryConfig tp mp p =
     \<lparr>TracerProvider = (if tp = None then Some NoopTracerProvider else tp),
      MeterProvider = (if mp = None then Some NoopMeterProvider else mp),
      Propagator = (if p = None then Some NoopPropagator else p)\<rparr>"

subsection \<open>Agreement with the core package\<close>

lemmas telemetry_defs = newMQTelemetry_def NewTelemetryConfig_def NoopTracerProvider_def NoopMeterProvider_def
  NoopPropagator_def injectToMessage_def extractFromMessage_def propagator_Inject_def propagator_Extract_def Let_def

lemma start_span_attrs: "start_span ot ctx k n as t = start_span ot ctx k n bs t \<longleftrightarrow> as = bs"
proof
  assume "start_span ot ctx k n as t = start_span ot ctx k n bs t"
  then have "tel_log (snd (snd (start_span ot ctx k n as t))) = tel_log (snd (snd (start_span ot ctx k n bs t)))"
    by simp
  then show "as = bs" by (simp add: start_span_def tel_emit_def)
qed simp

lemma spans_differ:
  "StartConsumerSpan ot ctx q [] t \<noteq> startConsumerSpan ot ctx q [] t"
  "StartProducerSpan ot ctx q (x # xs) t \<noteq> startProducerSpan ot ctx q t"
  by (simp_all add: StartConsumerSpan_def startConsumerSpan_def StartProducerSpan_def startProducerSpan_def
      message_attributes_def start_span_attrs)

text \<open>
  C40: where the public helpers agree with the instrumentation of the core package, and where not. A
  meter that accepts the instruments gets the same four registrations, in the same order, as
  the core package makes. The client span is the same; so is the producer span
  for an empty message id and the consumer span for a non-empty one; ending a span is the same. They
  differ outside: a producer helper given an id adds it, which the core never does, and for
  an empty id the core's consumer span has an empty \<^verbatim>\<open>messaging.message.id\<close> and the helper's none.
  With a configuration from the same providers, extraction from a message's properties is
  the same, and injection into a non-nil map; into nil properties the core
  injects by making a map, where the helper does nothing. A configuration
  built from nil arguments holds no nil, and the core package behaves with it as without any.
\<close>

theorem otel_helpers_agree:
  "snd (NewInstruments (\<lambda>_. None) f) = tel_log (newMQTelemetry cfg) \<and>
   StartProducerSpan ot ctx q [] t = startProducerSpan ot ctx q t \<and>
   StartConsumerSpan ot ctx q (x # xs) t = startConsumerSpan ot ctx q (x # xs) t \<and>
   StartClientSpan ot ctx q t = startClientSpan ot ctx q t \<and>
   StartConsumerSpan ot ctx q [] t \<noteq> startConsumerSpan ot ctx q [] t \<and>
   StartProducerSpan ot ctx q (x # xs) t \<noteq> startProducerSpan ot ctx q t \<and>
   EndSpan sp None t = endSpan sp None t \<and> EndSpan sp (Some err) t = endSpan sp err t \<and>
   (let core = newMQTelemetry (Some (NewTelemetryConfig tp mp p)) in
    UserProperties (injectToMessage ot core ctx (msg\<lparr>UserProperties := Some m\<rparr>)) = InjectToMap ot ctx p (Some m) \<and>
    UserProperties (injectToMessage ot core ctx (msg\<lparr>UserProperties := None\<rparr>)) = InjectToMap ot ctx p (Some Map.empty) \<and>
    InjectToMap ot ctx p None = None \<and>
    extractFromMessage ot core ctx msg = ExtractFromMap ot ctx p (UserProperties msg)) \<and>
   None \<notin> {TracerProvider (NewTelemetryConfig tp mp p), MeterProvider (NewTelemetryConfig tp mp p)} \<and>
   Propagator (NewTelemetryConfig tp mp p) \<noteq> None \<and>
   (let silent = newMQTelemetry (Some (NewTelemetryConfig None None None)) in
    silent\<lparr>propagator := noopTextMapPropagator\<rparr> = newMQTelemetry None \<and>
    injectToMessage ot silent ctx msg = injectToMessage ot (newMQTelemetry None) ctx msg \<and>
    extractFromMessage ot silent ctx msg = extractFromMessage ot (newMQTelemetry None) ctx msg)"
proof -
  have "snd (NewInstruments (\<lambda>_. None) f) = tel_log (newMQTelemetry cfg)"
    by (simp add: NewInstruments_def instrument_def newMQTelemetry_def)
  moreover have "StartProducerSpan ot ctx q [] t = startProducerSpan ot ctx q t"
    "StartConsumerSpan ot ctx q (x # xs) t = startConsumerSpan ot ctx q (x # xs) t"
    "StartClientSpan ot ctx q t = startClientSpan ot ctx q t"
    by (simp_all add: StartProducerSpan_def startProducerSpan_def StartConsumerSpan_def
        startConsumerSpan_def StartClientSpan_def startClientSpan_def message_attributes_def)
  moreover have "EndSpan sp None t = endSpan sp None t" "EndSpan sp (Some err) t = endSpan sp err t"
    by (cases err; simp add: EndSpan_def endSpan_def)+
  moreover have "let core = newMQTelemetry (Some (NewTelemetryConfig tp mp p)) in
    UserProperties (injectToMessage ot core ctx (msg\<lparr>UserProperties := Some m\<rparr>)) = InjectToMap ot ctx p (Some m) \<and>
    UserProperties (injectToMessage ot core ctx (msg\<lparr>UserProperties := None\<rparr>)) = InjectToMap ot ctx p (Some Map.empty) \<and>
    InjectToMap ot ctx p None = None \<and>
    extractFromMessage ot core ctx msg = ExtractFromMap ot ctx p (UserProperties msg)"
    by (cases p) (simp_all add: telemetry_defs InjectToMap_def ExtractFromMap_def)
  moreover have "None \<notin> {TracerProvider (NewTelemetryConfig tp mp p), MeterProvider (NewTelemetryConfig tp mp p)}"
    "Propagator (NewTelemetryConfig tp mp p) \<noteq> None"
    by (auto simp: NewTelemetryConfig_def split: if_splits)
  moreover have "let silent = newMQTelemetry (Some (NewTelemetryConfig None None None)) in
    silent\<lparr>propagator := noopTextMapPropagator\<rparr> = newMQTelemetry None \<and>
    injectToMessage ot silent ctx msg = injectToMessage ot (newMQTelemetry None) ctx msg \<and>
    extractFromMessage ot silent ctx msg = extractFromMessage ot (newMQTelemetry None) ctx msg"
    by (simp add: telemetry_defs)
  ultimately show ?thesis using spans_differ by blast
qed

lemma NewInstruments_stops:
  "accept (NewInstrument Float64Histogram ''messaging.publish.duration''
     ''Time from Put call start to Put return'' ''ms'') = Some err \<Longrightarrow>
   NewInstruments accept f = (Inl err, [])"
  by (simp add: NewInstruments_def instrument_def)

end
