(* ===== verification/MQ_RequestReply.thy ===== *)
theory MQ_RequestReply
  imports MQ_Listener
begin

unbundle bit_operations_syntax

text \<open>
  \<^verbatim>\<open>src/mq/request_reply_tmp.go\<close> and \<^verbatim>\<open>src/mq/request_reply_fixed.go\<close>: request-reply over a
  dynamic or a shared reply queue. Each call owns a connection; deferred calls (closing
  the queues, the connection and the span) also run when the creator panics.
\<close>

record RequestReplyClient =
  r_cfg :: Config
  r_requestQueue :: string
  r_replyQueue :: string
  r_mode :: RequestReplyMode
  r_tel :: mqTelemetry
  r_closed :: bool
  r_state :: ConnectionState
  r_lastErr :: "go_error option"

text \<open>The structs the two factory methods of \<^verbatim>\<open>src/mq/client.go\<close> build.\<close>

definition new_request_reply :: "Config \<Rightarrow> string \<Rightarrow> RequestReplyClient" where
  "new_request_reply cfg requestQueue =
     \<lparr>r_cfg = cfg, r_requestQueue = requestQueue, r_replyQueue = [], r_mode = TemporaryQueue,
      r_tel = newMQTelemetry (Telemetry cfg), r_closed = False, r_state = StateUnknown, r_lastErr = None\<rparr>"

definition new_request_reply_fixed :: "Config \<Rightarrow> string \<Rightarrow> string \<Rightarrow> RequestReplyClient" where
  "new_request_reply_fixed cfg requestQueue replyQueue =
     \<lparr>r_cfg = cfg, r_requestQueue = requestQueue, r_replyQueue = replyQueue, r_mode = FixedQueueSelector,
      r_tel = newMQTelemetry (Telemetry cfg), r_closed = False, r_state = StateUnknown, r_lastErr = None\<rparr>"

definition WithRRReplyQueue :: "string \<Rightarrow> RequestReplyClient \<Rightarrow> RequestReplyClient" where
  "WithRRReplyQueue q r = (if r_mode r = FixedQueueSelector then r\<lparr>r_replyQueue := q\<rparr> else r)"

definition recordState :: "ConnectionState \<Rightarrow> go_error option \<Rightarrow> RequestReplyClient \<Rightarrow> RequestReplyClient" where
  "recordState st err r = r\<lparr>r_state := st, r_lastErr := err\<rparr>"

definition RequestReplyClient_Close :: "RequestReplyClient \<Rightarrow> go_error option \<times> RequestReplyClient" where
  "RequestReplyClient_Close r = (None, r\<lparr>r_closed := True\<rparr>)"

definition r_on_tel :: "(mqTelemetry \<Rightarrow> mqTelemetry) \<Rightarrow> RequestReplyClient \<Rightarrow> RequestReplyClient" where
  "r_on_tel f r = r\<lparr>r_tel := f (r_tel r)\<rparr>"

interpretation request_reply_life: closable
  "\<lambda>r io. case RequestReplyClient_Close r of (e, r') \<Rightarrow> Some (e, r', io)" r_closed
  by unfold_locales (auto simp: RequestReplyClient_Close_def)

subsection \<open>Shared pieces of the two flows\<close>

text \<open>\<^verbatim>\<open>int32(timeout.Milliseconds())\<close>, and at least one millisecond.\<close>

definition waitMS :: "duration \<Rightarrow> int" where
  "waitMS timeout = (let ms = go_int32 (go_quot timeout millisecond) in if ms \<le> 0 then 1 else ms)"

text \<open>Open a queue, run the body, close the queue (a deferred call).\<close>

definition with_queue ::
  "'w env \<Rightarrow> handle \<Rightarrow> mqod \<Rightarrow> 32 word \<Rightarrow> string \<Rightarrow>
   (handle \<Rightarrow> mqod \<Rightarrow> 'w io \<Rightarrow> (go_error + 'a) outcome \<times> 'w io) \<Rightarrow> 'w io \<Rightarrow>
   (go_error + 'a) outcome \<times> 'w io" where
  "with_queue env h od opts failure body io =
     (case mq_Open env h od opts io of
        (Inl err, io1) \<Rightarrow> (Returns (Inl (wrap_error failure (sanitizeError err))), io1)
      | (Inr (q, od'), io1) \<Rightarrow> (case body q od' io1 of (r, io2) \<Rightarrow> (r, mq_Close env q io2)))"

text \<open>The creator runs before the request is put; a panic or an error ends the flow.\<close>

definition with_creator ::
  "'w MessageCreator option \<Rightarrow> Message \<Rightarrow>
   (Message \<Rightarrow> 'w io \<Rightarrow> (go_error + 'a) outcome \<times> 'w io) \<Rightarrow> 'w io \<Rightarrow> (go_error + 'a) outcome \<times> 'w io" where
  "with_creator creator msg body io =
     (case run_creator creator msg io of
        (Panics v, io1) \<Rightarrow> (Panics v, io1)
      | (Returns (Some err, _), io1) \<Rightarrow> (Returns (Inl (creator_error err)), io1)
      | (Returns (None, msg'), io1) \<Rightarrow> body msg' io1)"

text \<open>
  Put the request, then wait for the reply on the queue \<open>replyQ\<close>. The two texts are those
  of the two failures.
\<close>

definition exchange ::
  "'w env \<Rightarrow> handle \<Rightarrow> handle \<Rightarrow> mqmd \<Rightarrow> mqmd \<Rightarrow> mqgmo \<Rightarrow> bytes \<Rightarrow> string \<Rightarrow> string \<Rightarrow> 'w io \<Rightarrow>
   (go_error + mqmd \<times> bytes) outcome \<times> 'w io" where
  "exchange env reqQ replyQ putMD getMD gmo body putText getText io =
     (case mq_Put env reqQ putMD (put_options env) body io of
        (Inl err, io1) \<Rightarrow> (Returns (Inl (wrap_error putText (sanitizeError err))), io1)
      | (Inr _, io1) \<Rightarrow>
          (case mq_Get env replyQ getMD gmo (4 * 1024 * 1024) io1 of
             (Inl err, io2) \<Rightarrow>
               (Returns (Inl (if IsEmptyQueueError (Some err) then Sentinel ErrTimeout
                              else wrap_error getText (sanitizeError err))), io2)
           | (Inr (md, data), io2) \<Rightarrow> (Returns (Inr (md, data)), io2)))"

definition reply_options :: "'w env \<Rightarrow> duration \<Rightarrow> mqgmo" where
  "reply_options env timeout =
     (newMQGMO env)\<lparr>gmo_Options := MQGMO_WAIT env OR MQGMO_NO_SYNCPOINT env,
       gmo_WaitInterval := waitMS timeout\<rparr>"

text \<open>The descriptor of a request: everything but the correlation id.\<close>

definition request_descriptor :: "'w env \<Rightarrow> Config \<Rightarrow> string \<Rightarrow> Message \<Rightarrow> mqmd" where
  "request_descriptor env cfg replyQueueName msg =
     (let md0 = (newMQMD env)\<lparr>ReplyToQ := replyQueueName\<rparr>;
          md1 = (if SetQueueManager cfg then md0\<lparr>ReplyToQMgr := QueueManagerName cfg\<rparr> else md0)
      in (if 0 < TTL msg then md1\<lparr>Expiry := expiry_tenths (TTL msg)\<rparr> else md1))"

definition map_reply :: "(mqmd \<times> bytes \<Rightarrow> Message) \<Rightarrow> (go_error + mqmd \<times> bytes) outcome \<Rightarrow>
    (go_error + Message) outcome" where
  "map_reply f r =
     (case r of
        Panics v \<Rightarrow> Panics v
      | Returns (Inl e) \<Rightarrow> Returns (Inl e)
      | Returns (Inr x) \<Rightarrow> Returns (Inr (f x)))"

subsection \<open>The temporary-queue flow\<close>

definition temp_reply :: "mqmd \<times> bytes \<Rightarrow> Message" where
  "temp_reply x =
     (case x of (md, data) \<Rightarrow>
        empty_message\<lparr>ID := EncodeToString (MsgId md), CorrelationID := EncodeToString (CorrelId md),
          ReplyToQueue := ReplyToQ md, ReplyToQueueManager := ReplyToQMgr md,
          Body := go_copy (replicate (length data) 0) data, UserProperties := None\<rparr>)"

definition requestReplyViaTempQueue ::
  "'w env \<Rightarrow> connection \<Rightarrow> string \<Rightarrow> string \<Rightarrow> 'w MessageCreator option \<Rightarrow> duration \<Rightarrow> 'w io \<Rightarrow>
   (go_error + Message) outcome \<times> 'w io" where
  "requestReplyViaTempQueue env conn requestQueue modelQueue creator timeout io =
     with_queue env (queueManager conn)
       ((newMQOD env)\<lparr>ObjectName := modelQueue, DynamicQName := ''AMQ.*''\<rparr>)
       (MQOO_INPUT_EXCLUSIVE env OR MQOO_FAIL_IF_QUIESCING env)
       ''commons-mq-go: failed to open temporary reply queue''
       (\<lambda>replyQ replyOD. let replyQueueName = ObjectName replyOD in
          with_creator creator (empty_message\<lparr>ReplyToQueue := replyQueueName\<rparr>)
            (\<lambda>msg. with_queue env (queueManager conn) ((newMQOD env)\<lparr>ObjectName := requestQueue\<rparr>)
               (output_options env)
               (''commons-mq-go: failed to open request queue '' @ quote requestQueue)
               (\<lambda>reqQ reqOD io1.
                  let md0 = request_descriptor env (config conn) replyQueueName msg;
                      md = md0\<lparr>CorrelId := apply_correlation (CorrelationID msg) (CorrelId md0)\<rparr> in
                  case exchange env reqQ replyQ md (newMQMD env) (reply_options env timeout) (Body msg)
                         (''commons-mq-go: failed to put request message to queue '' @ quote requestQueue)
                         ''commons-mq-go: failed to receive reply message'' io1 of
                    (r, io2) \<Rightarrow> (map_reply temp_reply r, io2)))) io"

subsection \<open>The fixed-queue flow\<close>

definition rand_Read :: "'w env \<Rightarrow> nat \<Rightarrow> 'w io \<Rightarrow> (go_error + bytes) \<times> 'w io" where
  "rand_Read env n io =
     (case randRead env n (world io) of
        (Inl e, w) \<Rightarrow> (Inl e, io\<lparr>world := w\<rparr>)
      | (Inr bs, w) \<Rightarrow> (Inr (go_copy (replicate n 0) bs), io\<lparr>world := w\<rparr>))"

text \<open>The routing key: the creator's correlation id if it left one, else the random one.\<close>

definition routing_key :: "bytes \<Rightarrow> string \<Rightarrow> bytes option" where
  "routing_key correlBytes cid =
     (if cid = [] then Some correlBytes
      else case DecodeString cid of
             None \<Rightarrow> None
           | Some decoded \<Rightarrow>
               if length decoded \<le> 24 then Some (go_copy (replicate 24 0) decoded) else None)"

definition invalid_correlation :: "string \<Rightarrow> go_error" where
  "invalid_correlation cid =
     ErrorString (''commons-mq-go: invalid correlation ID '' @ quote cid @
       '': must be an even-length hex string of at most '' @ itoa 48 @ '' characters'')"

text \<open>The part after the creator: choose the key, open both queues, put and wait.\<close>

definition fixed_exchange ::
  "'w env \<Rightarrow> connection \<Rightarrow> string \<Rightarrow> string \<Rightarrow> duration \<Rightarrow> bytes \<Rightarrow> Message \<Rightarrow> 'w io \<Rightarrow>
   (go_error + Message) outcome \<times> 'w io" where
  "fixed_exchange env conn requestQueue replyQueue timeout random msg =
     (case routing_key random (CorrelationID msg) of
        None \<Rightarrow> (\<lambda>io. (Returns (Inl (invalid_correlation (CorrelationID msg))), io))
      | Some correlBytes \<Rightarrow>
          with_queue env (queueManager conn) ((newMQOD env)\<lparr>ObjectName := replyQueue\<rparr>)
            (MQOO_INPUT_SHARED env OR MQOO_FAIL_IF_QUIESCING env)
            (''commons-mq-go: failed to open fixed reply queue '' @ quote replyQueue)
            (\<lambda>replyQ replyOD.
               with_queue env (queueManager conn) ((newMQOD env)\<lparr>ObjectName := requestQueue\<rparr>)
                 (output_options env)
                 (''commons-mq-go: failed to open request queue '' @ quote requestQueue)
                 (\<lambda>reqQ reqOD io.
                    let md0 = request_descriptor env (config conn) replyQueue msg;
                        md = md0\<lparr>CorrelId := go_copy (CorrelId md0) correlBytes\<rparr>;
                        getMD = (newMQMD env)\<lparr>CorrelId := go_copy (CorrelId (newMQMD env)) correlBytes\<rparr>;
                        gmo = (reply_options env timeout)\<lparr>gmo_MatchOptions := MQMO_MATCH_CORREL_ID env\<rparr> in
                    case exchange env reqQ replyQ md getMD gmo (Body msg)
                           (''commons-mq-go: failed to put request to queue '' @ quote requestQueue)
                           ''commons-mq-go: failed to receive fixed-queue reply'' io of
                      (r, io') \<Rightarrow> (map_reply (\<lambda>(m, d). messageFromMQMD m d) r, io'))))"

definition requestReplyViaFixedQueue ::
  "'w env \<Rightarrow> connection \<Rightarrow> string \<Rightarrow> string \<Rightarrow> 'w MessageCreator option \<Rightarrow> duration \<Rightarrow> 'w io \<Rightarrow>
   (go_error + Message) outcome \<times> 'w io" where
  "requestReplyViaFixedQueue env conn requestQueue replyQueue creator timeout io =
     (case rand_Read env 24 io of
        (Inl err, io1) \<Rightarrow>
          (Returns (Inl (wrap_error ''commons-mq-go: failed to generate correlation ID'' err)), io1)
      | (Inr random, io1) \<Rightarrow>
          with_creator creator
            (empty_message\<lparr>CorrelationID := EncodeToString random, ReplyToQueue := replyQueue\<rparr>)
            (fixed_exchange env conn requestQueue replyQueue timeout random) io1)"

subsection \<open>A call\<close>

definition RequestReplyWithCreator ::
  "'w env \<Rightarrow> ctx \<Rightarrow> 'w MessageCreator option \<Rightarrow> duration \<Rightarrow> RequestReplyClient \<Rightarrow> 'w io \<Rightarrow>
   (go_error + Message) outcome \<times> RequestReplyClient \<times> 'w io" where
  "RequestReplyWithCreator env ctx creator timeout r io =
     (case ctx_Err env ctx io of
        (Some err, io1) \<Rightarrow> (Returns (Inl err), r, io1)
      | (None, io1) \<Rightarrow>
          (if r_closed r then (Returns (Inl (Sentinel ErrClientClosed)), r, io1)
           else
             (case startClientSpan (otel_api env) ctx (r_requestQueue r) (r_tel r) of
                (spanCtx, sp, tel1) \<Rightarrow>
              let r1 = r\<lparr>r_tel := tel1\<rparr>;
                  wrapped = Some (wrappedCreator (otel_api env) tel1 spanCtx creator) in
              case newConnection env (r_cfg r1) io1 of
                (Inl err, io2) \<Rightarrow>
                  (Returns (Inl err),
                   r_on_tel (tel_emit (SpanEnd sp) \<circ> tel_emit (RecordError sp err))
                     (recordState StateFailed (Some err) r1), io2)
              | (Inr conn, io2) \<Rightarrow>
                  (case (if r_mode r1 = FixedQueueSelector
                         then requestReplyViaFixedQueue env conn (r_requestQueue r1) (r_replyQueue r1)
                                wrapped timeout io2
                         else requestReplyViaTempQueue env conn (r_requestQueue r1)
                                (ModelQueue (r_cfg r1)) wrapped timeout io2) of
                     (x, io3) \<Rightarrow>
                   case conn_Close env conn io3 of (_, _, io4) \<Rightarrow>
                   (x, r_on_tel (tel_emit (SpanEnd sp))
                         (case x of
                            Panics _ \<Rightarrow> r1
                          | Returns (Inr _) \<Rightarrow> recordState StateConnected None r1
                          | Returns (Inl err) \<Rightarrow>
                              (let r2 = r_on_tel (tel_emit (RecordError sp err)) r1 in
                               if error_is err ErrTimeout \<or> \<not> IsConnectionError (Some err)
                               then recordState StateConnected None r2
                               else recordState StateFailed (Some err) r2)), io4)))))"

definition RequestReply ::
  "'w env \<Rightarrow> ctx \<Rightarrow> string \<Rightarrow> duration \<Rightarrow> RequestReplyClient \<Rightarrow> 'w io \<Rightarrow>
   (go_error + Message) outcome \<times> RequestReplyClient \<times> 'w io" where
  "RequestReply env ctx payload timeout r io =
     RequestReplyWithCreator env ctx (Some (payload_creator payload)) timeout r io"

subsection \<open>Waiting time\<close>

lemma wait_interval_range:
  "1 \<le> waitMS timeout \<and> waitMS timeout < 2 ^ 31 \<and>
   (timeout div millisecond \<in> {1 ..< 2 ^ 31} \<longrightarrow> waitMS timeout = timeout div millisecond) \<and>
   waitMS (2 ^ 31 * millisecond) = 1"
proof -
  have "waitMS (2 ^ 31 * millisecond) = 1"
    by (simp add: waitMS_def millisecond_def go_int32_def signed_take_bit_eq_if_positive
        signed_take_bit_eq_if_negative take_bit_eq_mod bit_iff_odd Let_def)
  moreover have "in_int32 (go_int32 (go_quot timeout millisecond))" by (rule go_int32_range)
  then have "1 \<le> waitMS timeout \<and> waitMS timeout < 2 ^ 31"
    by (simp add: waitMS_def in_int32_def Let_def)
  moreover have "waitMS timeout = timeout div millisecond" if "timeout div millisecond \<in> {1 ..< 2 ^ 31}"
  proof -
    from that have "0 < timeout" by (auto simp: millisecond_def pos_imp_zdiv_pos_iff intro: ccontr)
    with that show ?thesis
      by (simp add: waitMS_def in_int32_def millisecond_def Let_def)
  qed
  ultimately show ?thesis by blast
qed

text \<open>
  C38: the times the library hands to MQ. The expiry of a sent message comes from its own time to
  live or else the configuration's: for a positive one whose number of tenths of a second fits
  32 bits it is rounded down, so that the message never outlives it and expires less than a
  tenth of a second early; without any the binding's default stays. A time to live of 99
  milliseconds becomes the expiry 0, and one of \<open>2\<^sup>3\<^sup>2\<close> tenths wraps to 0 too. The wait interval
  of a reply is always a positive 32-bit number of milliseconds, and the timeout rounded down
  for every timeout from a millisecond to the 32-bit limit; beyond it the timeout is not
  capped but truncated, so that one of \<open>2\<^sup>3\<^sup>1\<close> milliseconds waits for one millisecond.
\<close>

theorem mq_time_fields:
  assumes "ttl = (if TTL msg = 0 then ProducerTTL cfg else TTL msg)" and "ttl < 2 ^ 31 * (100 * millisecond)"
  shows "(if 0 < ttl
      then 0 \<le> Expiry (put_descriptor env cfg msg) \<and>
        Expiry (put_descriptor env cfg msg) * (100 * millisecond) \<le> ttl \<and>
        ttl < (Expiry (put_descriptor env cfg msg) + 1) * (100 * millisecond)
      else Expiry (put_descriptor env cfg msg) = Expiry (newMQMD env)) \<and>
    Expiry (put_descriptor env cfg (msg\<lparr>TTL := 99 * millisecond\<rparr>)) = 0 \<and>
    Expiry (put_descriptor env cfg (msg\<lparr>TTL := 2 ^ 32 * (100 * millisecond)\<rparr>)) = 0 \<and>
    1 \<le> waitMS timeout \<and> waitMS timeout < 2 ^ 31 \<and>
    (timeout div millisecond \<in> {1 ..< 2 ^ 31} \<longrightarrow> waitMS timeout = timeout div millisecond) \<and>
    waitMS (2 ^ 31 * millisecond) = 1"
  using put_expiry [OF assms, of env] wait_interval_range [of timeout] by blast

theorem mq_time_fields_witness:
  "Expiry (put_descriptor script_env demo_config (empty_message\<lparr>TTL := 250 * millisecond\<rparr>)) * (100 * millisecond)
     \<le> 250 * millisecond \<and> waitMS (5 * second) = 5000"
  using mq_time_fields [of "250 * millisecond" "empty_message\<lparr>TTL := 250 * millisecond\<rparr>" demo_config script_env "5 * second"]
  by (simp add: millisecond_def second_def)

subsection \<open>Flows leave nothing open\<close>

definition flow_clean :: "('w io \<Rightarrow> 'r \<times> 'w io) \<Rightarrow> bool" where
  "flow_clean f \<longleftrightarrow>
     (\<forall>io r io'. f io = (r, io') \<longrightarrow>
        (\<exists>seg. trace io' = trace io @ seg \<and> (\<forall>m. foldl handle_step m seg = m) \<and>
           (\<forall>cur. foldl live_step cur seg = cur)))"

lemma flow_cleanD:
  assumes "flow_clean f" and "f io = (r, io')"
  obtains seg where "trace io' = trace io @ seg" "\<And>m. foldl handle_step m seg = m"
    "\<And>cur. foldl live_step cur seg = cur"
  using assms unfolding flow_clean_def by blast

lemma flow_clean_const [inv_intros]: "flow_clean (\<lambda>io. (r, io))"
  by (simp add: flow_clean_def)

lemma with_queue_clean [inv_intros]:
  assumes "\<And>q od. flow_clean (body q od)"
  shows "flow_clean (with_queue env h od opts failure body)"
  unfolding flow_clean_def
proof (intro allI impI)
  fix io r io'
  assume run: "with_queue env h od opts failure body io = (r, io')"
  obtain x io1 where op: "mq_Open env h od opts io = (x, io1)" by (cases "mq_Open env h od opts io")
  then have tr: "trace io1 = trace io @ [EOpen h (ObjectName od) opts (map_sum id fst x)]"
    by (auto simp: mq_Open_def split: prod.splits)
  show "\<exists>seg. trace io' = trace io @ seg \<and> (\<forall>m. foldl handle_step m seg = m) \<and>
      (\<forall>cur. foldl live_step cur seg = cur)"
  proof (cases x)
    case (Inl e)
    with run op tr show ?thesis by (simp add: with_queue_def)
  next
    case (Inr y)
    then obtain q od' where y: "x = Inr (q, od')" by (cases y) simp
    obtain r2 io2 where b: "body q od' io1 = (r2, io2)" by (cases "body q od' io1")
    from flow_cleanD [OF assms b] obtain seg where "trace io2 = trace io1 @ seg"
      "\<And>m. foldl handle_step m seg = m" "\<And>cur. foldl live_step cur seg = cur" by blast
    moreover have "io' = mq_Close env q io2" using run op y b by (simp add: with_queue_def)
    ultimately show ?thesis using tr y by (simp add: mq_Close_def)
  qed
qed

lemma with_creator_clean [inv_intros]:
  assumes "\<And>msg. flow_clean (body msg)"
  shows "flow_clean (with_creator creator msg body)"
  unfolding flow_clean_def
proof (intro allI impI)
  fix io r io'
  assume run: "with_creator creator msg body io = (r, io')"
  obtain x io1 where c: "run_creator creator msg io = (x, io1)" by (cases "run_creator creator msg io")
  then have tr: "trace io1 = trace io" by (auto simp: run_creator_def split: option.splits prod.splits)
  consider "io' = io1" | msg' where "body msg' io1 = (r, io')"
    using run c by (auto simp: with_creator_def split: outcome.splits prod.splits option.splits)
  then show "\<exists>seg. trace io' = trace io @ seg \<and> (\<forall>m. foldl handle_step m seg = m) \<and>
      (\<forall>cur. foldl live_step cur seg = cur)"
  proof cases
    case 1
    with tr show ?thesis by simp
  next
    case 2
    from flow_cleanD [OF assms this] tr show ?thesis by metis
  qed
qed

lemma exchange_clean:
  "flow_clean (exchange env reqQ replyQ putMD getMD gmo body putText getText)"
  unfolding flow_clean_def
  by (auto simp: exchange_def mq_Put_def mq_Get_def split: prod.splits sum.splits)

lemma exchange_map_clean [inv_intros]:
  "flow_clean (\<lambda>io. case exchange env reqQ replyQ putMD getMD gmo body putText getText io of
     (r, io') \<Rightarrow> (g r, io'))"
  using exchange_clean [of env reqQ replyQ putMD getMD gmo body putText getText]
  unfolding flow_clean_def by (auto split: prod.splits)

lemma temp_flow_clean: "flow_clean (requestReplyViaTempQueue env conn requestQueue modelQueue creator timeout)"
  unfolding requestReplyViaTempQueue_def Let_def by (intro inv_intros)

lemma fixed_exchange_clean [inv_intros]:
  "flow_clean (fixed_exchange env conn requestQueue replyQueue timeout random msg)"
proof (cases "routing_key random (CorrelationID msg)")
  case None
  then show ?thesis unfolding fixed_exchange_def by (simp add: flow_clean_const)
next
  case (Some k)
  then show ?thesis unfolding fixed_exchange_def Let_def Some option.case by (intro inv_intros)
qed

lemma fixed_flow_clean: "flow_clean (requestReplyViaFixedQueue env conn requestQueue replyQueue creator timeout)"
  unfolding flow_clean_def
proof (intro allI impI)
  fix io r io'
  assume run: "requestReplyViaFixedQueue env conn requestQueue replyQueue creator timeout io = (r, io')"
  obtain x io1 where rd: "rand_Read env 24 io = (x, io1)" by (cases "rand_Read env 24 io")
  then have tr: "trace io1 = trace io" by (auto simp: rand_Read_def split: prod.splits sum.splits)
  show "\<exists>seg. trace io' = trace io @ seg \<and> (\<forall>m. foldl handle_step m seg = m) \<and>
      (\<forall>cur. foldl live_step cur seg = cur)"
  proof (cases x)
    case (Inl e)
    with run rd tr show ?thesis by (simp add: requestReplyViaFixedQueue_def)
  next
    case (Inr random)
    with run rd have "with_creator creator
        (empty_message\<lparr>CorrelationID := EncodeToString random, ReplyToQueue := replyQueue\<rparr>)
        (fixed_exchange env conn requestQueue replyQueue timeout random) io1 = (r, io')"
      by (simp add: requestReplyViaFixedQueue_def)
    from flow_cleanD [OF with_creator_clean [OF fixed_exchange_clean] this] tr show ?thesis by metis
  qed
qed

text \<open>A call that reached the queue manager: the flow runs on the connection and the deferred Close
  disconnects it.\<close>

lemma request_reply_connected:
  assumes run: "RequestReplyWithCreator env ctx creator timeout r io = (x, r', io')"
    and poll: "ctx_Err env ctx io = (p, io1)" and alive: "p = None" "\<not> r_closed r"
    and span: "startClientSpan (otel_api env) ctx (r_requestQueue r) (r_tel r) = (sc, sp, tel1)"
    and dial: "dial env (fresh_connection (r_cfg r)) io1 = (None, c, io2)"
    and link: "link_ok io c io2" and oh: "open_handles (trace io2) = open_handles (trace io)"
  shows "link_closed io io' \<and> open_handles (trace io') = open_handles (trace io) \<and>
    open_spans (r_tel r') = open_spans (r_tel r) \<and> r_closed r' = r_closed r \<and>
    (case x of Returns (Inr _) \<Rightarrow> r_state r' = StateConnected \<and> r_lastErr r' = None | _ \<Rightarrow> True)"
proof -
  define wrapped where "wrapped = Some (wrappedCreator (otel_api env) tel1 sc creator)"
  define flow where "flow = (if r_mode r = FixedQueueSelector
     then requestReplyViaFixedQueue env c (r_requestQueue r) (r_replyQueue r) wrapped timeout
     else requestReplyViaTempQueue env c (r_requestQueue r) (ModelQueue (r_cfg r)) wrapped timeout)"
  have clean: "flow_clean flow" by (simp add: flow_def temp_flow_clean fixed_flow_clean)
  obtain y io3 where fl: "flow io2 = (y, io3)" by (cases "flow io2")
  obtain ce cc io4 where cl: "conn_Close env c io3 = (ce, cc, io4)" by (cases "conn_Close env c io3")
  from flow_cleanD [OF clean fl] obtain seg where seg: "trace io3 = trace io2 @ seg"
    "\<And>m. foldl handle_step m seg = m" "\<And>cur. foldl live_step cur seg = cur" by blast
  from link_ok_extend [OF link seg(1,3)] have "link_closed io io4" by (rule conn_Close_link [OF cl])
  moreover have "open_handles (trace io4) = open_handles (trace io)"
    using conn_Close_queue_counts [OF cl] seg(1,2) oh by (simp add: queue_counts_def)
  moreover have "x = y \<and> io' = io4 \<and> open_spans (r_tel r') = open_spans (r_tel r) \<and> r_closed r' = r_closed r \<and>
     (case y of Returns (Inr _) \<Rightarrow> r_state r' = StateConnected \<and> r_lastErr r' = None | _ \<Rightarrow> True)"
    using run poll alive span dial fl cl startSpan_spec(3) [OF span]
    by (auto simp: RequestReplyWithCreator_def newConnection_def r_on_tel_def recordState_def
        flow_def wrapped_def Let_def split: if_splits outcome.splits sum.splits)
  ultimately show ?thesis by simp
qed

lemma RequestReplyWithCreator_clean:
  assumes "RequestReplyWithCreator env ctx creator timeout r io = (x, r', io')"
  shows "link_closed io io' \<and> open_handles (trace io') = open_handles (trace io) \<and>
    open_spans (r_tel r') = open_spans (r_tel r) \<and> r_closed r' = r_closed r \<and>
    (case x of Returns (Inr _) \<Rightarrow> r_state r' = StateConnected \<and> r_lastErr r' = None | _ \<Rightarrow> True)"
proof -
  obtain p io1 where poll: "ctx_Err env ctx io = (p, io1)" by (cases "ctx_Err env ctx io")
  note tr1 = ctx_Err_counts [OF poll]
  obtain sc sp tel1 where span: "startClientSpan (otel_api env) ctx (r_requestQueue r) (r_tel r) = (sc, sp, tel1)"
    by (cases "startClientSpan (otel_api env) ctx (r_requestQueue r) (r_tel r)")
  note sp = startSpan_spec(3) [OF span]
  obtain e c io2 where dial: "dial env (fresh_connection (r_cfg r)) io1 = (e, c, io2)"
    by (cases "dial env (fresh_connection (r_cfg r)) io1")
  note link2 = dial_link [OF dial link_closed_refl [OF tr1]]
  have oh2: "open_handles (trace io2) = open_handles (trace io)"
    using dial_queue_counts [OF dial] tr1 by (simp add: queue_counts_def)
  consider (cancelled) y where "p = Some y" | (closed) "p = None" "r_closed r"
    | (down) y where "p = None" "\<not> r_closed r" "e = Some y"
    | (up) "p = None" "\<not> r_closed r" "e = None"
    by (cases p; cases e) auto
  then show ?thesis
  proof cases
    case cancelled
    with assms poll tr1 show ?thesis by (auto simp: RequestReplyWithCreator_def link_closed_refl)
  next
    case closed
    with assms poll tr1 show ?thesis by (auto simp: RequestReplyWithCreator_def link_closed_refl)
  next
    case down
    with assms poll span dial link2 oh2 sp show ?thesis
      by (auto simp: RequestReplyWithCreator_def newConnection_def r_on_tel_def recordState_def)
  next
    case up
    from request_reply_connected [OF assms poll up(1,2) span dial [unfolded up(3)]] up link2 oh2
    show ?thesis by simp
  qed
qed

text \<open>
  A call leaves nothing behind. On every path (a done context, a closed client, a failed
  dial, a failure of either queue, a timeout, a reply, an error or a panic of the
  creator), \<^verbatim>\<open>RequestReplyWithCreator\<close> has disconnected the connection it dialled, closed
  the queues it opened and ended its span; and a call that returns a reply leaves the
  client in \<^verbatim>\<open>StateConnected\<close> without an error.
\<close>

theorem request_reply_clean:
  assumes "RequestReplyWithCreator env ctx creator timeout r io = (x, r', io')"
  shows "link_closed io io' \<and> open_handles (trace io') = open_handles (trace io) \<and>
    open_spans (r_tel r') = open_spans (r_tel r) \<and> r_closed r' = r_closed r \<and>
    (case x of Returns (Inr _) \<Rightarrow> r_state r' = StateConnected \<and> r_lastErr r' = None | _ \<Rightarrow> True)"
  using assms by (rule RequestReplyWithCreator_clean)

definition demo_rr :: RequestReplyClient where
  "demo_rr = new_request_reply_fixed demo_config ''Q.REQ'' ''Q.REP''"

theorem request_reply_clean_witness:
  "open_handles (trace (snd (snd (RequestReplyWithCreator script_env 0 (Some panic_creator) second demo_rr
     (start_io quiet_script))))) = {#}"
proof -
  let ?c = "RequestReplyWithCreator script_env 0 (Some panic_creator) second demo_rr (start_io quiet_script)"
  have "?c = (fst ?c, fst (snd ?c), snd (snd ?c))" by simp
  from request_reply_clean [OF this] show ?thesis by (simp add: start_io_def open_handles_def)
qed

subsection \<open>Replies\<close>

lemma with_queue_reply:
  assumes "with_queue env h od opts failure body io = (Returns (Inr x), io')"
  obtains q od' io1 io2 where "mq_Open env h od opts io = (Inr (q, od'), io1)"
    "body q od' io1 = (Returns (Inr x), io2)" "io' = mq_Close env q io2"
  using assms by (auto simp: with_queue_def split: prod.splits sum.splits)

lemma mq_Open_ok:
  "mq_Open env h od opts io = (Inr (q, od'), io1) \<Longrightarrow>
     trace io1 = trace io @ [EOpen h (ObjectName od) opts (Inr q)] \<and>
     fst (OpenQ env h od opts (world io)) = Inr (q, od')"
  by (auto simp: mq_Open_def split: prod.splits)

lemma with_creator_reply:
  assumes "with_creator creator msg0 body io = (Returns (Inr x), io')"
  obtains msg io1 where "run_creator creator msg0 io = (Returns (None, msg), io1)"
    "body msg io1 = (Returns (Inr x), io')" "trace io1 = trace io"
proof -
  obtain y io1 where c: "run_creator creator msg0 io = (y, io1)" by (cases "run_creator creator msg0 io")
  then have "trace io1 = trace io" by (auto simp: run_creator_def split: option.splits prod.splits)
  moreover from assms c obtain msg where "y = Returns (None, msg)" "body msg io1 = (Returns (Inr x), io')"
    by (auto simp: with_creator_def split: outcome.splits prod.splits option.splits)
  ultimately show thesis using that c by simp
qed

lemma exchange_reply:
  assumes "exchange env reqQ replyQ putMD getMD gmo body putText getText io = (Returns (Inr x), io')"
  shows "trace io' = trace io @ [EPut reqQ putMD (put_options env) body None, EGet replyQ getMD gmo (Inr x)]"
    and "\<exists>w. fst (GetSliceQ env replyQ getMD gmo (4 * 1024 * 1024) w) = Inr x"
proof -
  from assms obtain io1 md where p: "mq_Put env reqQ putMD (put_options env) body io = (Inr md, io1)"
    and g: "mq_Get env replyQ getMD gmo (4 * 1024 * 1024) io1 = (Inr x, io')"
    by (auto simp: exchange_def split: prod.splits sum.splits)
  show "trace io' = trace io @ [EPut reqQ putMD (put_options env) body None, EGet replyQ getMD gmo (Inr x)]"
    using p g by (auto simp: mq_Put_def mq_Get_def split: prod.splits)
  show "\<exists>w. fst (GetSliceQ env replyQ getMD gmo (4 * 1024 * 1024) w) = Inr x"
    using g by (auto simp: mq_Get_def split: prod.splits intro!: exI [of _ "world io1"])
qed

lemma map_reply_ok: "map_reply f r = Returns (Inr y) \<longleftrightarrow> (\<exists>x. r = Returns (Inr x) \<and> y = f x)"
  by (cases r) (auto simp: map_reply_def split: sum.splits)

lemma request_descriptor_fields [simp]:
  "ReplyToQ (request_descriptor env cfg q msg) = q"
  "CorrelId (request_descriptor env cfg q msg) = CorrelId (newMQMD env)"
  by (simp_all add: request_descriptor_def Let_def)

lemma fixed_exchange_reply:
  assumes "fixed_exchange env conn requestQueue replyQueue timeout random msg io = (Returns (Inr reply), io')"
  obtains replyQ reqQ putMD getMD gmo md data where
    "trace io' = trace io @
      [EOpen (queueManager conn) replyQueue (MQOO_INPUT_SHARED env OR MQOO_FAIL_IF_QUIESCING env) (Inr replyQ),
       EOpen (queueManager conn) requestQueue (output_options env) (Inr reqQ),
       EPut reqQ putMD (put_options env) (Body msg) None,
       EGet replyQ getMD gmo (Inr (md, data)), EClose reqQ, EClose replyQ]"
    "CorrelId getMD = CorrelId putMD" "ReplyToQ putMD = replyQueue"
    "gmo_MatchOptions gmo = MQMO_MATCH_CORREL_ID env" "gmo_WaitInterval gmo = waitMS timeout"
    "\<exists>n w. fst (GetSliceQ env replyQ getMD gmo n w) = Inr (md, data)"
    "reply = messageFromMQMD md data"
    "\<exists>k. routing_key random (CorrelationID msg) = Some k \<and> CorrelId putMD = go_copy (CorrelId (newMQMD env)) k"
proof -
  from assms obtain k where k: "routing_key random (CorrelationID msg) = Some k"
    by (cases "routing_key random (CorrelationID msg)") (simp_all add: fixed_exchange_def)
  let ?md = "(request_descriptor env (config conn) replyQueue msg)\<lparr>CorrelId := go_copy (CorrelId (newMQMD env)) k\<rparr>"
  let ?get = "(newMQMD env)\<lparr>CorrelId := go_copy (CorrelId (newMQMD env)) k\<rparr>"
  let ?gmo = "(reply_options env timeout)\<lparr>gmo_MatchOptions := MQMO_MATCH_CORREL_ID env\<rparr>"
  from assms obtain replyQ od1 io1 reqQ od2 io2 x io3 pt gt where
    o1: "mq_Open env (queueManager conn) ((newMQOD env)\<lparr>ObjectName := replyQueue\<rparr>)
      (MQOO_INPUT_SHARED env OR MQOO_FAIL_IF_QUIESCING env) io = (Inr (replyQ, od1), io1)" and
    o2: "mq_Open env (queueManager conn) ((newMQOD env)\<lparr>ObjectName := requestQueue\<rparr>) (output_options env) io1
      = (Inr (reqQ, od2), io2)" and
    ex: "exchange env reqQ replyQ ?md ?get ?gmo (Body msg) pt gt io2 = (Returns (Inr x), io3)" and
    reply: "reply = (case x of (m, d) \<Rightarrow> messageFromMQMD m d)" and
    io': "io' = mq_Close env replyQ (mq_Close env reqQ io3)"
    unfolding fixed_exchange_def k option.case Let_def
    by (elim with_queue_reply) (auto simp: map_reply_ok split: prod.splits elim!: with_queue_reply)
  obtain md data where x: "x = (md, data)" by (cases x)
  show thesis
    by (rule that [of replyQ reqQ ?md ?get ?gmo md data])
      (use mq_Open_ok [OF o1] mq_Open_ok [OF o2] exchange_reply [OF ex] reply io' x k in
        \<open>auto simp: mq_Close_def reply_options_def\<close>)
qed

text \<open>
  The documented behaviour of the match option \<^verbatim>\<open>MQMO_MATCH_CORREL_ID\<close>: a GET returns only
  messages with the correlation id of the descriptor it is given, unless that is
  \<^verbatim>\<open>MQCI_NONE\<close> (24 zero bytes), which every message matches.
\<close>

definition MQCI_NONE :: bytes where
  "MQCI_NONE = replicate 24 0"

definition matches_correl_id :: "'w env \<Rightarrow> bool" where
  "matches_correl_id env \<longleftrightarrow>
     (\<forall>q md gmo n w md' data. fst (GetSliceQ env q md gmo n w) = Inr (md', data) \<longrightarrow>
        gmo_MatchOptions gmo = MQMO_MATCH_CORREL_ID env \<longrightarrow> CorrelId md \<noteq> MQCI_NONE \<longrightarrow>
        CorrelId md' = CorrelId md)"

text \<open>
  A reply over a shared queue belongs to its request. If a GET with
  \<^verbatim>\<open>MQMO_MATCH_CORREL_ID\<close> returns only messages with the correlation id asked for, then a
  reply returned by \<^verbatim>\<open>requestReplyViaFixedQueue\<close> carries the correlation id its own request
  was put with, unless that is \<^verbatim>\<open>MQCI_NONE\<close>. The calls are exactly: open both queues, put the request with the reply
  queue as its reply-to queue, get on the reply queue with that filter and the wait
  interval of the timeout, close both queues in reverse order.
\<close>

theorem fixed_reply_correlated:
  assumes match: "matches_correl_id env"
    and run: "requestReplyViaFixedQueue env conn requestQueue replyQueue creator timeout io =
      (Returns (Inr reply), io')"
  shows "\<exists>replyQ reqQ putMD getMD gmo body md data. trace io' = trace io @
      [EOpen (queueManager conn) replyQueue (MQOO_INPUT_SHARED env OR MQOO_FAIL_IF_QUIESCING env) (Inr replyQ),
       EOpen (queueManager conn) requestQueue (output_options env) (Inr reqQ),
       EPut reqQ putMD (put_options env) body None,
       EGet replyQ getMD gmo (Inr (md, data)), EClose reqQ, EClose replyQ] \<and>
    ReplyToQ putMD = replyQueue \<and> gmo_WaitInterval gmo = waitMS timeout \<and>
    reply = messageFromMQMD md data \<and>
    (CorrelId putMD \<noteq> MQCI_NONE \<longrightarrow> CorrelationID reply = EncodeToString (CorrelId putMD))"
proof -
  obtain x io1 where rd: "rand_Read env 24 io = (x, io1)" by (cases "rand_Read env 24 io")
  then have tr: "trace io1 = trace io" by (auto simp: rand_Read_def split: prod.splits sum.splits)
  from run rd obtain random where "with_creator creator
      (empty_message\<lparr>CorrelationID := EncodeToString random, ReplyToQueue := replyQueue\<rparr>)
      (fixed_exchange env conn requestQueue replyQueue timeout random) io1 = (Returns (Inr reply), io')"
    by (auto simp: requestReplyViaFixedQueue_def split: sum.splits)
  then obtain msg io2 where
    "fixed_exchange env conn requestQueue replyQueue timeout random msg io2 = (Returns (Inr reply), io')"
    and tr2: "trace io2 = trace io1" by (rule with_creator_reply)
  from this(1) show ?thesis
  proof (rule fixed_exchange_reply)
    fix replyQ reqQ putMD getMD gmo md data
    assume ev: "trace io' = trace io2 @
      [EOpen (queueManager conn) replyQueue (MQOO_INPUT_SHARED env OR MQOO_FAIL_IF_QUIESCING env) (Inr replyQ),
       EOpen (queueManager conn) requestQueue (output_options env) (Inr reqQ),
       EPut reqQ putMD (put_options env) (Body msg) None,
       EGet replyQ getMD gmo (Inr (md, data)), EClose reqQ, EClose replyQ]"
      and id: "CorrelId getMD = CorrelId putMD" and q: "ReplyToQ putMD = replyQueue"
      and mo: "gmo_MatchOptions gmo = MQMO_MATCH_CORREL_ID env" "gmo_WaitInterval gmo = waitMS timeout"
      and got: "\<exists>n w. fst (GetSliceQ env replyQ getMD gmo n w) = Inr (md, data)"
      and reply: "reply = messageFromMQMD md data"
    from got match mo(1) id have "CorrelId putMD \<noteq> MQCI_NONE \<Longrightarrow> CorrelId md = CorrelId putMD"
      unfolding matches_correl_id_def by metis
    with ev q mo reply tr tr2 show ?thesis by auto
  qed
qed

text \<open>A queue manager that answers every GET with the descriptor asked for.\<close>

definition echo_env :: "script env" where
  "echo_env = script_env\<lparr>GetSliceQ := (\<lambda>q md gmo n w. (Inr (md, [1, 2, 3]), w))\<rparr>"

lemma echo_open:
  "q_open (world io) = [] \<Longrightarrow> mq_Open echo_env h od opts io =
     (Inr (2, od), emit (EOpen h (ObjectName od) opts (Inr 2)) (world io) io)"
  by (simp add: mq_Open_def echo_env_def script_env_def)

lemma echo_exchange:
  "q_put (world io) = [] \<Longrightarrow> exchange echo_env a b md1 md2 gmo body t1 t2 io =
     (Returns (Inr (md2, [1, 2, 3])), emit (EGet b md2 gmo (Inr (md2, [1, 2, 3]))) (world io)
        (emit (EPut a md1 (put_options echo_env) body None) (world io) io))"
  by (simp add: exchange_def mq_Put_def mq_Get_def echo_env_def script_env_def)

lemma quiet_world:
  "q_put quiet_script = []" "q_open quiet_script = []" "world (start_io quiet_script) = quiet_script"
  by (simp_all add: start_io_def quiet_script_def)

text \<open>Every put of a trace has the correlation id \<open>k\<close>.\<close>

fun put_key :: "bytes \<Rightarrow> mq_event \<Rightarrow> bool" where
  "put_key k (EPut _ md _ _ _) = (CorrelId md = k)"
| "put_key k _ = True"

lemma put_key_none: "list_all (put_key (replicate 24 9)) tr \<Longrightarrow> EPut q md pmo body e \<in> set tr \<Longrightarrow> CorrelId md \<noteq> MQCI_NONE"
  by (auto simp: list_all_iff MQCI_NONE_def)

lemma routing_key_hex: "length b = 24 \<Longrightarrow> routing_key r (EncodeToString b) = Some b"
  by (auto simp: routing_key_def hex.dec_enc go_copy_full)

lemma echo_reply:
  assumes creator: "\<And>msg io. \<exists>msg'. run_creator creator msg io = (Returns (None, msg'), io) \<and> CorrelationID msg' = CorrelationID msg"
    and world: "q_put (world io) = []" "q_open (world io) = []"
    and key: "list_all (put_key (replicate 24 9)) (trace io)"
  shows "\<exists>reply io'. requestReplyViaFixedQueue echo_env conn ''Q.REQ'' ''Q.REP'' creator second io = (Returns (Inr reply), io') \<and>
    list_all (put_key (replicate 24 9)) (trace io')"
proof -
  let ?k = "replicate 24 (9 :: byte)"
  have rd: "rand_Read echo_env 24 io = (Inr ?k, io)" for io
    by (simp add: rand_Read_def echo_env_def script_env_def go_copy_full)
  have new: "CorrelId (newMQMD echo_env) = replicate 24 0"
    by (simp add: echo_env_def script_env_def script_mqmd_def)
  have "\<exists>reply io'. fixed_exchange echo_env conn ''Q.REQ'' ''Q.REP'' second r msg io = (Returns (Inr reply), io') \<and>
      list_all (put_key ?k) (trace io')"
    if cid: "CorrelationID msg = EncodeToString ?k" for r msg
    using key
    by (simp add: fixed_exchange_def cid routing_key_hex with_queue_def echo_open world echo_exchange map_reply_def Let_def
        mq_Close_def new go_copy_full del: replicate.simps)
  moreover obtain msg where "run_creator creator (empty_message\<lparr>CorrelationID := EncodeToString ?k, ReplyToQueue := ''Q.REP''\<rparr>) io =
      (Returns (None, msg), io)" "CorrelationID msg = EncodeToString ?k"
    using creator [of "empty_message\<lparr>CorrelationID := _, ReplyToQueue := ''Q.REP''\<rparr>" io] by force
  ultimately show ?thesis
    by (simp add: requestReplyViaFixedQueue_def rd with_creator_def del: replicate.simps)
qed

theorem fixed_reply_correlated_witness:
  "\<exists>reply io' q putMD body. requestReplyViaFixedQueue echo_env (fresh_connection demo_config) ''Q.REQ'' ''Q.REP''
     (Some (payload_creator ''hi'')) second (start_io quiet_script) = (Returns (Inr reply), io') \<and>
     EPut q putMD (put_options echo_env) body None \<in> set (trace io') \<and>
     CorrelationID reply = EncodeToString (CorrelId putMD)"
proof -
  obtain reply io' where run: "requestReplyViaFixedQueue echo_env (fresh_connection demo_config) ''Q.REQ'' ''Q.REP''
     (Some (payload_creator ''hi'')) second (start_io quiet_script) = (Returns (Inr reply), io')"
    and key: "list_all (put_key (replicate 24 9)) (trace io')"
    using echo_reply [of "Some (payload_creator ''hi'')" "start_io quiet_script" "fresh_connection demo_config"]
    by (auto simp: run_creator_def payload_creator_def quiet_world start_io_def)
  have m: "matches_correl_id echo_env" by (simp add: matches_correl_id_def echo_env_def)
  from fixed_reply_correlated [OF m run] obtain q putMD body where
    put: "EPut q putMD (put_options echo_env) body None \<in> set (trace io')"
    and "CorrelId putMD \<noteq> MQCI_NONE \<longrightarrow> CorrelationID reply = EncodeToString (CorrelId putMD)" by force
  with put_key_none [OF key put] run show ?thesis by blast
qed

text \<open>
  The exception is real. A creator may choose the correlation id \<^verbatim>\<open>00\<close>, which becomes 24 zero
  bytes; with a queue manager that gives such a GET the first message of the queue, as
  documented, the call returns the reply to somebody else's request.
\<close>

definition crowded_env :: "script env" where
  "crowded_env = echo_env\<lparr>GetSliceQ := (\<lambda>q md gmo n w.
     (Inr (if CorrelId md = MQCI_NONE then md\<lparr>CorrelId := replicate 24 5\<rparr> else md, [1, 2, 3]), w))\<rparr>"

definition zero_creator :: "script MessageCreator" where
  "zero_creator msg w = (Returns (None, msg\<lparr>CorrelationID := ''00''\<rparr>), w)"

lemma zero_routing_key: "routing_key random ''00'' = Some MQCI_NONE"
  by (simp add: routing_key_def MQCI_NONE_def hex_value_def go_copy_def numeral_eq_Suc)

lemma zero_correlation_takes_any:
  "matches_correl_id crowded_env \<and>
   (\<exists>reply io'. requestReplyViaFixedQueue crowded_env (fresh_connection demo_config) ''Q.REQ'' ''Q.REP''
      (Some zero_creator) second (start_io quiet_script) = (Returns (Inr reply), io') \<and>
      puts io' = 1 \<and> list_all (put_key MQCI_NONE) (trace io') \<and>
      CorrelationID reply = EncodeToString (replicate 24 5))"
proof
  show "matches_correl_id crowded_env" by (simp add: matches_correl_id_def crowded_env_def)
  have "CorrelId (newMQMD crowded_env) = MQCI_NONE" "go_copy MQCI_NONE MQCI_NONE = MQCI_NONE"
    by (simp_all add: crowded_env_def echo_env_def script_env_def script_mqmd_def MQCI_NONE_def go_copy_full)
  moreover have "rand_Read crowded_env 24 io = (Inr (replicate 24 9), io)"
    "q_open (world io) = [] \<Longrightarrow> mq_Open crowded_env h od oo io = (Inr (2, od), emit (EOpen h (ObjectName od) oo (Inr 2)) (world io) io)"
    "q_put (world io) = [] \<Longrightarrow> CorrelId md2 = MQCI_NONE \<Longrightarrow> exchange crowded_env a b md1 md2 gmo body t1 t2 io =
       (Returns (Inr (md2\<lparr>CorrelId := replicate 24 5\<rparr>, [1, 2, 3])),
        emit (EGet b md2 gmo (Inr (md2\<lparr>CorrelId := replicate 24 5\<rparr>, [1, 2, 3]))) (world io)
          (emit (EPut a md1 (put_options crowded_env) body None) (world io) io))"
    for io h od oo a b md1 md2 gmo body t1 t2
    by (simp_all add: rand_Read_def exchange_def mq_Open_def mq_Put_def mq_Get_def crowded_env_def echo_env_def script_env_def
        go_copy_full)
  ultimately show "\<exists>reply io'. requestReplyViaFixedQueue crowded_env (fresh_connection demo_config) ''Q.REQ'' ''Q.REP''
      (Some zero_creator) second (start_io quiet_script) = (Returns (Inr reply), io') \<and>
      puts io' = 1 \<and> list_all (put_key MQCI_NONE) (trace io') \<and>
      CorrelationID reply = EncodeToString (replicate 24 5)"
    by (simp add: requestReplyViaFixedQueue_def with_creator_def run_creator_def zero_creator_def fixed_exchange_def
        zero_routing_key with_queue_def quiet_world map_reply_def Let_def mq_Close_def puts_def start_io_def
        del: replicate.simps)
qed

text \<open>
  A reply over a temporary queue. A reply returned by \<^verbatim>\<open>requestReplyViaTempQueue\<close> was
  received, with the wait interval of the timeout, on the queue the call itself opened
  from the model queue, and the request was put with the name the queue manager gave to
  that queue as its reply-to queue. Both queues are closed in reverse order; the reply
  has the received body and no user properties.
\<close>

theorem temp_reply_routed:
  assumes "requestReplyViaTempQueue env conn requestQueue modelQueue creator timeout io =
      (Returns (Inr reply), io')"
  shows "\<exists>replyQ replyOD reqQ putMD gmo body md data. trace io' = trace io @
      [EOpen (queueManager conn) modelQueue (MQOO_INPUT_EXCLUSIVE env OR MQOO_FAIL_IF_QUIESCING env) (Inr replyQ),
       EOpen (queueManager conn) requestQueue (output_options env) (Inr reqQ),
       EPut reqQ putMD (put_options env) body None,
       EGet replyQ (newMQMD env) gmo (Inr (md, data)), EClose reqQ, EClose replyQ] \<and>
    fst (OpenQ env (queueManager conn) ((newMQOD env)\<lparr>ObjectName := modelQueue, DynamicQName := ''AMQ.*''\<rparr>)
      (MQOO_INPUT_EXCLUSIVE env OR MQOO_FAIL_IF_QUIESCING env) (world io)) = Inr (replyQ, replyOD) \<and>
    ReplyToQ putMD = ObjectName replyOD \<and> gmo_WaitInterval gmo = waitMS timeout \<and>
    Body reply = data \<and> CorrelationID reply = EncodeToString (CorrelId md) \<and> UserProperties reply = None"
proof -
  let ?od = "(newMQOD env)\<lparr>ObjectName := modelQueue, DynamicQName := ''AMQ.*''\<rparr>"
  let ?in = "MQOO_INPUT_EXCLUSIVE env OR MQOO_FAIL_IF_QUIESCING env"
  let ?gmo = "reply_options env timeout"
  let ?md = "\<lambda>od msg. (request_descriptor env (config conn) (ObjectName od) msg)\<lparr>CorrelId :=
    apply_correlation (CorrelationID msg) (CorrelId (newMQMD env))\<rparr>"
  from assms obtain replyQ od1 io1 msg io2 reqQ od2 io3 x io4 pt gt where
    o1: "mq_Open env (queueManager conn) ?od ?in io = (Inr (replyQ, od1), io1)" and
    io2: "trace io2 = trace io1" and
    o2: "mq_Open env (queueManager conn) ((newMQOD env)\<lparr>ObjectName := requestQueue\<rparr>) (output_options env) io2
      = (Inr (reqQ, od2), io3)" and
    ex: "exchange env reqQ replyQ (?md od1 msg) (newMQMD env) ?gmo (Body msg) pt gt io3 = (Returns (Inr x), io4)" and
    reply: "reply = temp_reply x" and io': "io' = mq_Close env replyQ (mq_Close env reqQ io4)"
    unfolding requestReplyViaTempQueue_def Let_def
    by (elim with_queue_reply with_creator_reply)
      (auto simp: map_reply_ok split: prod.splits)
  obtain m data where x: "x = (m, data)" by (cases x)
  from mq_Open_ok [OF o1] mq_Open_ok [OF o2] exchange_reply(1) [OF ex] io2 io' x
  have "trace io' = trace io @
      [EOpen (queueManager conn) modelQueue ?in (Inr replyQ),
       EOpen (queueManager conn) requestQueue (output_options env) (Inr reqQ),
       EPut reqQ (?md od1 msg) (put_options env) (Body msg) None,
       EGet replyQ (newMQMD env) ?gmo (Inr (m, data)), EClose reqQ, EClose replyQ]"
    by (simp add: mq_Close_def)
  moreover have "Body reply = data \<and> CorrelationID reply = EncodeToString (CorrelId m) \<and> UserProperties reply = None"
    by (simp add: reply x temp_reply_def go_copy_full)
  moreover have "gmo_WaitInterval ?gmo = waitMS timeout" by (simp add: reply_options_def)
  moreover have "ReplyToQ (?md od1 msg) = ObjectName od1" by simp
  ultimately show ?thesis using mq_Open_ok [OF o1] by blast
qed

theorem temp_reply_routed_witness:
  "\<exists>reply io'. requestReplyViaTempQueue echo_env (fresh_connection demo_config) ''Q.REQ'' ''MODEL''
     (Some (payload_creator ''hi'')) second (start_io quiet_script) = (Returns (Inr reply), io') \<and>
     UserProperties reply = None"
proof -
  obtain reply io' where run: "requestReplyViaTempQueue echo_env (fresh_connection demo_config) ''Q.REQ'' ''MODEL''
     (Some (payload_creator ''hi'')) second (start_io quiet_script) = (Returns (Inr reply), io')"
    by (simp add: requestReplyViaTempQueue_def with_queue_def with_creator_def run_creator_def
        payload_creator_def echo_open quiet_world echo_exchange map_reply_def Let_def)
  from temp_reply_routed [OF run] run show ?thesis by blast
qed

end
