(* ===== verification/RequestReply_Life.thy ===== *)
theory RequestReply_Life
  imports MQ_RequestReply "HOL-Library.Sublist"
begin

unbundle bit_operations_syntax

text \<open>
  Concurrent use of one request-reply client: any number of calls of
  \<^verbatim>\<open>RequestReplyWithCreator\<close> and of \<^verbatim>\<open>Close\<close>, interleaved at every call into MQ, every
  critical section and every call on a span. A step of a call makes exactly the next call
  of the source on the shared client and the shared world; between two steps anything may
  happen to the world. \<open>MQ_RequestReply\<close> is the special case of a call that is not
  interrupted, which is a theorem here.
\<close>

subsection \<open>Program points\<close>

text \<open>What a call has decided once its creator has run: the request and how to wait for the reply.\<close>

record plan =
  pl_putMD :: mqmd
  pl_getMD :: mqmd
  pl_gmo :: mqgmo
  pl_body :: bytes
  pl_putText :: string
  pl_getText :: string
  pl_reply :: "mqmd \<times> bytes \<Rightarrow> Message"

definition temp_plan :: "'w env \<Rightarrow> connection \<Rightarrow> string \<Rightarrow> string \<Rightarrow> duration \<Rightarrow> Message \<Rightarrow> plan" where
  "temp_plan env c replyQueueName requestQueue timeout msg =
     (let md0 = request_descriptor env (config c) replyQueueName msg in
      \<lparr>pl_putMD = md0\<lparr>CorrelId := apply_correlation (CorrelationID msg) (CorrelId md0)\<rparr>,
       pl_getMD = newMQMD env, pl_gmo = reply_options env timeout, pl_body = Body msg,
       pl_putText = ''commons-mq-go: failed to put request message to queue '' @ quote requestQueue,
       pl_getText = ''commons-mq-go: failed to receive reply message'', pl_reply = temp_reply\<rparr>)"

definition fixed_plan ::
  "'w env \<Rightarrow> connection \<Rightarrow> string \<Rightarrow> string \<Rightarrow> duration \<Rightarrow> bytes \<Rightarrow> Message \<Rightarrow> plan" where
  "fixed_plan env c replyQueue requestQueue timeout correlBytes msg =
     (let md0 = request_descriptor env (config c) replyQueue msg in
      \<lparr>pl_putMD = md0\<lparr>CorrelId := go_copy (CorrelId md0) correlBytes\<rparr>,
       pl_getMD = (newMQMD env)\<lparr>CorrelId := go_copy (CorrelId (newMQMD env)) correlBytes\<rparr>,
       pl_gmo = (reply_options env timeout)\<lparr>gmo_MatchOptions := MQMO_MATCH_CORREL_ID env\<rparr>,
       pl_body = Body msg,
       pl_putText = ''commons-mq-go: failed to put request to queue '' @ quote requestQueue,
       pl_getText = ''commons-mq-go: failed to receive fixed-queue reply'',
       pl_reply = (\<lambda>(md, data). messageFromMQMD md data)\<rparr>)"

type_synonym rr_result = "(go_error + Message) outcome"

text \<open>
  The points of a call, named after what it does next: look at its context, take the lock,
  start its span, dial; with a connection, open the temporary queue and run the creator, or
  read random bytes, run the creator and open the shared queue; open the request queue, put,
  get, close both queues; note an error on the span, record the state, disconnect, end the
  span. \<open>REnd\<close> has returned or passed on a panic.
\<close>

datatype 'w rr_pc =
    RPoll
  | RLock
  | RSpan
  | RDial span "'w MessageCreator option"
  | RDialFailed span go_error
  | RDialNote span go_error
  | RTemp span connection "'w MessageCreator option"
  | RTempCreate span connection "'w MessageCreator option" handle string
  | RRand span connection "'w MessageCreator option"
  | RFixedCreate span connection "'w MessageCreator option" bytes
  | ROpenReply span connection plan
  | ROpenReq span connection handle plan
  | RPut span connection handle handle plan
  | RGet span connection handle handle plan
  | RCloseReq span connection handle handle rr_result
  | RCloseReply span connection handle rr_result
  | RNote span connection rr_result
  | RRecord span connection rr_result
  | RDisc span connection rr_result
  | RSpanEnd span rr_result
  | REnd rr_result

text \<open>What a call was made with.\<close>

record 'w rr_args =
  a_ctx :: ctx
  a_creator :: "'w MessageCreator option"
  a_timeout :: duration

subsection \<open>Steps\<close>

definition record_outcome :: "rr_result \<Rightarrow> RequestReplyClient \<Rightarrow> RequestReplyClient" where
  "record_outcome x r =
     (case x of
        Panics _ \<Rightarrow> r
      | Returns (Inr _) \<Rightarrow> recordState StateConnected None r
      | Returns (Inl err) \<Rightarrow>
          if error_is err ErrTimeout \<or> \<not> IsConnectionError (Some err) then recordState StateConnected None r
          else recordState StateFailed (Some err) r)"

definition note_error :: "span \<Rightarrow> rr_result \<Rightarrow> RequestReplyClient \<Rightarrow> RequestReplyClient" where
  "note_error sp x r =
     (case x of Returns (Inl err) \<Rightarrow> r_on_tel (tel_emit (RecordError sp err)) r | _ \<Rightarrow> r)"

fun rr_move ::
  "'w env \<Rightarrow> 'w rr_args \<Rightarrow> 'w rr_pc \<Rightarrow> RequestReplyClient \<Rightarrow> 'w io \<Rightarrow>
   ('w rr_pc \<times> RequestReplyClient \<times> 'w io) option" where
  "rr_move env a RPoll r io =
     Some (case ctx_Err env (a_ctx a) io of
             (Some err, io1) \<Rightarrow> (REnd (Returns (Inl err)), r, io1)
           | (None, io1) \<Rightarrow> (RLock, r, io1))"
| "rr_move env a RLock r io =
     Some (if r_closed r then REnd (Returns (Inl (Sentinel ErrClientClosed))) else RSpan, r, io)"
| "rr_move env a RSpan r io =
     (case startClientSpan (otel_api env) (a_ctx a) (r_requestQueue r) (r_tel r) of
        (spanCtx, sp, tel1) \<Rightarrow>
          Some (RDial sp (Some (wrappedCreator (otel_api env) tel1 spanCtx (a_creator a))), r\<lparr>r_tel := tel1\<rparr>, io))"
| "rr_move env a (RDial sp cr) r io =
     Some (case newConnection env (r_cfg r) io of
             (Inl err, io1) \<Rightarrow> (RDialFailed sp err, r, io1)
           | (Inr c, io1) \<Rightarrow>
               (if r_mode r = FixedQueueSelector then RRand sp c cr else RTemp sp c cr, r, io1))"
| "rr_move env a (RDialFailed sp err) r io = Some (RDialNote sp err, recordState StateFailed (Some err) r, io)"
| "rr_move env a (RDialNote sp err) r io =
     Some (RSpanEnd sp (Returns (Inl err)), r_on_tel (tel_emit (RecordError sp err)) r, io)"
| "rr_move env a (RTemp sp c cr) r io =
     Some (case mq_Open env (queueManager c)
                  ((newMQOD env)\<lparr>ObjectName := ModelQueue (r_cfg r), DynamicQName := ''AMQ.*''\<rparr>)
                  (MQOO_INPUT_EXCLUSIVE env OR MQOO_FAIL_IF_QUIESCING env) io of
             (Inl err, io1) \<Rightarrow>
               (RNote sp c (Returns (Inl (wrap_error ''commons-mq-go: failed to open temporary reply queue''
                  (sanitizeError err)))), r, io1)
           | (Inr (q, od), io1) \<Rightarrow> (RTempCreate sp c cr q (ObjectName od), r, io1))"
| "rr_move env a (RTempCreate sp c cr q name) r io =
     Some (case run_creator cr (empty_message\<lparr>ReplyToQueue := name\<rparr>) io of
             (Panics v, io1) \<Rightarrow> (RCloseReply sp c q (Panics v), r, io1)
           | (Returns (Some err, _), io1) \<Rightarrow> (RCloseReply sp c q (Returns (Inl (creator_error err))), r, io1)
           | (Returns (None, msg), io1) \<Rightarrow>
               (ROpenReq sp c q (temp_plan env c name (r_requestQueue r) (a_timeout a) msg), r, io1))"
| "rr_move env a (RRand sp c cr) r io =
     Some (case rand_Read env 24 io of
             (Inl err, io1) \<Rightarrow>
               (RNote sp c (Returns (Inl (wrap_error ''commons-mq-go: failed to generate correlation ID'' err))), r, io1)
           | (Inr random, io1) \<Rightarrow> (RFixedCreate sp c cr random, r, io1))"
| "rr_move env a (RFixedCreate sp c cr random) r io =
     Some (case run_creator cr (empty_message\<lparr>CorrelationID := EncodeToString random, ReplyToQueue := r_replyQueue r\<rparr>) io of
             (Panics v, io1) \<Rightarrow> (RNote sp c (Panics v), r, io1)
           | (Returns (Some err, _), io1) \<Rightarrow> (RNote sp c (Returns (Inl (creator_error err))), r, io1)
           | (Returns (None, msg), io1) \<Rightarrow>
               (case routing_key random (CorrelationID msg) of
                  None \<Rightarrow> (RNote sp c (Returns (Inl (invalid_correlation (CorrelationID msg)))), r, io1)
                | Some correlBytes \<Rightarrow>
                    (ROpenReply sp c (fixed_plan env c (r_replyQueue r) (r_requestQueue r) (a_timeout a) correlBytes msg),
                     r, io1)))"
| "rr_move env a (ROpenReply sp c p) r io =
     Some (case mq_Open env (queueManager c) ((newMQOD env)\<lparr>ObjectName := r_replyQueue r\<rparr>)
                  (MQOO_INPUT_SHARED env OR MQOO_FAIL_IF_QUIESCING env) io of
             (Inl err, io1) \<Rightarrow>
               (RNote sp c (Returns (Inl (wrap_error (''commons-mq-go: failed to open fixed reply queue '' @
                  quote (r_replyQueue r)) (sanitizeError err)))), r, io1)
           | (Inr (q, od), io1) \<Rightarrow> (ROpenReq sp c q p, r, io1))"
| "rr_move env a (ROpenReq sp c q p) r io =
     Some (case mq_Open env (queueManager c) ((newMQOD env)\<lparr>ObjectName := r_requestQueue r\<rparr>) (output_options env) io of
             (Inl err, io1) \<Rightarrow>
               (RCloseReply sp c q (Returns (Inl (wrap_error (''commons-mq-go: failed to open request queue '' @
                  quote (r_requestQueue r)) (sanitizeError err)))), r, io1)
           | (Inr (reqQ, od), io1) \<Rightarrow> (RPut sp c q reqQ p, r, io1))"
| "rr_move env a (RPut sp c q reqQ p) r io =
     Some (case mq_Put env reqQ (pl_putMD p) (put_options env) (pl_body p) io of
             (Inl err, io1) \<Rightarrow>
               (RCloseReq sp c q reqQ (Returns (Inl (wrap_error (pl_putText p) (sanitizeError err)))), r, io1)
           | (Inr md, io1) \<Rightarrow> (RGet sp c q reqQ p, r, io1))"
| "rr_move env a (RGet sp c q reqQ p) r io =
     Some (case mq_Get env q (pl_getMD p) (pl_gmo p) (4 * 1024 * 1024) io of
             (Inl err, io1) \<Rightarrow>
               (RCloseReq sp c q reqQ (Returns (Inl (if IsEmptyQueueError (Some err) then Sentinel ErrTimeout
                  else wrap_error (pl_getText p) (sanitizeError err)))), r, io1)
           | (Inr x, io1) \<Rightarrow> (RCloseReq sp c q reqQ (Returns (Inr (pl_reply p x))), r, io1))"
| "rr_move env a (RCloseReq sp c q reqQ x) r io = Some (RCloseReply sp c q x, r, mq_Close env reqQ io)"
| "rr_move env a (RCloseReply sp c q x) r io = Some (RNote sp c x, r, mq_Close env q io)"
| "rr_move env a (RNote sp c x) r io = Some (RRecord sp c x, note_error sp x r, io)"
| "rr_move env a (RRecord sp c x) r io = Some (RDisc sp c x, record_outcome x r, io)"
| "rr_move env a (RDisc sp c x) r io =
     Some (case conn_Close env c io of (_, _, io1) \<Rightarrow> (RSpanEnd sp x, r, io1))"
| "rr_move env a (RSpanEnd sp x) r io = Some (REnd x, r_on_tel (tel_emit (SpanEnd sp)) r, io)"
| "rr_move env a (REnd x) r io = None"

text \<open>The system: \<open>c_trace\<close> lists the events of the trace that are this call's own.\<close>

record 'w rr_call =
  c_args :: "'w rr_args"
  c_pc :: "'w rr_pc"
  c_trace :: "mq_event list"

record 'w rr_sys =
  q_client :: RequestReplyClient
  q_io :: "'w io"
  q_calls :: "'w rr_call list"

text \<open>A step of a call, a call of \<^verbatim>\<open>Close\<close>, or a change of the world by anything else.\<close>

datatype 'w rr_label = Turn nat | Shut | Outside 'w

fun rr_step :: "'w env \<Rightarrow> 'w rr_label \<Rightarrow> 'w rr_sys \<Rightarrow> 'w rr_sys option" where
  "rr_step env (Turn i) s =
     (if i < length (q_calls s)
      then (let call = q_calls s ! i in
            case rr_move env (c_args call) (c_pc call) (q_client s) (q_io s) of
              None \<Rightarrow> None
            | Some (pc, r, io) \<Rightarrow>
                Some (s\<lparr>q_client := r, q_io := io,
                  q_calls := (q_calls s)[i := call\<lparr>c_pc := pc,
                    c_trace := c_trace call @ drop (length (trace (q_io s))) (trace io)\<rparr>]\<rparr>))
      else None)"
| "rr_step env Shut s = Some (s\<lparr>q_client := snd (RequestReplyClient_Close (q_client s))\<rparr>)"
| "rr_step env (Outside w) s = Some (s\<lparr>q_io := (q_io s)\<lparr>world := w\<rparr>\<rparr>)"

definition rr_start :: "RequestReplyClient \<Rightarrow> 'w \<Rightarrow> 'w rr_args list \<Rightarrow> 'w rr_sys" where
  "rr_start r w as =
     \<lparr>q_client = r, q_io = \<lparr>world = w, trace = []\<rparr>,
      q_calls = map (\<lambda>a. \<lparr>c_args = a, c_pc = RPoll, c_trace = []\<rparr>) as\<rparr>"

text \<open>A client nobody has used: as the factory methods make it.\<close>

definition rr_fresh :: "RequestReplyClient \<Rightarrow> bool" where
  "rr_fresh r \<longleftrightarrow> \<not> r_closed r \<and> r_state r = StateUnknown \<and> r_lastErr r = None \<and> open_spans (r_tel r) = {#}"

definition rr_init :: "RequestReplyClient \<Rightarrow> 'w rr_sys \<Rightarrow> bool" where
  "rr_init r s \<longleftrightarrow> rr_fresh r \<and> (\<exists>w as. s = rr_start r w as)"

lemma new_client_fresh: "rr_fresh (new_request_reply cfg q)" "rr_fresh (new_request_reply_fixed cfg q q')"
  by (simp_all add: rr_fresh_def new_request_reply_def new_request_reply_fixed_def)

subsection \<open>A call on its own\<close>

text \<open>An upper bound on the steps that are left.\<close>

fun rr_rank :: "'w rr_pc \<Rightarrow> nat" where
  "rr_rank RPoll = 17"
| "rr_rank RLock = 16"
| "rr_rank RSpan = 15"
| "rr_rank (RDial _ _) = 14"
| "rr_rank (RDialFailed _ _) = 3"
| "rr_rank (RDialNote _ _) = 2"
| "rr_rank (RTemp _ _ _) = 11"
| "rr_rank (RTempCreate _ _ _ _ _) = 10"
| "rr_rank (RRand _ _ _) = 12"
| "rr_rank (RFixedCreate _ _ _ _) = 11"
| "rr_rank (ROpenReply _ _ _) = 10"
| "rr_rank (ROpenReq _ _ _ _) = 9"
| "rr_rank (RPut _ _ _ _ _) = 8"
| "rr_rank (RGet _ _ _ _ _) = 7"
| "rr_rank (RCloseReq _ _ _ _ _) = 6"
| "rr_rank (RCloseReply _ _ _ _) = 5"
| "rr_rank (RNote _ _ _) = 4"
| "rr_rank (RRecord _ _ _) = 3"
| "rr_rank (RDisc _ _ _) = 2"
| "rr_rank (RSpanEnd _ _) = 1"
| "rr_rank (REnd _) = 0"

lemma rr_move_rank: "rr_move env a pc r io = Some (pc', r', io') \<Longrightarrow> rr_rank pc' < rr_rank pc"
  by (cases pc) (auto split: prod.splits sum.splits option.splits outcome.splits if_splits)

lemma rr_move_None: "rr_move env a pc r io = None \<longleftrightarrow> (\<exists>x. pc = REnd x)"
  by (cases pc) (auto split: prod.splits)

text \<open>All remaining steps of a call, one after the other.\<close>

function rr_finish ::
  "'w env \<Rightarrow> 'w rr_args \<Rightarrow> 'w rr_pc \<Rightarrow> RequestReplyClient \<Rightarrow> 'w io \<Rightarrow> rr_result \<times> RequestReplyClient \<times> 'w io" where
  "rr_finish env a pc r io =
     (case rr_move env a pc r io of
        Some (pc', r', io') \<Rightarrow> rr_finish env a pc' r' io'
      | None \<Rightarrow> (case pc of REnd x \<Rightarrow> (x, r, io) | _ \<Rightarrow> (Panics [], r, io)))"
  by pat_completeness auto
termination
  by (relation "measure (\<lambda>(env, a, pc, r, io). rr_rank pc)") (auto dest: rr_move_rank)

declare rr_finish.simps [simp del]

lemma rr_finish_end: "rr_finish env a (REnd x) r io = (x, r, io)"
  by (subst rr_finish.simps) simp

lemma rr_finish_step:
  "rr_move env a pc r io = Some (pc', r', io') \<Longrightarrow> rr_finish env a pc r io = rr_finish env a pc' r' io'"
  by (subst rr_finish.simps) simp

text \<open>The end of a call that has a connection, and the two queues around its exchange.\<close>

definition rr_leave ::
  "'w env \<Rightarrow> span \<Rightarrow> connection \<Rightarrow> RequestReplyClient \<Rightarrow> rr_result \<times> 'w io \<Rightarrow> rr_result \<times> RequestReplyClient \<times> 'w io" where
  "rr_leave env sp c r y =
     (case y of (x, io) \<Rightarrow>
      case conn_Close env c io of (_, _, io1) \<Rightarrow>
      (x, r_on_tel (tel_emit (SpanEnd sp)) (record_outcome x (note_error sp x r)), io1))"

lemma finish_RNote: "rr_finish env a (RNote sp c x) r io = rr_leave env sp c r (x, io)"
  by (simp add: rr_finish_step [OF rr_move.simps(17)] rr_finish_step [OF rr_move.simps(18)]
      rr_finish.simps [of env a "RDisc sp c x"] rr_finish.simps [of env a "RSpanEnd sp x"] rr_finish_end
      rr_leave_def split: prod.splits)

lemma finish_RCloseReply:
  "rr_finish env a (RCloseReply sp c q x) r io = rr_leave env sp c r (x, mq_Close env q io)"
  by (subst rr_finish.simps) (simp add: finish_RNote)

lemma finish_RCloseReq:
  "rr_finish env a (RCloseReq sp c q reqQ x) r io = rr_leave env sp c r (x, mq_Close env q (mq_Close env reqQ io))"
  by (subst rr_finish.simps) (simp add: finish_RCloseReply)

lemma finish_ROpenReq:
  "rr_finish env a (ROpenReq sp c q p) r io =
     rr_leave env sp c r
       (case with_queue env (queueManager c) ((newMQOD env)\<lparr>ObjectName := r_requestQueue r\<rparr>) (output_options env)
               (''commons-mq-go: failed to open request queue '' @ quote (r_requestQueue r))
               (\<lambda>reqQ reqOD io1.
                  case exchange env reqQ q (pl_putMD p) (pl_getMD p) (pl_gmo p) (pl_body p) (pl_putText p) (pl_getText p) io1 of
                    (x, io2) \<Rightarrow> (map_reply (pl_reply p) x, io2)) io of
          (x, io2) \<Rightarrow> (x, mq_Close env q io2))"
  by (subst rr_finish.simps)
    (simp add: finish_RCloseReply finish_RCloseReq with_queue_def exchange_def map_reply_def
      rr_finish.simps [of env a "RPut _ _ _ _ _"] rr_finish.simps [of env a "RGet _ _ _ _ _"]
      split: prod.splits sum.splits)

lemma finish_RTemp:
  "rr_finish env a (RTemp sp c cr) r io =
     rr_leave env sp c r
       (requestReplyViaTempQueue env c (r_requestQueue r) (ModelQueue (r_cfg r)) cr (a_timeout a) io)"
  by (subst rr_finish.simps)
    (simp add: finish_RNote finish_RCloseReply finish_ROpenReq rr_finish.simps [of env a "RTempCreate _ _ _ _ _"]
      requestReplyViaTempQueue_def with_queue_def [of env _ _ "MQOO_INPUT_EXCLUSIVE env OR MQOO_FAIL_IF_QUIESCING env"]
      with_creator_def temp_plan_def Let_def split: prod.splits sum.splits outcome.splits option.splits)

lemma finish_ROpenReply:
  "rr_finish env a (ROpenReply sp c (fixed_plan env c (r_replyQueue r) (r_requestQueue r) (a_timeout a) key msg)) r io =
     rr_leave env sp c r
       (with_queue env (queueManager c) ((newMQOD env)\<lparr>ObjectName := r_replyQueue r\<rparr>)
          (MQOO_INPUT_SHARED env OR MQOO_FAIL_IF_QUIESCING env)
          (''commons-mq-go: failed to open fixed reply queue '' @ quote (r_replyQueue r))
          (\<lambda>replyQ replyOD.
             with_queue env (queueManager c) ((newMQOD env)\<lparr>ObjectName := r_requestQueue r\<rparr>) (output_options env)
               (''commons-mq-go: failed to open request queue '' @ quote (r_requestQueue r))
               (\<lambda>reqQ reqOD io.
                  let md0 = request_descriptor env (config c) (r_replyQueue r) msg;
                      md = md0\<lparr>CorrelId := go_copy (CorrelId md0) key\<rparr>;
                      getMD = (newMQMD env)\<lparr>CorrelId := go_copy (CorrelId (newMQMD env)) key\<rparr>;
                      gmo = (reply_options env (a_timeout a))\<lparr>gmo_MatchOptions := MQMO_MATCH_CORREL_ID env\<rparr> in
                  case exchange env reqQ replyQ md getMD gmo (Body msg)
                         (''commons-mq-go: failed to put request to queue '' @ quote (r_requestQueue r))
                         ''commons-mq-go: failed to receive fixed-queue reply'' io of
                    (r, io') \<Rightarrow> (map_reply (\<lambda>(m, d). messageFromMQMD m d) r, io'))) io)"
  by (subst rr_finish.simps)
    (simp add: finish_RNote finish_ROpenReq
      with_queue_def [of env _ _ "MQOO_INPUT_SHARED env OR MQOO_FAIL_IF_QUIESCING env"]
      fixed_plan_def Let_def split: prod.splits sum.splits)

lemma finish_RRand:
  "rr_finish env a (RRand sp c cr) r io =
     rr_leave env sp c r
       (requestReplyViaFixedQueue env c (r_requestQueue r) (r_replyQueue r) cr (a_timeout a) io)"
  by (subst rr_finish.simps)
    (simp add: finish_RNote finish_ROpenReply rr_finish.simps [of env a "RFixedCreate _ _ _ _"]
      requestReplyViaFixedQueue_def fixed_exchange_def with_creator_def
      split: prod.splits sum.splits outcome.splits option.splits)

text \<open>A call that nothing interrupts is the sequential call.\<close>

lemma rr_finish_call:
  "rr_finish env a RPoll r io = RequestReplyWithCreator env (a_ctx a) (a_creator a) (a_timeout a) r io"
proof -
  have dialled: "rr_finish env a (RDial sp cr) r io =
    (case newConnection env (r_cfg r) io of
       (Inl err, io1) \<Rightarrow> (Returns (Inl err), r_on_tel (tel_emit (SpanEnd sp) \<circ> tel_emit (RecordError sp err))
          (recordState StateFailed (Some err) r), io1)
     | (Inr c, io1) \<Rightarrow> rr_leave env sp c r
         (if r_mode r = FixedQueueSelector
          then requestReplyViaFixedQueue env c (r_requestQueue r) (r_replyQueue r) cr (a_timeout a) io1
          else requestReplyViaTempQueue env c (r_requestQueue r) (ModelQueue (r_cfg r)) cr (a_timeout a) io1))"
    for sp cr r io
    by (subst rr_finish.simps)
      (simp add: finish_RRand finish_RTemp rr_finish_end rr_finish.simps [of env a "RDialFailed _ _"]
        rr_finish.simps [of env a "RDialNote _ _"] rr_finish.simps [of env a "RSpanEnd _ _"] r_on_tel_def
        split: prod.splits sum.splits)
  show ?thesis
    by (subst rr_finish.simps)
      (auto simp: RequestReplyWithCreator_def rr_finish_end dialled rr_finish.simps [of env a RLock]
        rr_finish.simps [of env a RSpan] rr_leave_def record_outcome_def note_error_def recordState_def r_on_tel_def Let_def
        split: prod.splits sum.splits option.splits outcome.splits)
qed

text \<open>From any state, a call that is given \<open>n\<close> turns in a row ends as \<^term>\<open>rr_finish\<close> says.\<close>

definition rr_frame :: "nat \<Rightarrow> 'w rr_sys \<Rightarrow> 'w rr_sys \<Rightarrow> bool" where
  "rr_frame i s t \<longleftrightarrow>
     length (q_calls t) = length (q_calls s) \<and> c_args (q_calls t ! i) = c_args (q_calls s ! i) \<and>
     (\<forall>j. j \<noteq> i \<longrightarrow> q_calls t ! j = q_calls s ! j)"

lemma turn_cases:
  assumes "rr_step env (Turn i) s = Some t"
  obtains pc where "i < length (q_calls s)"
    "rr_move env (c_args (q_calls s ! i)) (c_pc (q_calls s ! i)) (q_client s) (q_io s) = Some (pc, q_client t, q_io t)"
    "q_calls t = (q_calls s)[i := (q_calls s ! i)\<lparr>c_pc := pc,
       c_trace := c_trace (q_calls s ! i) @ drop (length (trace (q_io s))) (trace (q_io t))\<rparr>]"
    "rr_frame i s t"
  using assms by (auto simp: rr_frame_def Let_def split: if_splits option.splits prod.splits)

lemma turns_finish:
  assumes "i < length (q_calls s)"
    and "rr_finish env (c_args (q_calls s ! i)) (c_pc (q_calls s ! i)) (q_client s) (q_io s) = (x, r', io')"
  shows "\<exists>n t. n \<le> rr_rank (c_pc (q_calls s ! i)) \<and> run_steps (rr_step env) (replicate n (Turn i)) s = Some t \<and>
    c_pc (q_calls t ! i) = REnd x \<and> q_client t = r' \<and> q_io t = io' \<and> rr_frame i s t"
  using assms
proof (induction "rr_rank (c_pc (q_calls s ! i))" arbitrary: s rule: less_induct)
  case less
  let ?c = "q_calls s ! i"
  show ?case
  proof (cases "rr_step env (Turn i) s")
    case None
    with less.prems(1) obtain y where "c_pc ?c = REnd y" by (auto simp: Let_def rr_move_None split: option.splits)
    with less.prems(2) have "c_pc ?c = REnd x" "q_client s = r'" "q_io s = io'" by (simp_all add: rr_finish_end)
    then show ?thesis by (intro exI [of _ 0] exI [of _ s]) (simp add: rr_frame_def)
  next
    case (Some u)
    from Some obtain pc where u:
      "rr_move env (c_args ?c) (c_pc ?c) (q_client s) (q_io s) = Some (pc, q_client u, q_io u)"
      "q_calls u = (q_calls s)[i := ?c\<lparr>c_pc := pc,
         c_trace := c_trace ?c @ drop (length (trace (q_io s))) (trace (q_io u))\<rparr>]" "rr_frame i s u" by (rule turn_cases)
    have pc: "c_pc (q_calls u ! i) = pc" "c_args (q_calls u ! i) = c_args ?c" "i < length (q_calls u)"
      using less.prems(1) u(2) by simp_all
    from rr_move_rank [OF u(1)] have small: "rr_rank (c_pc (q_calls u ! i)) < rr_rank (c_pc ?c)" by (simp only: pc)
    have "rr_finish env (c_args (q_calls u ! i)) (c_pc (q_calls u ! i)) (q_client u) (q_io u) = (x, r', io')"
      using less.prems(2) rr_finish_step [OF u(1)] by (simp only: pc)
    from less.hyps [OF small pc(3) this] obtain n t where t: "n \<le> rr_rank pc"
      "run_steps (rr_step env) (replicate n (Turn i)) u = Some t" "c_pc (q_calls t ! i) = REnd x"
      "q_client t = r'" "q_io t = io'" "rr_frame i u t" unfolding pc by blast
    have "run_steps (rr_step env) (replicate (Suc n) (Turn i)) s = Some t"
      using Some t(2) by (simp del: rr_step.simps)
    moreover have "rr_frame i s t" using u(3) t(6) by (simp add: rr_frame_def)
    ultimately show ?thesis
      using t small pc(1) by (intro exI [of _ "Suc n"] exI [of _ t]) simp
  qed
qed

subsection \<open>What the calls hold\<close>

fun pc_handles :: "'w rr_pc \<Rightarrow> handle multiset" where
  "pc_handles (RTempCreate _ _ _ q _) = {#q#}"
| "pc_handles (ROpenReq _ _ q _) = {#q#}"
| "pc_handles (RPut _ _ q reqQ _) = {#reqQ, q#}"
| "pc_handles (RGet _ _ q reqQ _) = {#reqQ, q#}"
| "pc_handles (RCloseReq _ _ q reqQ _) = {#reqQ, q#}"
| "pc_handles (RCloseReply _ _ q _) = {#q#}"
| "pc_handles _ = {#}"

fun pc_conns :: "'w rr_pc \<Rightarrow> handle multiset" where
  "pc_conns (RTemp _ c _) = {#queueManager c#}"
| "pc_conns (RTempCreate _ c _ _ _) = {#queueManager c#}"
| "pc_conns (RRand _ c _) = {#queueManager c#}"
| "pc_conns (RFixedCreate _ c _ _) = {#queueManager c#}"
| "pc_conns (ROpenReply _ c _) = {#queueManager c#}"
| "pc_conns (ROpenReq _ c _ _) = {#queueManager c#}"
| "pc_conns (RPut _ c _ _ _) = {#queueManager c#}"
| "pc_conns (RGet _ c _ _ _) = {#queueManager c#}"
| "pc_conns (RCloseReq _ c _ _ _) = {#queueManager c#}"
| "pc_conns (RCloseReply _ c _ _) = {#queueManager c#}"
| "pc_conns (RNote _ c _) = {#queueManager c#}"
| "pc_conns (RRecord _ c _) = {#queueManager c#}"
| "pc_conns (RDisc _ c _) = {#queueManager c#}"
| "pc_conns _ = {#}"

fun pc_spans :: "'w rr_pc \<Rightarrow> span multiset" where
  "pc_spans RPoll = {#}"
| "pc_spans RLock = {#}"
| "pc_spans RSpan = {#}"
| "pc_spans (RDial sp _) = {#sp#}"
| "pc_spans (RDialFailed sp _) = {#sp#}"
| "pc_spans (RDialNote sp _) = {#sp#}"
| "pc_spans (RTemp sp _ _) = {#sp#}"
| "pc_spans (RTempCreate sp _ _ _ _) = {#sp#}"
| "pc_spans (RRand sp _ _) = {#sp#}"
| "pc_spans (RFixedCreate sp _ _ _) = {#sp#}"
| "pc_spans (ROpenReply sp _ _) = {#sp#}"
| "pc_spans (ROpenReq sp _ _ _) = {#sp#}"
| "pc_spans (RPut sp _ _ _ _) = {#sp#}"
| "pc_spans (RGet sp _ _ _ _) = {#sp#}"
| "pc_spans (RCloseReq sp _ _ _ _) = {#sp#}"
| "pc_spans (RCloseReply sp _ _ _) = {#sp#}"
| "pc_spans (RNote sp _ _) = {#sp#}"
| "pc_spans (RRecord sp _ _) = {#sp#}"
| "pc_spans (RDisc sp _ _) = {#sp#}"
| "pc_spans (RSpanEnd sp _) = {#sp#}"
| "pc_spans (REnd _) = {#}"

text \<open>The connections a trace opened and has not closed.\<close>

definition live_conns :: "mq_event list \<Rightarrow> handle multiset" where
  "live_conns evs = foldl live_step {#} evs"

lemma live_conns_append [simp]: "live_conns (xs @ ys) = foldl live_step (live_conns xs) ys"
  by (simp add: live_conns_def)

lemma live_conns_Nil [simp]: "live_conns [] = {#}"
  by (simp add: live_conns_def)

lemma newConnection_event:
  assumes "newConnection env cfg io = (x, io')"
  shows "\<exists>y. trace io' = trace io @ [EConnx (QueueManagerName cfg) (dial_options env cfg) y] \<and>
    (case x of Inl _ \<Rightarrow> isl y | Inr c \<Rightarrow> y = Inr (queueManager c) \<and> config c = cfg)"
  using assms
  by (auto simp: newConnection_def dial_def mq_Connx_def fresh_connection_def Let_def setLastError_def conn_setState_def
      split: prod.splits sum.splits)

lemma run_creator_trace: "run_creator cr msg io = (x, io') \<Longrightarrow> trace io' = trace io"
  by (auto simp: run_creator_def split: option.splits prod.splits)

lemma rand_Read_trace: "rand_Read env n io = (x, io') \<Longrightarrow> trace io' = trace io"
  by (auto simp: rand_Read_def split: prod.splits sum.splits)

lemma isl_step [simp]: "isl y \<Longrightarrow> live_step m (EConnx n o' y) = m"
  by (cases y) simp_all

lemma connx_handle [simp]: "handle_step m (EConnx n o' y) = m"
  by simp

text \<open>One step of a call: what it acquires and gives back.\<close>

lemma move_trace:
  assumes "rr_move env a pc r io = Some (pc', r', io')"
  shows "\<exists>seg. trace io' = trace io @ seg"
  using assms
  by (cases pc)
    (auto simp: mq_Open_def mq_Put_def mq_Get_def mq_Close_def
      dest: run_creator_trace rand_Read_trace ctx_Err_counts conn_Close_trace newConnection_event
      split: prod.splits sum.splits option.splits outcome.splits if_splits)

lemma move_handles:
  assumes "rr_move env a pc r io = Some (pc', r', io')" and "pc_handles pc \<subseteq># open_handles (trace io)"
  shows "open_handles (trace io') + pc_handles pc = open_handles (trace io) + pc_handles pc'"
  using assms
  by (cases pc)
    (auto simp: mq_Open_def mq_Put_def mq_Get_def mq_Close_def insert_subset_eq_iff
      dest!: run_creator_trace rand_Read_trace ctx_Err_counts conn_Close_trace newConnection_event
      split: prod.splits sum.splits option.splits outcome.splits if_splits)

lemma move_conns:
  assumes "rr_move env a pc r io = Some (pc', r', io')" and "pc_conns pc \<subseteq># live_conns (trace io)"
  shows "live_conns (trace io') + pc_conns pc = live_conns (trace io) + pc_conns pc'"
  using assms
  by (cases pc)
    (auto simp: mq_Open_def mq_Put_def mq_Get_def mq_Close_def
      dest!: run_creator_trace rand_Read_trace ctx_Err_counts conn_Close_trace newConnection_event
      split: prod.splits sum.splits option.splits outcome.splits if_splits)

lemma client_updates [simp]:
  "r_tel (recordState st e r) = r_tel r" "r_tel (record_outcome x r) = r_tel r"
  "open_spans (r_tel (note_error sp x r)) = open_spans (r_tel r)"
  "r_closed (recordState st e r) = r_closed r" "r_closed (record_outcome x r) = r_closed r"
  "r_closed (note_error sp x r) = r_closed r"
  by (auto simp: recordState_def record_outcome_def note_error_def r_on_tel_def split: outcome.splits sum.splits)

lemma move_spans:
  assumes "rr_move env a pc r io = Some (pc', r', io')" and "pc_spans pc \<subseteq># open_spans (r_tel r)"
  shows "open_spans (r_tel r') + pc_spans pc = open_spans (r_tel r) + pc_spans pc'"
  using assms
  by (cases pc)
    (auto simp: r_on_tel_def dest!: startSpan_spec(3)
      split: prod.splits sum.splits option.splits outcome.splits if_splits)

text \<open>The state and its error are written together.\<close>

definition state_ok :: "RequestReplyClient \<Rightarrow> bool" where
  "state_ok r \<longleftrightarrow>
     (r_state r = StateFailed \<and> r_lastErr r \<noteq> None) \<or> (r_state r \<in> {StateUnknown, StateConnected} \<and> r_lastErr r = None)"

definition same_client :: "RequestReplyClient \<Rightarrow> RequestReplyClient \<Rightarrow> bool" where
  "same_client r0 r \<longleftrightarrow> r_cfg r = r_cfg r0 \<and> r_requestQueue r = r_requestQueue r0 \<and>
     r_replyQueue r = r_replyQueue r0 \<and> r_mode r = r_mode r0"

lemma move_client:
  assumes "rr_move env a pc r io = Some (pc', r', io')"
  shows "r_closed r' = r_closed r" "state_ok r \<Longrightarrow> state_ok r'" "same_client r0 r \<Longrightarrow> same_client r0 r'"
  using assms
  by (cases pc; auto simp: state_ok_def same_client_def r_on_tel_def recordState_def record_outcome_def note_error_def
      split: prod.splits sum.splits option.splits outcome.splits if_splits)+

subsection \<open>What a call has done\<close>

definition connx_event :: "'w env \<Rightarrow> RequestReplyClient \<Rightarrow> handle \<Rightarrow> mq_event" where
  "connx_event env r h = EConnx (QueueManagerName (r_cfg r)) (dial_options env (r_cfg r)) (Inr h)"

text \<open>The queue \<open>q\<close> a call opened for its reply, and the \<open>name\<close> it tells the replier.\<close>

definition reply_queue ::
  "'w env \<Rightarrow> RequestReplyClient \<Rightarrow> handle \<Rightarrow> handle \<Rightarrow> mq_event \<Rightarrow> string \<Rightarrow> bool" where
  "reply_queue env r h q ev name \<longleftrightarrow>
     (if r_mode r = FixedQueueSelector
      then ev = EOpen h (r_replyQueue r) (MQOO_INPUT_SHARED env OR MQOO_FAIL_IF_QUIESCING env) (Inr q) \<and>
        name = r_replyQueue r
      else ev = EOpen h (ModelQueue (r_cfg r)) (MQOO_INPUT_EXCLUSIVE env OR MQOO_FAIL_IF_QUIESCING env) (Inr q) \<and>
        (\<exists>w od. fst (OpenQ env h ((newMQOD env)\<lparr>ObjectName := ModelQueue (r_cfg r), DynamicQName := ''AMQ.*''\<rparr>)
           (MQOO_INPUT_EXCLUSIVE env OR MQOO_FAIL_IF_QUIESCING env) w) = Inr (q, od) \<and> name = ObjectName od))"

definition plan_ok :: "'w env \<Rightarrow> RequestReplyClient \<Rightarrow> duration \<Rightarrow> plan \<Rightarrow> bool" where
  "plan_ok env r timeout p \<longleftrightarrow>
     gmo_WaitInterval (pl_gmo p) = waitMS timeout \<and>
     (if r_mode r = FixedQueueSelector
      then gmo_MatchOptions (pl_gmo p) = MQMO_MATCH_CORREL_ID env \<and> CorrelId (pl_getMD p) = CorrelId (pl_putMD p) \<and>
        pl_reply p = (\<lambda>(md, data). messageFromMQMD md data)
      else pl_reply p = temp_reply)"

definition request_events ::
  "'w env \<Rightarrow> RequestReplyClient \<Rightarrow> handle \<Rightarrow> mq_event \<Rightarrow> handle \<Rightarrow> plan \<Rightarrow> mq_event list" where
  "request_events env r h ev reqQ p =
     [connx_event env r h, ev, EOpen h (r_requestQueue r) (output_options env) (Inr reqQ),
      EPut reqQ (pl_putMD p) (put_options env) (pl_body p) None]"

text \<open>A call that got its reply, up to that point.\<close>

definition served ::
  "'w env \<Rightarrow> RequestReplyClient \<Rightarrow> duration \<Rightarrow> handle \<Rightarrow> handle \<Rightarrow> handle \<Rightarrow> Message \<Rightarrow> mq_event list \<Rightarrow> bool" where
  "served env r timeout h q reqQ reply tr \<longleftrightarrow>
     (\<exists>ev p md data. tr = request_events env r h ev reqQ p @ [EGet q (pl_getMD p) (pl_gmo p) (Inr (md, data))] \<and>
        reply_queue env r h q ev (ReplyToQ (pl_putMD p)) \<and> plan_ok env r timeout p \<and> reply = pl_reply p (md, data) \<and>
        (\<exists>n w. fst (GetSliceQ env q (pl_getMD p) (pl_gmo p) n w) = Inr (md, data)))"

text \<open>And when it has closed its queues, and when it has disconnected.\<close>

definition own_closed :: "'w env \<Rightarrow> RequestReplyClient \<Rightarrow> duration \<Rightarrow> handle \<Rightarrow> rr_result \<Rightarrow> mq_event list \<Rightarrow> bool" where
  "own_closed env r timeout h x tr \<longleftrightarrow>
     (\<forall>reply. x = Returns (Inr reply) \<longrightarrow>
        (\<exists>q reqQ seg. tr = seg @ [EClose reqQ, EClose q] \<and> served env r timeout h q reqQ reply seg))"

definition own_left :: "'w env \<Rightarrow> RequestReplyClient \<Rightarrow> duration \<Rightarrow> rr_result \<Rightarrow> mq_event list \<Rightarrow> bool" where
  "own_left env r timeout x tr \<longleftrightarrow>
     (\<forall>reply. x = Returns (Inr reply) \<longrightarrow>
        (\<exists>h q reqQ seg. tr = seg @ [EClose reqQ, EClose q, EDisc h] \<and> served env r timeout h q reqQ reply seg))"

fun own_ok :: "'w env \<Rightarrow> RequestReplyClient \<Rightarrow> duration \<Rightarrow> 'w rr_pc \<Rightarrow> mq_event list \<Rightarrow> bool" where
  "own_ok env r timeout (RDialFailed sp e) tr \<longleftrightarrow> True"
| "own_ok env r timeout (RDialNote sp e) tr \<longleftrightarrow> True"
| "own_ok env r timeout (RTemp sp c cr) tr \<longleftrightarrow>
     r_mode r \<noteq> FixedQueueSelector \<and> tr = [connx_event env r (queueManager c)]"
| "own_ok env r timeout (RTempCreate sp c cr q name) tr \<longleftrightarrow>
     r_mode r \<noteq> FixedQueueSelector \<and>
     (\<exists>ev. tr = [connx_event env r (queueManager c), ev] \<and> reply_queue env r (queueManager c) q ev name)"
| "own_ok env r timeout (RRand sp c cr) tr \<longleftrightarrow>
     r_mode r = FixedQueueSelector \<and> tr = [connx_event env r (queueManager c)]"
| "own_ok env r timeout (RFixedCreate sp c cr bs) tr \<longleftrightarrow>
     r_mode r = FixedQueueSelector \<and> tr = [connx_event env r (queueManager c)]"
| "own_ok env r timeout (ROpenReply sp c p) tr \<longleftrightarrow>
     r_mode r = FixedQueueSelector \<and> tr = [connx_event env r (queueManager c)] \<and> plan_ok env r timeout p \<and>
     ReplyToQ (pl_putMD p) = r_replyQueue r"
| "own_ok env r timeout (ROpenReq sp c q p) tr \<longleftrightarrow>
     plan_ok env r timeout p \<and>
     (\<exists>ev. tr = [connx_event env r (queueManager c), ev] \<and>
        reply_queue env r (queueManager c) q ev (ReplyToQ (pl_putMD p)))"
| "own_ok env r timeout (RPut sp c q reqQ p) tr \<longleftrightarrow>
     plan_ok env r timeout p \<and>
     (\<exists>ev. tr @ [EPut reqQ (pl_putMD p) (put_options env) (pl_body p) None] =
          request_events env r (queueManager c) ev reqQ p \<and>
        reply_queue env r (queueManager c) q ev (ReplyToQ (pl_putMD p)))"
| "own_ok env r timeout (RGet sp c q reqQ p) tr \<longleftrightarrow>
     plan_ok env r timeout p \<and>
     (\<exists>ev. tr = request_events env r (queueManager c) ev reqQ p \<and>
        reply_queue env r (queueManager c) q ev (ReplyToQ (pl_putMD p)))"
| "own_ok env r timeout (RCloseReq sp c q reqQ x) tr \<longleftrightarrow>
     (\<forall>reply. x = Returns (Inr reply) \<longrightarrow> served env r timeout (queueManager c) q reqQ reply tr)"
| "own_ok env r timeout (RCloseReply sp c q x) tr \<longleftrightarrow>
     (\<forall>reply. x = Returns (Inr reply) \<longrightarrow>
        (\<exists>reqQ seg. tr = seg @ [EClose reqQ] \<and> served env r timeout (queueManager c) q reqQ reply seg))"
| "own_ok env r timeout (RNote sp c x) tr \<longleftrightarrow> own_closed env r timeout (queueManager c) x tr"
| "own_ok env r timeout (RRecord sp c x) tr \<longleftrightarrow> own_closed env r timeout (queueManager c) x tr"
| "own_ok env r timeout (RDisc sp c x) tr \<longleftrightarrow> own_closed env r timeout (queueManager c) x tr"
| "own_ok env r timeout (RSpanEnd sp x) tr \<longleftrightarrow> own_left env r timeout x tr"
| "own_ok env r timeout (REnd x) tr \<longleftrightarrow> own_left env r timeout x tr"
| "own_ok env r timeout pc tr \<longleftrightarrow> tr = []"

lemma temp_plan_ok:
  assumes "r_mode r \<noteq> FixedQueueSelector"
  shows "plan_ok env r timeout (temp_plan env c name q timeout msg)" "ReplyToQ (pl_putMD (temp_plan env c name q timeout msg)) = name"
  using assms by (simp_all add: plan_ok_def temp_plan_def reply_options_def request_descriptor_def Let_def)

lemma fixed_plan_ok:
  assumes "r_mode r = FixedQueueSelector"
  shows "plan_ok env r timeout (fixed_plan env c name q timeout key msg)"
    "ReplyToQ (pl_putMD (fixed_plan env c name q timeout key msg)) = name"
  using assms by (simp_all add: plan_ok_def fixed_plan_def reply_options_def request_descriptor_def Let_def)

lemma servedI:
  assumes "plan_ok env r timeout p" and "reply_queue env r h q ev (ReplyToQ (pl_putMD p))"
    and "GetSliceQ env q (pl_getMD p) (pl_gmo p) n w = (Inr x, w')"
  shows "served env r timeout h q reqQ (pl_reply p x)
    (request_events env r h ev reqQ p @ [EGet q (pl_getMD p) (pl_gmo p) (Inr x)])"
proof (cases x)
  case (Pair md data)
  with assms(3) have "\<exists>n w. fst (GetSliceQ env q (pl_getMD p) (pl_gmo p) n w) = Inr (md, data)" by (metis fst_conv)
  with assms(1,2) Pair show ?thesis unfolding served_def by blast
qed

lemma move_own:
  assumes "rr_move env a pc r io = Some (pc', r', io')" and "trace io' = trace io @ seg"
    and "own_ok env r0 (a_timeout a) pc tr" and "same_client r0 r"
  shows "own_ok env r0 (a_timeout a) pc' (tr @ seg)"
proof (cases pc)
  case (RDial sp cr)
  obtain x io1 where "newConnection env (r_cfg r) io = (x, io1)" by (cases "newConnection env (r_cfg r) io")
  with assms RDial newConnection_event [OF this] show ?thesis
    by (cases x) (auto simp: same_client_def connx_event_def)
next
  case (RTemp sp c cr)
  with assms show ?thesis
    by (auto simp: mq_Open_def same_client_def reply_queue_def own_closed_def split: prod.splits sum.splits
        intro!: exI [of _ "world io"])
next
  case (RTempCreate sp c cr q name)
  with assms show ?thesis
    by (auto simp: same_client_def temp_plan_ok dest!: run_creator_trace split: prod.splits option.splits outcome.splits)
next
  case (RRand sp c cr)
  with assms show ?thesis
    by (auto simp: own_closed_def dest!: rand_Read_trace split: prod.splits sum.splits)
next
  case (RFixedCreate sp c cr bs)
  with assms show ?thesis
    by (auto simp: own_closed_def same_client_def fixed_plan_ok dest!: run_creator_trace
        split: prod.splits option.splits outcome.splits)
next
  case (ROpenReply sp c p)
  with assms show ?thesis
    by (auto simp: mq_Open_def same_client_def reply_queue_def own_closed_def split: prod.splits sum.splits)
next
  case (RGet sp c q reqQ p)
  with assms show ?thesis
    by (auto simp: mq_Get_def split: prod.splits sum.splits intro: servedI)
next
  case (RDisc sp c x)
  with assms show ?thesis
    by (fastforce simp: own_closed_def own_left_def dest!: conn_Close_trace split: prod.splits)
qed (use assms in \<open>auto simp: mq_Open_def mq_Put_def mq_Close_def same_client_def own_closed_def own_left_def
       request_events_def dest!: ctx_Err_counts split: prod.splits sum.splits option.splits if_splits\<close>)

subsection \<open>The invariant\<close>

definition call_sum :: "('w rr_pc \<Rightarrow> 'a multiset) \<Rightarrow> 'w rr_sys \<Rightarrow> 'a multiset" where
  "call_sum f s = sum_list (map (\<lambda>call. f (c_pc call)) (q_calls s))"

definition holds_ok :: "'w rr_sys \<Rightarrow> bool" where
  "holds_ok s \<longleftrightarrow>
     open_handles (trace (q_io s)) = call_sum pc_handles s \<and>
     live_conns (trace (q_io s)) = call_sum pc_conns s \<and>
     open_spans (r_tel (q_client s)) = call_sum pc_spans s"

definition calls_ok :: "'w env \<Rightarrow> RequestReplyClient \<Rightarrow> 'w rr_sys \<Rightarrow> bool" where
  "calls_ok env r s \<longleftrightarrow>
     (\<forall>call \<in> set (q_calls s). own_ok env r (a_timeout (c_args call)) (c_pc call) (c_trace call) \<and>
        subseq (c_trace call) (trace (q_io s)))"

definition rr_inv :: "'w env \<Rightarrow> RequestReplyClient \<Rightarrow> 'w rr_sys \<Rightarrow> bool" where
  "rr_inv env r s \<longleftrightarrow> holds_ok s \<and> state_ok (q_client s) \<and> same_client r (q_client s) \<and> calls_ok env r s"

lemma call_sum_part:
  fixes s :: "'w rr_sys" and f :: "'w rr_pc \<Rightarrow> 'a multiset"
  assumes "i < length (q_calls s)"
  shows "f (c_pc (q_calls s ! i)) \<subseteq># call_sum f s"
proof -
  have "c \<in> set cs \<Longrightarrow> f (c_pc c) \<subseteq># sum_list (map (\<lambda>call. f (c_pc call)) cs)" for c and cs :: "'w rr_call list"
    by (induction cs) (auto intro: subset_mset.add_increasing subset_mset.add_increasing2)
  then show ?thesis using assms by (simp add: call_sum_def)
qed

lemma call_sum_move:
  assumes "i < length (q_calls s)" and "q_calls t = (q_calls s)[i := (q_calls s ! i)\<lparr>c_pc := pc, c_trace := tr\<rparr>]"
    and "m' + f (c_pc (q_calls s ! i)) = m + f pc" and "m = call_sum f s"
  shows "m' = call_sum f t"
proof -
  have "call_sum f t + f (c_pc (q_calls s ! i)) = call_sum f s + f pc"
    using sum_list_map_update [OF assms(1), of "\<lambda>call. f (c_pc call)" "(q_calls s ! i)\<lparr>c_pc := pc, c_trace := tr\<rparr>"]
    by (simp add: call_sum_def assms(2))
  with assms(3,4) show ?thesis by (metis add_right_imp_eq)
qed

lemma holds_turn:
  assumes "rr_step env (Turn i) s = Some t" and "holds_ok s"
  shows "holds_ok t"
  using assms(1)
proof (rule turn_cases)
  fix pc
  let ?c = "q_calls s ! i"
  assume i: "i < length (q_calls s)"
    and move: "rr_move env (c_args ?c) (c_pc ?c) (q_client s) (q_io s) = Some (pc, q_client t, q_io t)"
    and t: "q_calls t = (q_calls s)[i := ?c\<lparr>c_pc := pc, c_trace := c_trace ?c @ drop (length (trace (q_io s))) (trace (q_io t))\<rparr>]"
  have "pc_handles (c_pc ?c) \<subseteq># open_handles (trace (q_io s))" "pc_conns (c_pc ?c) \<subseteq># live_conns (trace (q_io s))"
    "pc_spans (c_pc ?c) \<subseteq># open_spans (r_tel (q_client s))"
    using assms(2) call_sum_part [OF i] by (simp_all add: holds_ok_def)
  note steps = move_handles [OF move this(1)] move_conns [OF move this(2)] move_spans [OF move this(3)]
  with assms(2) show ?thesis unfolding holds_ok_def by (blast intro: call_sum_move [OF i t])
qed

lemma calls_turn:
  assumes "rr_step env (Turn i) s = Some t" and "same_client r (q_client s)" and "calls_ok env r s"
  shows "calls_ok env r t"
  using assms(1)
proof (rule turn_cases)
  fix pc
  let ?c = "q_calls s ! i"
  assume i: "i < length (q_calls s)"
    and move: "rr_move env (c_args ?c) (c_pc ?c) (q_client s) (q_io s) = Some (pc, q_client t, q_io t)"
    and t: "q_calls t = (q_calls s)[i := ?c\<lparr>c_pc := pc, c_trace := c_trace ?c @ drop (length (trace (q_io s))) (trace (q_io t))\<rparr>]"
  from move_trace [OF move] obtain seg where seg: "trace (q_io t) = trace (q_io s) @ seg" by blast
  from i have c: "?c \<in> set (q_calls s)" by simp
  with assms(3) have old: "own_ok env r (a_timeout (c_args ?c)) (c_pc ?c) (c_trace ?c)" "subseq (c_trace ?c) (trace (q_io s))"
    by (simp_all add: calls_ok_def)
  have "own_ok env r (a_timeout (c_args ?c)) pc (c_trace ?c @ seg)"
    by (rule move_own [OF move seg old(1) assms(2)])
  moreover have "subseq (c_trace ?c @ seg) (trace (q_io s) @ seg)" using old(2) by simp
  moreover have "subseq (c_trace call) (trace (q_io s) @ seg)" if "call \<in> set (q_calls s)" for call
    using that assms(3) by (auto simp: calls_ok_def intro: subseq_order.order_trans)
  ultimately show ?thesis
    using assms(3) unfolding calls_ok_def t seg
    by (auto simp: calls_ok_def dest!: set_update_subset_insert [THEN subsetD])
qed

lemma rr_inv_step:
  assumes "rr_inv env r s" and "rr_step env l s = Some t"
  shows "rr_inv env r t"
proof (cases l)
  case (Turn i)
  with assms have turn: "rr_step env (Turn i) s = Some t" by simp
  then obtain pc where "rr_move env (c_args (q_calls s ! i)) (c_pc (q_calls s ! i)) (q_client s) (q_io s) =
      Some (pc, q_client t, q_io t)" by (rule turn_cases)
  with assms(1) holds_turn [OF turn] calls_turn [OF turn] show ?thesis
    unfolding rr_inv_def by (blast dest: move_client)
next
  case Shut
  with assms show ?thesis
    by (auto simp: rr_inv_def holds_ok_def calls_ok_def call_sum_def state_ok_def same_client_def RequestReplyClient_Close_def)
next
  case (Outside w)
  with assms show ?thesis by (auto simp: rr_inv_def holds_ok_def calls_ok_def call_sum_def)
qed

lemma rr_start_simps [simp]:
  "q_client (rr_start r w as) = r" "trace (q_io (rr_start r w as)) = []"
  "q_calls (rr_start r w as) = map (\<lambda>a. \<lparr>c_args = a, c_pc = RPoll, c_trace = []\<rparr>) as"
  by (simp_all add: rr_start_def)

lemma call_sum_start: "f RPoll = {#} \<Longrightarrow> call_sum f (rr_start r w as) = {#}"
  unfolding call_sum_def by (rule sum_list_map_zero) auto

lemma rr_inv_start:
  assumes "rr_init r s"
  shows "rr_inv env r s"
proof -
  from assms obtain w as where s: "s = rr_start r w as" and r: "rr_fresh r" by (auto simp: rr_init_def)
  from r show ?thesis
    by (simp add: rr_inv_def holds_ok_def calls_ok_def state_ok_def same_client_def rr_fresh_def s call_sum_start open_handles_def)
qed

interpretation rr: invariant_system "rr_step env" "rr_init r" "rr_inv env r" for env r
  by unfold_locales (auto intro: rr_inv_start rr_inv_step)

subsection \<open>Correctness of concurrent calls\<close>

text \<open>A call that has not begun or has ended.\<close>

definition at_rest :: "'w rr_call \<Rightarrow> bool" where
  "at_rest call \<longleftrightarrow> c_pc call = RPoll \<or> (\<exists>x. c_pc call = REnd x)"

text \<open>
  C7: concurrent calls share a client without leaks. In every state that any number of calls of
  \<^verbatim>\<open>RequestReplyWithCreator\<close>, in either mode and with any \<^verbatim>\<open>Close\<close> in between, can reach, the open
  connections, queue handles and spans are exactly those of the calls in progress, each
  counted once; when no call is in progress nothing is open, whichever errors or panics ended
  the calls. The state and the last error that health reports always belong together.
\<close>

theorem rr_calls_hold:
  assumes "reachable (rr_step env) (rr_init r) s"
  shows "live_conns (trace (q_io s)) = call_sum pc_conns s \<and>
    open_handles (trace (q_io s)) = call_sum pc_handles s \<and>
    open_spans (r_tel (q_client s)) = call_sum pc_spans s \<and>
    (r_state (q_client s) = StateFailed \<longleftrightarrow> r_lastErr (q_client s) \<noteq> None) \<and>
    ((\<forall>call \<in> set (q_calls s). at_rest call) \<longrightarrow>
       live_conns (trace (q_io s)) = {#} \<and> open_handles (trace (q_io s)) = {#} \<and> open_spans (r_tel (q_client s)) = {#})"
proof -
  from rr.inv_reachable [OF assms] have inv: "holds_ok s" "state_ok (q_client s)" by (simp_all add: rr_inv_def)
  have "call_sum pc_conns s = {#}" "call_sum pc_handles s = {#}" "call_sum pc_spans s = {#}"
    if "\<forall>call \<in> set (q_calls s). at_rest call"
    using that unfolding call_sum_def by (intro sum_list_map_zero; auto simp: at_rest_def)+
  with inv show ?thesis by (auto simp: holds_ok_def state_ok_def)
qed

text \<open>
  C6: concurrent callers get their own replies. If a GET with \<^verbatim>\<open>MQMO_MATCH_CORREL_ID\<close> returns
  only messages with the correlation id asked for, unless that is \<^verbatim>\<open>MQCI_NONE\<close> (24 zero bytes,
  which IBM MQ matches with every message), then whatever else uses the client at the
  same time, a call that returned a reply has itself made exactly these calls, in this order:
  connect, open its reply queue and the request queue on that connection, put, get on that
  reply queue with the wait interval of its own timeout, close both, disconnect. The put named
  its reply queue as the reply-to queue. On a shared reply queue the reply is the message got
  and carries the correlation id of the call's own put unless that is \<^verbatim>\<open>MQCI_NONE\<close>, an id the
  code does not refuse: a creator's \<^verbatim>\<open>00\<close> becomes it. On a temporary queue its body is what
  was got.
\<close>

theorem rr_own_reply:
  assumes "reachable (rr_step env) (rr_init r) s" and "matches_correl_id env"
    and "call \<in> set (q_calls s)" and "c_pc call = REnd (Returns (Inr reply))"
  shows "\<exists>h q reqQ ev putMD getMD gmo body md data.
    c_trace call = [EConnx (QueueManagerName (r_cfg r)) (dial_options env (r_cfg r)) (Inr h), ev,
      EOpen h (r_requestQueue r) (output_options env) (Inr reqQ), EPut reqQ putMD (put_options env) body None,
      EGet q getMD gmo (Inr (md, data)), EClose reqQ, EClose q, EDisc h] \<and>
    subseq (c_trace call) (trace (q_io s)) \<and> gmo_WaitInterval gmo = waitMS (a_timeout (c_args call)) \<and>
    reply_queue env r h q ev (ReplyToQ putMD) \<and>
    (if r_mode r = FixedQueueSelector
     then reply = messageFromMQMD md data \<and>
       (CorrelId putMD \<noteq> MQCI_NONE \<longrightarrow> CorrelationID reply = EncodeToString (CorrelId putMD)) \<and>
       routing_key random ''00'' = Some MQCI_NONE
     else reply = temp_reply (md, data) \<and> Body reply = data)"
proof -
  from rr.inv_reachable [OF assms(1)] assms(3,4)
  have own: "own_left env r (a_timeout (c_args call)) (Returns (Inr reply)) (c_trace call)"
    and sub: "subseq (c_trace call) (trace (q_io s))"
    by (auto simp: rr_inv_def calls_ok_def)
  from own obtain h q reqQ seg where tr: "c_trace call = seg @ [EClose reqQ, EClose q, EDisc h]"
    and "served env r (a_timeout (c_args call)) h q reqQ reply seg"
    by (auto simp: own_left_def)
  then obtain ev p md data where seg: "seg = request_events env r h ev reqQ p @ [EGet q (pl_getMD p) (pl_gmo p) (Inr (md, data))]"
    and rq: "reply_queue env r h q ev (ReplyToQ (pl_putMD p))" and p: "plan_ok env r (a_timeout (c_args call)) p"
    and reply: "reply = pl_reply p (md, data)"
    and got: "\<exists>n w. fst (GetSliceQ env q (pl_getMD p) (pl_gmo p) n w) = Inr (md, data)"
    unfolding served_def by blast
  have key: "CorrelId md = CorrelId (pl_putMD p)"
    if "r_mode r = FixedQueueSelector" and none: "CorrelId (pl_putMD p) \<noteq> MQCI_NONE"
  proof -
    from that(1) p have "gmo_MatchOptions (pl_gmo p) = MQMO_MATCH_CORREL_ID env" "CorrelId (pl_getMD p) = CorrelId (pl_putMD p)"
      by (simp_all add: plan_ok_def)
    with got none assms(2) show ?thesis unfolding matches_correl_id_def by metis
  qed
  from p reply key have "gmo_WaitInterval (pl_gmo p) = waitMS (a_timeout (c_args call))"
    "if r_mode r = FixedQueueSelector
     then reply = messageFromMQMD md data \<and>
       (CorrelId (pl_putMD p) \<noteq> MQCI_NONE \<longrightarrow> CorrelationID reply = EncodeToString (CorrelId (pl_putMD p))) \<and>
       routing_key random ''00'' = Some MQCI_NONE
     else reply = temp_reply (md, data) \<and> Body reply = data"
    by (auto simp: plan_ok_def temp_reply_def go_copy_full zero_routing_key split: if_splits)
  then show ?thesis
    using tr seg rq sub by (auto simp: request_events_def connx_event_def)
qed

text \<open>The calls that a closed client has not admitted, and what becomes of them.\<close>

definition shut_out :: "'w rr_call \<Rightarrow> bool" where
  "shut_out call \<longleftrightarrow> c_trace call = [] \<and> (c_pc call \<in> {RPoll, RLock} \<or> (\<exists>err. c_pc call = REnd (Returns (Inl err))))"

lemma shut_out_step:
  assumes "rr_step env l s = Some t" and "r_closed (q_client s)" and "shut_out (q_calls s ! i)"
  shows "r_closed (q_client t) \<and> shut_out (q_calls t ! i)"
proof (cases l)
  case (Turn j)
  with assms(1) have turn: "rr_step env (Turn j) s = Some t" by simp
  then obtain pc where j: "j < length (q_calls s)"
    and move: "rr_move env (c_args (q_calls s ! j)) (c_pc (q_calls s ! j)) (q_client s) (q_io s) = Some (pc, q_client t, q_io t)"
    and t: "q_calls t = (q_calls s)[j := (q_calls s ! j)\<lparr>c_pc := pc,
       c_trace := c_trace (q_calls s ! j) @ drop (length (trace (q_io s))) (trace (q_io t))\<rparr>]" by (rule turn_cases)
  have "shut_out (q_calls t ! i)"
    using assms(2,3) move t j
    by (cases "i = j") (auto simp: shut_out_def dest!: ctx_Err_counts split: prod.splits option.splits if_splits)
  with move_client(1) [OF move] assms(2) show ?thesis by simp
next
  case Shut
  with assms show ?thesis by (auto simp: RequestReplyClient_Close_def)
next
  case (Outside w)
  with assms show ?thesis by auto
qed

lemma shut_out_run:
  assumes "run_steps (rr_step env) ls s = Some t" and "r_closed (q_client s)" and "shut_out (q_calls s ! i)"
  shows "r_closed (q_client t) \<and> shut_out (q_calls t ! i)"
  using assms
proof (induction ls arbitrary: s)
  case (Cons l ls)
  then obtain u where "rr_step env l s = Some u" "run_steps (rr_step env) ls u = Some t"
    by (auto simp del: rr_step.simps split: option.splits)
  with Cons.IH [of u] Cons.prems(2,3) shut_out_step [of env l s u i] show ?case by blast
qed simp

lemma calls_kept: "run_steps (rr_step env) ls s = Some t \<Longrightarrow> length (q_calls t) = length (q_calls s)"
proof (induction ls arbitrary: s)
  case (Cons l ls)
  then obtain u where u: "rr_step env l s = Some u" "run_steps (rr_step env) ls u = Some t"
    by (auto simp del: rr_step.simps split: option.splits)
  then have "length (q_calls u) = length (q_calls s)"
    by (cases l) (auto simp: Let_def split: if_splits option.splits)
  with Cons.IH [OF u(2)] show ?case by simp
qed simp

definition demo_args :: "script rr_args" where
  "demo_args = \<lparr>a_ctx = 0, a_creator = None, a_timeout = second\<rparr>"

definition rr_demo :: "script rr_sys" where
  "rr_demo = rr_start (new_request_reply demo_config ''Q.REQ'') quiet_script [demo_args, demo_args]"

lemmas rr_demo_defs = rr_demo_def demo_args_def rr_start_def new_request_reply_def quiet_script_def

lemma late_put:
  "\<exists>u t. run_steps (rr_step script_env) (replicate 7 (Turn 0) @ [Shut]) rr_demo = Some u \<and> r_closed (q_client u) \<and>
     puts (q_io u) = 0 \<and> rr_step script_env (Turn 0) u = Some t \<and> puts (q_io t) = 1"
  by (simp add: rr_demo_defs numeral_eq_Suc script_env_def ctx_Err_def startClientSpan_def start_span_def newConnection_def
      dial_def mq_Connx_def Let_def mq_Open_def run_creator_def wrappedCreator_def RequestReplyClient_Close_def puts_def
      mq_Put_def tel_emit_def)

text \<open>
  C8: closing a request-reply client. \<^verbatim>\<open>Close\<close> returns at once and touches neither the calls in
  progress nor MQ. From then on, however the calls go on, a call it found before its check
  never gets past it: it has made no MQ call and can only end with an error. Every other
  call still ends, in at most seventeen steps of its own and without waiting for anyone
  else; it even goes on to put its request after \<^verbatim>\<open>Close\<close> has returned, as a run shows.
\<close>

theorem rr_close:
  assumes "rr_step env Shut s = Some u" and "run_steps (rr_step env) ls u = Some t" and "i < length (q_calls s)"
  shows "q_io u = q_io s \<and> q_calls u = q_calls s \<and> r_closed (q_client t) \<and>
    (shut_out (q_calls s ! i) \<longrightarrow> shut_out (q_calls t ! i)) \<and>
    (\<exists>n t' x. n \<le> 17 \<and> run_steps (rr_step env) (replicate n (Turn i)) t = Some t' \<and> c_pc (q_calls t' ! i) = REnd x) \<and>
    (\<exists>u t. run_steps (rr_step script_env) (replicate 7 (Turn 0) @ [Shut]) rr_demo = Some u \<and> r_closed (q_client u) \<and>
       puts (q_io u) = 0 \<and> rr_step script_env (Turn 0) u = Some t \<and> puts (q_io t) = 1)"
proof -
  from assms(1) have u: "q_io u = q_io s" "q_calls u = q_calls s" "r_closed (q_client u)"
    by (auto simp: RequestReplyClient_Close_def)
  have closed: "r_closed (q_client t)"
    using assms(2) u(3)
  proof (induction ls arbitrary: u)
    case (Cons l ls)
    then obtain v where v: "rr_step env l u = Some v" "run_steps (rr_step env) ls v = Some t"
      by (auto simp del: rr_step.simps split: option.splits)
    have "r_closed (q_client v)"
      using v(1) Cons.prems(2)
      by (cases l) (auto simp: RequestReplyClient_Close_def Let_def split: if_splits option.splits dest: move_client(1))
    with Cons.IH v(2) show ?case by blast
  qed simp
  have "i < length (q_calls t)" using calls_kept [OF assms(2)] assms(3) u(2) by simp
  from turns_finish [OF this, of env] obtain n t' x where
    "n \<le> rr_rank (c_pc (q_calls t ! i))" "run_steps (rr_step env) (replicate n (Turn i)) t = Some t'"
    "c_pc (q_calls t' ! i) = REnd x" by (metis prod_cases3)
  moreover have "rr_rank (c_pc (q_calls t ! i)) \<le> 17" by (cases "c_pc (q_calls t ! i)") simp_all
  ultimately have "\<exists>n t' x. n \<le> 17 \<and> run_steps (rr_step env) (replicate n (Turn i)) t = Some t' \<and> c_pc (q_calls t' ! i) = REnd x"
    by (meson order_trans)
  moreover have "shut_out (q_calls s ! i) \<longrightarrow> shut_out (q_calls t ! i)"
    using shut_out_run [OF assms(2) u(3)] u(2) by simp
  ultimately show ?thesis using u closed late_put by blast
qed

theorem rr_close_witness: "\<exists>u t. rr_step script_env Shut rr_demo = Some u \<and> run_steps (rr_step script_env) [Turn 1] u = Some t \<and>
  shut_out (q_calls t ! 1)"
proof -
  obtain u t where run: "rr_step script_env Shut rr_demo = Some u" "run_steps (rr_step script_env) [Turn 1] u = Some t"
    by (simp add: rr_demo_defs script_env_def ctx_Err_def RequestReplyClient_Close_def Let_def)
  moreover have "shut_out (q_calls rr_demo ! 1)" "1 < length (q_calls rr_demo)" by (simp_all add: rr_demo_defs shut_out_def)
  ultimately show ?thesis using rr_close [OF run, of 1] by blast
qed

lemma rr_finish_turns:
  assumes "i < length (q_calls s)" and "q_calls s ! i = \<lparr>c_args = \<lparr>a_ctx = ctx, a_creator = creator, a_timeout = timeout\<rparr>,
      c_pc = RPoll, c_trace = tr\<rparr>"
    and "RequestReplyWithCreator env ctx creator timeout (q_client s) (q_io s) = (x, r', io')"
  shows "\<exists>n t. n \<le> 17 \<and> run_steps (rr_step env) (replicate n (Turn i)) s = Some t \<and>
    c_pc (q_calls t ! i) = REnd x \<and> q_client t = r' \<and> q_io t = io' \<and>
    length (q_calls t) = length (q_calls s) \<and> (\<forall>j. j \<noteq> i \<longrightarrow> q_calls t ! j = q_calls s ! j)"
proof -
  have "rr_finish env (c_args (q_calls s ! i)) (c_pc (q_calls s ! i)) (q_client s) (q_io s) = (x, r', io')"
    using assms(2,3) by (simp add: rr_finish_call)
  from turns_finish [OF assms(1) this] show ?thesis unfolding assms(2) rr_frame_def by auto
qed

text \<open>
  C17: the sequential call is a run of the interleaved system. A call that is given its turns
  without interruption, from any state another call or \<^verbatim>\<open>Close\<close> may have left, returns exactly
  what \<open>RequestReplyWithCreator\<close> returns on the shared client and world, and leaves both
  exactly as it does, after at most seventeen steps; the other calls are where they were.
\<close>

theorem rr_call_uninterrupted:
  assumes "i < length (q_calls s)" and "q_calls s ! i = \<lparr>c_args = \<lparr>a_ctx = ctx, a_creator = creator, a_timeout = timeout\<rparr>,
      c_pc = RPoll, c_trace = tr\<rparr>"
    and "RequestReplyWithCreator env ctx creator timeout (q_client s) (q_io s) = (x, r', io')"
  shows "\<exists>n t. n \<le> 17 \<and> run_steps (rr_step env) (replicate n (Turn i)) s = Some t \<and>
    c_pc (q_calls t ! i) = REnd x \<and> q_client t = r' \<and> q_io t = io' \<and>
    length (q_calls t) = length (q_calls s) \<and> (\<forall>j. j \<noteq> i \<longrightarrow> q_calls t ! j = q_calls s ! j)"
  using assms by (rule rr_finish_turns)

lemma rr_demo_call: "q_calls rr_demo ! 0 = \<lparr>c_args = \<lparr>a_ctx = 0, a_creator = None, a_timeout = second\<rparr>, c_pc = RPoll, c_trace = []\<rparr>"
  by (simp add: rr_demo_def demo_args_def)

theorem rr_call_uninterrupted_witness:
  "\<exists>n t x. run_steps (rr_step echo_env) (replicate n (Turn 0)) rr_demo = Some t \<and> c_pc (q_calls t ! 0) = REnd x \<and>
     x = fst (RequestReplyWithCreator echo_env 0 None second (q_client rr_demo) (q_io rr_demo))"
proof -
  obtain x r' io' where run: "RequestReplyWithCreator echo_env 0 None second (q_client rr_demo) (q_io rr_demo) = (x, r', io')"
    by (metis prod_cases3)
  have "0 < length (q_calls rr_demo)" by (simp add: rr_demo_def)
  from rr_call_uninterrupted [OF this rr_demo_call run] run show ?thesis by auto
qed

text \<open>Two interleaved calls over temporary queues, and one over a shared queue.\<close>

lemma rr_demo_init: "rr_init (new_request_reply demo_config ''Q.REQ'') rr_demo"
  unfolding rr_init_def rr_demo_def using new_client_fresh(1) by blast

theorem rr_calls_hold_witness:
  "\<exists>u. run_steps (rr_step script_env) (replicate 7 (Turn 0) @ [Shut]) rr_demo = Some u \<and>
     live_conns (trace (q_io u)) = call_sum pc_conns u"
proof -
  from late_put obtain u where u: "run_steps (rr_step script_env) (replicate 7 (Turn 0) @ [Shut]) rr_demo = Some u" by blast
  from rr_demo_init have "reachable (rr_step script_env) (rr_init (new_request_reply demo_config ''Q.REQ'')) rr_demo"
    by (rule reachable.start)
  from reachable_run [OF this u]
  have "reachable (rr_step script_env) (rr_init (new_request_reply demo_config ''Q.REQ'')) u" .
  from rr_calls_hold [OF this] u show ?thesis by blast
qed

lemma echo_call:
  "\<exists>reply r' io'. RequestReplyWithCreator echo_env 0 None second demo_rr (start_io quiet_script) = (Returns (Inr reply), r', io') \<and>
     list_all (put_key (replicate 24 9)) (trace io')"
proof -
  obtain sc sp tel where span: "startClientSpan (otel_api echo_env) 0 (r_requestQueue demo_rr) (r_tel demo_rr) = (sc, sp, tel)"
    by (metis prod_cases3)
  let ?cr = "Some (wrappedCreator (otel_api echo_env) tel sc None) :: script MessageCreator option"
  have poll: "ctx_Err echo_env 0 (start_io quiet_script) = (None, start_io quiet_script)"
    by (simp add: ctx_Err_def echo_env_def script_env_def start_io_def quiet_script_def)
  obtain c io1 where new: "newConnection echo_env (r_cfg demo_rr) (start_io quiet_script) = (Inr c, io1)" "world io1 = quiet_script"
    "list_all (put_key (replicate 24 9)) (trace io1)"
    by (simp add: newConnection_def dial_def mq_Connx_def echo_env_def script_env_def start_io_def quiet_script_def Let_def)
  have "\<exists>msg'. run_creator ?cr msg io = (Returns (None, msg'), io) \<and> CorrelationID msg' = CorrelationID msg" for msg io
    by (simp add: run_creator_def wrappedCreator_def injectToMessage_def Let_def)
  then obtain reply io2 where
    "requestReplyViaFixedQueue echo_env c ''Q.REQ'' ''Q.REP'' ?cr second io1 = (Returns (Inr reply), io2)"
    "list_all (put_key (replicate 24 9)) (trace io2)"
    using echo_reply [of ?cr io1 c] new(2,3) quiet_world by auto
  moreover have "\<not> r_closed demo_rr" "r_mode demo_rr = FixedQueueSelector" "r_requestQueue demo_rr = ''Q.REQ''"
    "r_replyQueue demo_rr = ''Q.REP''" by (simp_all add: demo_rr_def new_request_reply_fixed_def)
  moreover obtain e c' io3 where "conn_Close echo_env c io2 = (e, c', io3)" "trace io3 = trace io2 @ [EDisc (queueManager c)]"
    by (simp add: conn_Close_def conn_setState_def mq_Disc_def Let_def echo_env_def script_env_def)
  ultimately show ?thesis using poll new(1) span by (simp add: RequestReplyWithCreator_def)
qed

theorem rr_own_reply_witness:
  "\<exists>s call reply q putMD body. reachable (rr_step echo_env) (rr_init demo_rr) s \<and> call \<in> set (q_calls s) \<and> c_pc call = REnd (Returns (Inr reply)) \<and>
     EPut q putMD (put_options echo_env) body None \<in> set (c_trace call) \<and> CorrelationID reply = EncodeToString (CorrelId putMD)"
proof -
  let ?s = "rr_start demo_rr quiet_script [demo_args]"
  obtain reply r' io' where run: "RequestReplyWithCreator echo_env 0 None second (q_client ?s) (q_io ?s) = (Returns (Inr reply), r', io')"
    and puts: "list_all (put_key (replicate 24 9)) (trace io')"
    using echo_call by (auto simp: rr_start_def start_io_def)
  have "0 < length (q_calls ?s)" "q_calls ?s ! 0 = \<lparr>c_args = \<lparr>a_ctx = 0, a_creator = None, a_timeout = second\<rparr>, c_pc = RPoll, c_trace = []\<rparr>"
    by (simp_all add: demo_args_def)
  from rr_finish_turns [OF this run] obtain n t where t: "run_steps (rr_step echo_env) (replicate n (Turn 0)) ?s = Some t"
    "length (q_calls t) = length (q_calls ?s)" "c_pc (q_calls t ! 0) = REnd (Returns (Inr reply))" "q_io t = io'" by blast
  have "rr_fresh demo_rr" using new_client_fresh(2) by (simp add: demo_rr_def)
  then have "rr_init demo_rr ?s" by (auto simp: rr_init_def)
  then have "reachable (rr_step echo_env) (rr_init demo_rr) ?s" by (rule reachable.start)
  from reachable_run [OF this t(1)] have reach: "reachable (rr_step echo_env) (rr_init demo_rr) t" .
  have match: "matches_correl_id echo_env" by (simp add: matches_correl_id_def echo_env_def)
  have call: "q_calls t ! 0 \<in> set (q_calls t)" using t(2) by (simp add: nth_mem)
  have "r_mode demo_rr = FixedQueueSelector" by (simp add: demo_rr_def new_request_reply_fixed_def)
  with rr_own_reply [OF reach match call t(3)] obtain q putMD body where
    put: "EPut q putMD (put_options echo_env) body None \<in> set (c_trace (q_calls t ! 0))"
    "subseq (c_trace (q_calls t ! 0)) (trace io')"
    and key: "CorrelId putMD \<noteq> MQCI_NONE \<longrightarrow> CorrelationID reply = EncodeToString (CorrelId putMD)"
    using t(4) by force
  from list_emb_set [OF put(2,1)] have "EPut q putMD (put_options echo_env) body None \<in> set (trace io')" by auto
  with put_key_none [OF puts] key put(1) reach call t(3) show ?thesis by blast
qed

end
