(* ===== verification/MQ_Health.thy ===== *)
theory MQ_Health
  imports MQ_RequestReply
begin

text \<open>
  The health probes of \<^verbatim>\<open>src/mq/health.go\<close>. A sender's probe takes an idle connection out of
  the pool and puts it back at the end, so it returns the sender it leaves; \<^term>\<open>None\<close>
  means that this last channel operation never ends. The aggregation over a client is in
  \<open>MQ_Client\<close>.
\<close>

fun stateLabel :: "ConnectionState \<Rightarrow> string" where
  "stateLabel StateConnected = ''connected''"
| "stateLabel StateReconnecting = ''reconnecting''"
| "stateLabel StateFailed = ''failed''"
| "stateLabel StateStopped = ''stopped''"
| "stateLabel StateUnknown = ''unknown''"

definition connectionStateReason :: "ConnectionState \<Rightarrow> string" where
  "connectionStateReason st = ''connection state: '' @ stateLabel st"

definition alive_entry :: "string \<Rightarrow> string \<Rightarrow> ConnectionStatus" where
  "alive_entry qm component = \<lparr>QueueManager = qm, Alive = True, Reason = [], Component = component\<rparr>"

definition dead_entry :: "string \<Rightarrow> string \<Rightarrow> string \<Rightarrow> ConnectionStatus" where
  "dead_entry qm component reason =
     \<lparr>QueueManager = qm, Alive = False, Reason = reason, Component = component\<rparr>"

definition failed_reason :: "go_error option \<Rightarrow> string" where
  "failed_reason lastErr =
     connectionStateReason StateFailed @
       (case lastErr of None \<Rightarrow> [] | Some e \<Rightarrow> '': '' @ error_text e)"

definition sender_component :: "Sender \<Rightarrow> string" where
  "sender_component s = ''sender '' @ quote (s_queue s)"

definition senderHealthProber :: "Sender \<Rightarrow> (ConnectionStatus list \<times> Sender) option" where
  "senderHealthProber s =
     (let qm = QueueManagerName (s_cfg s);
          alive = [alive_entry qm (sender_component s)];
          dead = (\<lambda>reason. [dead_entry qm (sender_component s) reason]) in
      if s_closed s then Some (dead ''sender is closed'', s)
      else if s_state s = StateReconnecting then Some (dead (connectionStateReason StateReconnecting), s)
      else if s_state s = StateFailed then Some (dead (failed_reason (s_lastErr s)), s)
      else if s_created s = 0
      then Some (case s_lastErr s of
                   None \<Rightarrow> []
                 | Some e \<Rightarrow> dead (''no live connections: '' @ error_text e), s)
      else
        (case try_recv (s_pool s) of
           Some (conn, pool) \<Rightarrow>
             (case try_send conn pool of
                None \<Rightarrow> None
              | Some pool' \<Rightarrow>
                  Some (if conn_state conn = StateConnected then alive
                        else dead (connectionStateReason (conn_state conn)), s\<lparr>s_pool := pool'\<rparr>))
         | None \<Rightarrow>
             Some (if s_state s = StateConnected \<or> s_state s = StateUnknown then alive
                   else dead (connectionStateReason (s_state s)), s)))"

definition consumer_entry :: "'w Listener \<Rightarrow> nat \<Rightarrow> ConnectionStatus" where
  "consumer_entry l i =
     (let st = l_states l ! i;
          alive = (st = StateConnected \<and> \<not> l_closed l) in
      \<lparr>QueueManager = QueueManagerName (l_cfg l), Alive = alive,
       Reason = (if l_closed l then ''listener is closed''
                 else if \<not> alive then connectionStateReason st else []),
       Component = ''listener '' @ quote (l_queue l) @ '' consumer '' @ itoa (int i)\<rparr>)"

definition listenerHealthProber :: "'w Listener \<Rightarrow> ConnectionStatus list" where
  "listenerHealthProber l = map (consumer_entry l) [0 ..< length (l_states l)]"

definition requestReplyHealthProber :: "RequestReplyClient \<Rightarrow> ConnectionStatus list" where
  "requestReplyHealthProber r =
     (let qm = QueueManagerName (r_cfg r);
          component = ''request-reply '' @ quote (r_requestQueue r) in
      if r_closed r then [dead_entry qm component ''request-reply client is closed'']
      else if r_state r = StateUnknown \<and> r_lastErr r = None then []
      else if r_state r = StateFailed then [dead_entry qm component (failed_reason (r_lastErr r))]
      else [alive_entry qm component])"

lemma entry_simps [simp]:
  "Alive (alive_entry qm c)" "\<not> Alive (dead_entry qm c r)"
  "Component (dead_entry qm c r) = c" "Reason (dead_entry qm c r) = r" "Component (alive_entry qm c) = c"
  by (simp_all add: alive_entry_def dead_entry_def)

subsection \<open>The sender's probe\<close>

lemma probe_rotates:
  assumes "try_recv pool = Some (conn, rest)" and "chan_ok pool"
  obtains pool' where "try_send conn rest = Some pool'" "chan_buf pool' = tl (chan_buf pool) @ [hd (chan_buf pool)]"
    "chan_cap pool' = chan_cap pool" "conn = hd (chan_buf pool)"
proof -
  from chan.recv_Some [OF assms(1)] have b: "chan_buf pool = conn # chan_buf rest" "chan_cap rest = chan_cap pool"
    by simp_all
  with assms(2) have "length (chan_buf rest) < chan_cap rest" by (simp add: chan_ok_def)
  then obtain pool' where p: "try_send conn rest = Some pool'" using chan.send_enabled [of rest conn] by auto
  show thesis by (rule that [OF p]) (use b chan.send_Some [OF p] in auto)
qed

text \<open>
  the sender's probe. It always returns, with at most one entry, and it moves at most
  the first idle connection to the end of the pool. The entry is dead whenever the
  sender is closed, is reconnecting or has failed; a sender that is alive has created a
  connection, and an open sender without connections and without an error has no entry.
\<close>

theorem sender_probe_sound:
  assumes "chan_ok (s_pool s)"
  shows "\<exists>es s'. senderHealthProber s = Some (es, s') \<and>
    s'\<lparr>s_pool := s_pool s\<rparr> = s \<and> chan_cap (s_pool s') = chan_cap (s_pool s) \<and>
    chan_buf (s_pool s') \<in> {chan_buf (s_pool s), rotate1 (chan_buf (s_pool s))} \<and>
    length es \<le> 1 \<and>
    (s_closed s \<or> s_state s \<in> {StateReconnecting, StateFailed} \<longrightarrow> (\<exists>e. es = [e] \<and> \<not> Alive e)) \<and>
    (\<forall>e \<in> set es. Alive e \<longrightarrow> s_created s \<noteq> 0 \<and> \<not> s_closed s) \<and>
    (es = [] \<longleftrightarrow> \<not> s_closed s \<and> s_state s \<notin> {StateReconnecting, StateFailed} \<and> s_created s = 0 \<and> s_lastErr s = None)"
proof (cases "try_recv (s_pool s)")
  case None
  then show ?thesis
    by (auto simp: senderHealthProber_def Let_def split: option.splits)
next
  case (Some p)
  then obtain conn rest where p: "try_recv (s_pool s) = Some (conn, rest)" by (cases p) simp
  obtain pool' where q: "try_send conn rest = Some pool'"
    "chan_buf pool' = tl (chan_buf (s_pool s)) @ [hd (chan_buf (s_pool s))]"
    "chan_cap pool' = chan_cap (s_pool s)"
    using probe_rotates [OF p assms] by metis
  have "chan_buf pool' = rotate1 (chan_buf (s_pool s))"
    using q(2) chan.recv_Some [OF p] by simp
  then show ?thesis using p q(1,3)
    by (auto simp: senderHealthProber_def Let_def split: option.splits)
qed

theorem sender_probe_sound_witness:
  "\<exists>es s'. senderHealthProber pooled_sender = Some (es, s') \<and> length es \<le> 1"
proof -
  have "chan_ok (s_pool pooled_sender)" by (simp add: pooled_sender_def chan_ok_def)
  from sender_probe_sound [OF this] show ?thesis by blast
qed

end
