(* ===== verification/MQ_Client.thy ===== *)
theory MQ_Client
  imports MQ_Health
begin

text \<open>
  \<^verbatim>\<open>src/mq/client.go\<close> and \<^verbatim>\<open>Client.Health\<close> of \<^verbatim>\<open>src/mq/health.go\<close>. The components a client
  creates live in a store; the closures it registers for \<^verbatim>\<open>Close\<close> and \<^verbatim>\<open>Health\<close> are the
  store addresses of their receivers. Operations describe a run in which no other
  goroutine moves: \<^term>\<open>None\<close> means that the call never returns.
\<close>

datatype 'w component =
    CSender Sender
  | CListener "'w Listener"
  | CRequestReply RequestReplyClient

record 'w Client =
  cfg :: Config
  c_closed :: bool
  closers :: "nat list"
  healthProbers :: "nat list"
  store :: "'w component list"

definition NewClient :: "Config \<Rightarrow> go_error + 'w Client" where
  "NewClient cfg0 =
     (let cfg1 = applyDefaults cfg0 in
      case Validate cfg1 of
        Some err \<Rightarrow> Inl err
      | None \<Rightarrow>
          Inr \<lparr>cfg = cfg1, c_closed = False, closers = [], healthProbers = [], store = []\<rparr>)"

definition register :: "nat \<Rightarrow> 'w Client \<Rightarrow> 'w Client" where
  "register a c = c\<lparr>closers := closers c @ [a]\<rparr>"

definition registerHealthProber :: "nat \<Rightarrow> 'w Client \<Rightarrow> 'w Client" where
  "registerHealthProber a c = c\<lparr>healthProbers := healthProbers c @ [a]\<rparr>"

text \<open>Allocation of a new component and the two registrations every factory makes.\<close>

definition add_component :: "'w component \<Rightarrow> 'w Client \<Rightarrow> nat \<times> 'w Client" where
  "add_component x c =
     (let a = length (store c) in
      (a, registerHealthProber a (register a (c\<lparr>store := store c @ [x]\<rparr>))))"

definition NewListener ::
  "string \<Rightarrow> ('w Listener \<Rightarrow> 'w Listener) list \<Rightarrow> 'w Client \<Rightarrow> nat \<times> 'w Client" where
  "NewListener queueName opts c =
     add_component (CListener (initStates (fold (\<lambda>opt l. opt l) opts (new_listener (cfg c) queueName)))) c"

definition NewSender ::
  "string \<Rightarrow> (Sender \<Rightarrow> Sender) list \<Rightarrow> 'w Client \<Rightarrow> nat \<times> 'w Client" where
  "NewSender destinationQueue opts c =
     add_component (CSender (fold (\<lambda>opt s. opt s) opts (new_sender (cfg c) destinationQueue))) c"

definition NewRequestReplyClient ::
  "string \<Rightarrow> (RequestReplyClient \<Rightarrow> RequestReplyClient) list \<Rightarrow> 'w Client \<Rightarrow> nat \<times> 'w Client" where
  "NewRequestReplyClient requestQueue opts c =
     add_component (CRequestReply (fold (\<lambda>opt r. opt r) opts (new_request_reply (cfg c) requestQueue))) c"

definition NewRequestReplyClientFixed ::
  "string \<Rightarrow> string \<Rightarrow> (RequestReplyClient \<Rightarrow> RequestReplyClient) list \<Rightarrow> 'w Client \<Rightarrow> nat \<times> 'w Client" where
  "NewRequestReplyClientFixed requestQueue replyQueue opts c =
     add_component
       (CRequestReply (fold (\<lambda>opt r. opt r) opts (new_request_reply_fixed (cfg c) requestQueue replyQueue))) c"

subsection \<open>Closing\<close>

fun component_close ::
  "'w env \<Rightarrow> 'w component \<Rightarrow> 'w io \<Rightarrow> (go_error option \<times> 'w component \<times> 'w io) option" where
  "component_close env (CSender s) io =
     map_option (\<lambda>(e, s', io'). (e, CSender s', io')) (Sender_close env s io)"
| "component_close env (CListener l) io =
     map_option (\<lambda>(e, l', io'). (e, CListener l', io')) (Listener_close l io)"
| "component_close env (CRequestReply r) io =
     (case RequestReplyClient_Close r of (e, r') \<Rightarrow> Some (e, CRequestReply r', io))"

text \<open>The loop over the closers, in the order given.\<close>

fun close_all ::
  "'w env \<Rightarrow> nat list \<Rightarrow> 'w component list \<Rightarrow> 'w io \<Rightarrow>
   (go_error list \<times> 'w component list \<times> 'w io) option" where
  "close_all env [] st io = Some ([], st, io)"
| "close_all env (a # as) st io =
     (case component_close env (st ! a) io of
        None \<Rightarrow> None
      | Some (e, x, io1) \<Rightarrow>
          (case close_all env as (st[a := x]) io1 of
             None \<Rightarrow> None
           | Some (errs, st', io') \<Rightarrow>
               Some ((case e of None \<Rightarrow> errs | Some err \<Rightarrow> err # errs), st', io')))"

definition Client_Close ::
  "'w env \<Rightarrow> 'w Client \<Rightarrow> 'w io \<Rightarrow> (go_error option \<times> 'w Client \<times> 'w io) option" where
  "Client_Close env c io =
     (if c_closed c then Some (None, c, io)
      else
        (let c1 = c\<lparr>c_closed := True, closers := []\<rparr> in
         case close_all env (rev (closers c)) (store c1) io of
           None \<Rightarrow> None
         | Some (errs, st, io') \<Rightarrow> Some (errors_join errs, c1\<lparr>store := st\<rparr>, io')))"

subsection \<open>Health\<close>

fun probe :: "'w component \<Rightarrow> (ConnectionStatus list \<times> 'w component) option" where
  "probe (CSender s) = map_option (\<lambda>(es, s'). (es, CSender s')) (senderHealthProber s)"
| "probe (CListener l) = Some (listenerHealthProber l, CListener l)"
| "probe (CRequestReply r) = Some (requestReplyHealthProber r, CRequestReply r)"

fun probe_all ::
  "nat list \<Rightarrow> 'w component list \<Rightarrow> (ConnectionStatus list \<times> 'w component list) option" where
  "probe_all [] st = Some ([], st)"
| "probe_all (a # as) st =
     (case probe (st ! a) of
        None \<Rightarrow> None
      | Some (es, x) \<Rightarrow>
          map_option (\<lambda>(rest, st'). (es @ rest, st')) (probe_all as (st[a := x])))"

definition Client_Health :: "'w Client \<Rightarrow> (HealthStatus \<times> 'w Client) option" where
  "Client_Health c =
     (case probe_all (healthProbers c) (store c) of
        None \<Rightarrow> None
      | Some (es, st) \<Rightarrow>
          (let details =
                 (if c_closed c
                  then dead_entry (QueueManagerName (cfg c)) ''client'' ''client is closed'' # es else es)
           in Some (\<lparr>Healthy = list_all Alive details, Details = details\<rparr>, c\<lparr>store := st\<rparr>)))"

definition Client_Config :: "'w Client \<Rightarrow> Config" where
  "Client_Config c = cfg c"

subsection \<open>Close\<close>

fun component_closed :: "'w component \<Rightarrow> bool" where
  "component_closed (CSender s) = s_closed s"
| "component_closed (CListener l) = l_closed l"
| "component_closed (CRequestReply r) = r_closed r"

interpretation component_life: closable "component_close env" component_closed for env
proof
  fix c :: "'a component" and s e c' s'
  assume "component_close env c s = Some (e, c', s')"
  then show "component_closed c'"
    by (cases c) (auto dest: sender_life.shut_closes listener_life.shut_closes
        simp: RequestReplyClient_Close_def)
next
  fix c :: "'a component" and s
  assume "component_closed c"
  then show "component_close env c s = Some (None, c, s)"
    by (cases c) (auto simp: sender_life.shut_again listener_life.shut_again RequestReplyClient_Close_def)
qed

text \<open>No call is in progress on the component and its accounts balance.\<close>

fun quiescent :: "'w component \<Rightarrow> bool" where
  "quiescent (CSender s) = (sender_inv 0 s \<and> s_wg s = 0)"
| "quiescent (CListener l) = (\<not> l_running l)"
| "quiescent (CRequestReply r) = True"

text \<open>The disconnects that closing a component makes.\<close>

fun component_discs :: "'w component \<Rightarrow> mq_event list" where
  "component_discs (CSender s) =
     (if s_closed s then [] else map (\<lambda>c. EDisc (queueManager c)) (chan_buf (s_pool s)))"
| "component_discs _ = []"

lemma component_close_quiescent:
  assumes "quiescent x"
  shows "\<exists>e x' io'. component_close env x io = Some (e, x', io') \<and> component_closed x' \<and>
    trace io' = trace io @ component_discs x"
proof (cases x)
  case (CSender s)
  show ?thesis
  proof (cases "s_closed s")
    case True
    with CSender show ?thesis by (simp add: sender_life.shut_again)
  next
    case False
    obtain errs pool io' where d: "drain_pool env (nat (s_created s)) (s_pool s) io [] = (errs, pool, io')"
      by (cases "drain_pool env (nat (s_created s)) (s_pool s) io []")
    have "length (chan_buf (s_pool s)) \<le> nat (s_created s)" using assms CSender by (simp add: sender_inv_def)
    from drain_pool_all [OF d this] d CSender False assms show ?thesis by (simp add: Sender_close_def Let_def)
  qed
next
  case (CListener l)
  with assms show ?thesis by (auto simp: Listener_close_def)
next
  case (CRequestReply r)
  then show ?thesis by (simp add: RequestReplyClient_Close_def)
qed

lemma close_all_quiescent:
  assumes "\<forall>a \<in> set as. a < length st \<and> quiescent (st ! a)" and "distinct as"
  shows "\<exists>errs st' io'. close_all env as st io = Some (errs, st', io') \<and> length st' = length st \<and>
    trace io' = trace io @ concat (map (\<lambda>a. component_discs (st ! a)) as) \<and>
    (\<forall>a < length st. if a \<in> set as then component_closed (st' ! a) else st' ! a = st ! a)"
  using assms
proof (induction as arbitrary: st io)
  case Nil
  then show ?case by simp
next
  case (Cons a as)
  from component_close_quiescent [of "st ! a" env io] Cons.prems obtain e x io1 where
    c: "component_close env (st ! a) io = Some (e, x, io1)" "component_closed x"
      "trace io1 = trace io @ component_discs (st ! a)" by auto
  have "\<forall>b \<in> set as. b < length (st[a := x]) \<and> quiescent (st[a := x] ! b)"
    using Cons.prems by (auto simp: nth_list_update)
  from Cons.IH [OF this, of io1] Cons.prems obtain errs st' io' where
    r: "close_all env as (st[a := x]) io1 = Some (errs, st', io')" "length st' = length st"
      "trace io' = trace io1 @ concat (map (\<lambda>b. component_discs (st[a := x] ! b)) as)"
      "\<forall>b < length st. if b \<in> set as then component_closed (st' ! b) else st' ! b = st[a := x] ! b" by auto
  have disc: "map (\<lambda>b. component_discs (st[a := x] ! b)) as = map (\<lambda>b. component_discs (st ! b)) as"
    using Cons.prems(2) by (intro map_cong refl) (metis distinct.simps(2) nth_list_update_neq)
  have "trace io' = trace io @ concat (map (\<lambda>b. component_discs (st ! b)) (a # as))"
    unfolding r(3) c(3) disc by simp
  moreover have "if b \<in> set (a # as) then component_closed (st' ! b) else st' ! b = st ! b" if "b < length st" for b
    using r(4) that c(2) Cons.prems by (auto simp: nth_list_update split: if_splits)
  ultimately show ?case using c(1) r(1,2) by (auto split: option.splits)
qed

text \<open>
  The invariant of a client: while it is open, every component of its store is registered,
  in the order of creation.
\<close>

definition client_ok :: "'w Client \<Rightarrow> bool" where
  "client_ok c \<longleftrightarrow>
     healthProbers c = [0 ..< length (store c)] \<and>
     (\<not> c_closed c \<longrightarrow> closers c = [0 ..< length (store c)])"

lemma NewClient_ok: "NewClient cfg0 = Inr c \<Longrightarrow> client_ok c \<and> \<not> c_closed c"
  by (auto simp: NewClient_def client_ok_def Let_def split: option.splits)

lemma add_component_ok: "client_ok c \<Longrightarrow> client_ok (snd (add_component x c))"
  by (auto simp: add_component_def client_ok_def register_def registerHealthProber_def Let_def)

lemma factories_ok [inv_intros]:
  "client_ok c \<Longrightarrow> client_ok (snd (NewSender q so c))"
  "client_ok c \<Longrightarrow> client_ok (snd (NewListener q lo c))"
  "client_ok c \<Longrightarrow> client_ok (snd (NewRequestReplyClient q ro c))"
  "client_ok c \<Longrightarrow> client_ok (snd (NewRequestReplyClientFixed q p ro c))"
  by (simp_all add: NewSender_def NewListener_def NewRequestReplyClient_def
      NewRequestReplyClientFixed_def add_component_ok)

lemma Client_Close_quiescent:
  assumes "client_ok c" and "\<not> c_closed c" and "\<forall>x \<in> set (store c). quiescent x"
  shows "\<exists>e c' io'. Client_Close env c io = Some (e, c', io') \<and> c_closed c' \<and>
    length (store c') = length (store c) \<and> (\<forall>x \<in> set (store c'). component_closed x) \<and>
    trace io' = trace io @ concat (map component_discs (rev (store c))) \<and>
    (\<forall>io''. Client_Close env c' io'' = Some (None, c', io''))"
proof -
  let ?as = "rev [0 ..< length (store c)]"
  have "\<forall>a \<in> set ?as. a < length (store c) \<and> quiescent (store c ! a)" using assms(3) by simp
  from close_all_quiescent [OF this, of env io] obtain errs st io' where
    r: "close_all env ?as (store c) io = Some (errs, st, io')" "length st = length (store c)"
      "trace io' = trace io @ concat (map (\<lambda>a. component_discs (store c ! a)) ?as)"
      "\<forall>a < length (store c). component_closed (st ! a)" by auto
  let ?c = "c\<lparr>c_closed := True, closers := [], store := st\<rparr>"
  have "Client_Close env c io = Some (errors_join errs, ?c, io')"
    using assms(1,2) r(1) by (simp add: Client_Close_def client_ok_def Let_def)
  moreover have "map (\<lambda>a. component_discs (store c ! a)) ?as = map component_discs (rev (store c))"
    by (simp add: rev_map [symmetric] map_nth flip: map_map [of component_discs "(!) (store c)", unfolded comp_def])
  moreover have "\<forall>x \<in> set st. component_closed x" using r(2,4) by (auto simp: in_set_conv_nth)
  moreover have "Client_Close env ?c io'' = Some (None, ?c, io'')" for io'' by (simp add: Client_Close_def)
  ultimately show ?thesis using r(2,3) by (intro exI [of _ "errors_join errs"] exI [of _ ?c] exI [of _ io']) simp
qed

text \<open>
  C26: \<^verbatim>\<open>Client.Close\<close>. On an open client whose components have no call in progress and whose
  senders' accounts balance (every connection counted in \<^verbatim>\<open>created\<close> is in the pool, so no
  creator has panicked), \<^verbatim>\<open>Close\<close> returns; it closes every component, last created first, disconnecting each pooled
  connection once and making no other call; and a second \<^verbatim>\<open>Close\<close> returns nil and does
  nothing.
\<close>

theorem client_close_all:
  assumes "client_ok c" and "\<not> c_closed c" and "\<forall>x \<in> set (store c). quiescent x"
  shows "\<exists>e c' io'. Client_Close env c io = Some (e, c', io') \<and> c_closed c' \<and>
    length (store c') = length (store c) \<and> (\<forall>x \<in> set (store c'). component_closed x) \<and>
    trace io' = trace io @ concat (map component_discs (rev (store c))) \<and>
    (\<forall>io''. Client_Close env c' io'' = Some (None, c', io''))"
  using assms by (rule Client_Close_quiescent)

subsection \<open>New components\<close>

lemma fold_sender_options:
  assumes "set opts \<subseteq> range WithSenderConcurrency" and "sender_inv 0 s" and "s_created s = 0"
  shows "let t = fold (\<lambda>opt s. opt s) opts s in sender_inv 0 t \<and> s_created t = 0 \<and> s_queue t = s_queue s \<and>
    s_closed t = s_closed s \<and> s_wg t = s_wg s \<and> s_cfg t = s_cfg s"
  using assms
proof (induction opts arbitrary: s)
  case Nil
  then show ?case by simp
next
  case (Cons opt opts)
  then obtain n where opt: "opt = WithSenderConcurrency n" by auto
  have "sender_inv 0 (opt s)" using Cons.prems opt by (simp add: option_sender_inv)
  moreover have same: "s_created (opt s) = 0" "s_queue (opt s) = s_queue s" "s_closed (opt s) = s_closed s"
    "s_wg (opt s) = s_wg s" "s_cfg (opt s) = s_cfg s"
    using Cons.prems(3) by (simp_all add: opt WithSenderConcurrency_def)
  ultimately have "let t = fold (\<lambda>opt s. opt s) opts (opt s) in sender_inv 0 t \<and> s_created t = 0 \<and>
      s_queue t = s_queue (opt s) \<and> s_closed t = s_closed (opt s) \<and> s_wg t = s_wg (opt s) \<and> s_cfg t = s_cfg (opt s)"
    using Cons.prems(1) by (intro Cons.IH) simp_all
  with same show ?case by (simp add: Let_def)
qed

lemma NewClient_concurrency: "NewClient cfg0 = Inr c \<Longrightarrow> 1 \<le> OutputConcurrency (cfg c)"
  by (auto simp: NewClient_def Let_def split: option.splits)

lemma new_sender_ready:
  assumes "NewClient cfg0 = Inr c" and "set opts \<subseteq> range WithSenderConcurrency"
  shows "\<exists>s. NewSender q opts c =
      (0, c\<lparr>store := [CSender s], closers := [0], healthProbers := [0]\<rparr>) \<and>
    sender_inv 0 s \<and> s_created s = 0 \<and> s_wg s = 0 \<and> \<not> s_closed s \<and> s_cfg s = applyDefaults cfg0 \<and>
    s_queue s = (if q = [] then OutputQueue cfg0 else q)"
proof -
  let ?s = "fold (\<lambda>opt s. opt s) opts (new_sender (cfg c) q)"
  from assms(1) have c: "cfg c = applyDefaults cfg0" "store c = []" "closers c = []" "healthProbers c = []"
    by (auto simp: NewClient_def Let_def split: option.splits)
  have "sender_inv 0 (new_sender (cfg c) q)" using NewClient_concurrency [OF assms(1)] by (rule new_sender_inv)
  from fold_sender_options [OF assms(2) this]
  have "sender_inv 0 ?s \<and> s_created ?s = 0 \<and> s_wg ?s = 0 \<and> \<not> s_closed ?s \<and> s_cfg ?s = cfg c \<and>
      s_queue ?s = (if q = [] then OutputQueue (cfg c) else q)"
    by (simp add: new_sender_def Let_def)
  with c show ?thesis
    by (intro exI [of _ ?s]) (simp add: NewSender_def add_component_def register_def registerHealthProber_def Let_def)
qed

definition demo_client :: "script Client" where
  "demo_client = \<lparr>cfg = applyDefaults demo_config, c_closed = False, closers = [], healthProbers = [], store = []\<rparr>"

lemma demo_client_new: "NewClient demo_config = Inr demo_client"
proof -
  have "Validate (applyDefaults demo_config) = None"
    by (simp add: Validate_None validation_errors_Nil demo_config_def zero_config_def)
  then show ?thesis by (simp add: NewClient_def demo_client_def)
qed

text \<open>A client with two senders, each with a connection in its pool, and a request-reply client between them.\<close>

definition busy_client :: "script Client" where
  "busy_client = demo_client\<lparr>
     store := [CSender (pooled_sender\<lparr>s_pool := \<lparr>chan_cap = 1, chan_buf = [(fresh_connection demo_config)\<lparr>queueManager := 7\<rparr>]\<rparr>\<rparr>),
               CRequestReply (new_request_reply demo_config ''Q''), CSender pooled_sender],
     closers := [0, 1, 2], healthProbers := [0, 1, 2]\<rparr>"

theorem client_close_all_witness:
  "\<exists>e c' io'. Client_Close script_env busy_client (start_io quiet_script) = Some (e, c', io') \<and> c_closed c' \<and>
     length (store c') = 3 \<and> trace io' = [EDisc 0, EDisc 7]"
proof -
  have "client_ok busy_client" "\<not> c_closed busy_client" "\<forall>x \<in> set (store busy_client). quiescent x"
    "length (store busy_client) = 3"
    by (simp_all add: client_ok_def busy_client_def demo_client_def pooled_sender_def sender_inv_def demo_sender_def
        new_sender_def upt_rec)
  moreover have "concat (map component_discs (rev (store busy_client))) = [EDisc 0, EDisc 7]"
    by (simp add: busy_client_def pooled_sender_def demo_sender_def new_sender_def fresh_connection_def)
  ultimately show ?thesis
    using client_close_all [of busy_client script_env "start_io quiet_script"] by (auto simp: start_io_def)
qed

lemma late_listener:
  assumes "c_closed c"
  shows "\<exists>l. NewListener q [] c = (length (store c), snd (NewListener q [] c)) \<and>
    store (snd (NewListener q [] c)) = store c @ [CListener l] \<and>
    Start env ctx handler order l io =
      (case run_consumers env ctx handler order (l\<lparr>l_started := True, l_running := True\<rparr>) io of
         None \<Rightarrow> None
       | Some (errs, l1, io1) \<Rightarrow> Some (errors_join errs, l1\<lparr>l_running := False\<rparr>, io1)) \<and>
    Client_Close env (snd (NewListener q [] c)) io = Some (None, snd (NewListener q [] c), io)"
  using assms
  by (simp add: NewListener_def add_component_def register_def registerHealthProber_def Client_Close_def
      Start_def initStates_def new_listener_def Let_def)

subsection \<open>A closed component refuses work\<close>

text \<open>
  C27: every component refuses work once it is closed, whatever its arguments. A sender with a
  destination and a listener return \<^verbatim>\<open>ErrClientClosed\<close> without any call to MQ and without
  any change; so does a request-reply client unless the caller's context is already done,
  whose error it then returns. But a closed client does not refuse new components: a listener
  created after \<^verbatim>\<open>Close\<close> is not closed, its \<^verbatim>\<open>Start\<close> does not return \<^verbatim>\<open>ErrClientClosed\<close> but goes
  on to its consumers, and no later \<^verbatim>\<open>Close\<close> closes it.
\<close>

theorem closed_component_refuses:
  fixes x :: "'w component" and c :: "'w Client"
  assumes "component_closed x" and "c_closed c"
  shows "(\<exists>l. store (snd (NewListener q [] c)) = store c @ [CListener l] \<and>
      Start env ctx handler order l io =
        (case run_consumers env ctx handler order (l\<lparr>l_started := True, l_running := True\<rparr>) io of
           None \<Rightarrow> None
         | Some (errs, l1, io1) \<Rightarrow> Some (errors_join errs, l1\<lparr>l_running := False\<rparr>, io1)) \<and>
      Client_Close env (snd (NewListener q [] c)) io = Some (None, snd (NewListener q [] c), io)) \<and>
    (case x of
      CSender s \<Rightarrow> \<forall>(env :: 'w env) ctx destination creator io.
        SendWithCreator env ctx destination creator s io =
          Some (Returns (Inl (if destination = [] \<and> s_queue s = [] then no_destination
             else Sentinel ErrClientClosed)), s, io)
    | CListener l \<Rightarrow> \<forall>env ctx handler order io.
        Start env ctx handler order l io = Some (Some (Sentinel ErrClientClosed), l, io)
    | CRequestReply r \<Rightarrow> \<forall>(env :: 'w env) ctx creator timeout io.
        RequestReplyWithCreator env ctx creator timeout r io =
          (case ctx_Err env ctx io of
             (Some e, io') \<Rightarrow> (Returns (Inl e), r, io')
           | (None, io') \<Rightarrow> (Returns (Inl (Sentinel ErrClientClosed)), r, io')))" (is "?late \<and> ?refuses")
proof
  show ?late using late_listener [OF assms(2), of q env ctx handler order io] by blast
  show ?refuses
  proof (cases x)
    case (CSender s)
    with assms show ?thesis by (auto simp: SendWithCreator_def Let_def)
  next
    case (CListener l)
    with assms show ?thesis by (simp add: Start_def)
  next
    case (CRequestReply r)
    with assms show ?thesis
      by (auto simp: RequestReplyWithCreator_def split: prod.splits option.splits)
  qed
qed

theorem closed_component_refuses_witness:
  "SendWithCreator script_env 0 ''Q'' None (demo_sender\<lparr>s_closed := True\<rparr>) (start_io quiet_script) =
     Some (Returns (Inl (Sentinel ErrClientClosed)), demo_sender\<lparr>s_closed := True\<rparr>, start_io quiet_script)"
  using closed_component_refuses [of "CSender (demo_sender\<lparr>s_closed := True\<rparr>) :: script component"
      "demo_client\<lparr>c_closed := True\<rparr>"] by simp

subsection \<open>Health of a client\<close>

text \<open>A component that must be reported as dead.\<close>

fun component_down :: "'w component \<Rightarrow> bool" where
  "component_down (CSender s) =
     (s_closed s \<or> s_state s \<in> {StateReconnecting, StateFailed} \<or> s_created s = 0 \<and> s_lastErr s \<noteq> None)"
| "component_down (CListener l) = (\<exists>st \<in> set (l_states l). l_closed l \<or> st \<noteq> StateConnected)"
| "component_down (CRequestReply r) = (r_closed r \<or> r_state r = StateFailed)"

fun component_ok :: "'w component \<Rightarrow> bool" where
  "component_ok (CSender s) = chan_ok (s_pool s)"
| "component_ok _ = True"

text \<open>The contract of a probe: it returns, it reports what is down and it repairs nothing.\<close>

locale health_probe =
  fixes prb :: "'c \<Rightarrow> (ConnectionStatus list \<times> 'c) option"
    and down :: "'c \<Rightarrow> bool"
    and okay :: "'c \<Rightarrow> bool"
  assumes probe_returns: "okay c \<Longrightarrow> \<exists>es c'. prb c = Some (es, c') \<and> okay c'"
    and probe_reports: "down c \<Longrightarrow> prb c = Some (es, c') \<Longrightarrow> \<exists>e \<in> set es. \<not> Alive e"
    and probe_keeps: "prb c = Some (es, c') \<Longrightarrow> down c' = down c"
begin

lemma down_not_alive: "down c \<Longrightarrow> prb c = Some (es, c') \<Longrightarrow> \<not> list_all Alive es"
  using probe_reports by (fastforce simp: list_all_iff)

end

lemma sender_probe_shape:
  assumes "senderHealthProber s = Some (es, s')"
  shows "s_closed s' = s_closed s \<and> s_state s' = s_state s \<and> s_created s' = s_created s \<and>
    s_lastErr s' = s_lastErr s \<and> (chan_ok (s_pool s) \<longrightarrow> chan_ok (s_pool s'))"
proof -
  have "chan_ok pool'" if "try_send conn pool = Some pool'" for conn and pool pool' :: "connection chan"
    using chan.send_Some [OF that] by simp
  then show ?thesis using assms
    by (auto simp: senderHealthProber_def Let_def split: if_splits option.splits prod.splits)
qed

lemma listener_probe_reports:
  assumes "st \<in> set (l_states l)" and "l_closed l \<or> st \<noteq> StateConnected"
  shows "\<exists>e \<in> set (listenerHealthProber l). \<not> Alive e"
proof -
  from assms(1) obtain i where i: "i < length (l_states l)" "l_states l ! i = st" by (auto simp: in_set_conv_nth)
  with assms(2) have "\<not> Alive (consumer_entry l i)" by (auto simp: consumer_entry_def Let_def)
  with i(1) show ?thesis by (auto simp: listenerHealthProber_def)
qed

interpretation component_health: health_probe probe component_down component_ok
proof
  fix c :: "'a component"
  assume ok: "component_ok c"
  show "\<exists>es c'. probe c = Some (es, c') \<and> component_ok c'"
  proof (cases c)
    case (CSender s)
    have "senderHealthProber s \<noteq> None"
      using ok CSender by (auto simp: senderHealthProber_def Let_def split: option.splits elim: probe_rotates)
    then obtain es s' where p: "senderHealthProber s = Some (es, s')" by auto
    from sender_probe_shape [OF p] ok CSender p show ?thesis by auto
  qed simp_all
next
  fix c :: "'a component" and es c'
  assume "component_down c" and "probe c = Some (es, c')"
  then show "\<exists>e \<in> set es. \<not> Alive e"
    by (cases c) (auto simp: senderHealthProber_def requestReplyHealthProber_def Let_def
        split: if_splits option.splits intro: listener_probe_reports)
next
  fix c :: "'a component" and es c'
  assume "probe c = Some (es, c')"
  then show "component_down c' = component_down c"
    by (cases c) (auto dest!: sender_probe_shape)
qed

lemma probe_all_sound:
  assumes "\<forall>x \<in> set st. component_ok x" and "\<forall>a \<in> set as. a < length st"
  shows "\<exists>es st'. probe_all as st = Some (es, st') \<and> map component_down st' = map component_down st \<and>
    ((\<exists>a \<in> set as. component_down (st ! a)) \<longrightarrow> \<not> list_all Alive es)"
  using assms
proof (induction as arbitrary: st)
  case Nil
  then show ?case by simp
next
  case (Cons a as)
  then have a: "a < length st" "component_ok (st ! a)" by simp_all
  from component_health.probe_returns [OF a(2)] obtain es x where
    p: "probe (st ! a) = Some (es, x)" "component_ok x" by blast
  have same: "map component_down (st[a := x]) = map component_down st"
    using component_health.probe_keeps [OF p(1)] a(1) by (simp add: map_update list_update_same_conv)
  have "\<forall>y \<in> set (st[a := x]). component_ok y"
    using Cons.prems(1) p(2) set_update_subset_insert [of st a x] by auto
  from Cons.IH [OF this] Cons.prems(2) obtain es' st' where
    r: "probe_all as (st[a := x]) = Some (es', st')" "map component_down st' = map component_down (st[a := x])"
      "(\<exists>b \<in> set as. component_down (st[a := x] ! b)) \<longrightarrow> \<not> list_all Alive es'" by auto
  have "component_down (st[a := x] ! b) = component_down (st ! b)" if "b < length st" for b
    using arg_cong [OF same, of "\<lambda>xs. xs ! b"] that by simp
  then have "\<not> list_all Alive (es @ es')" if "\<exists>b \<in> set (a # as). component_down (st ! b)"
    using that r(3) Cons.prems(2) component_health.down_not_alive [OF _ p(1)] by auto
  with p(1) r(1,2) same show ?case by simp
qed

text \<open>
  C28: \<^verbatim>\<open>Client.Health\<close>. On a client whose pools are within their capacity \<^verbatim>\<open>Health\<close> always
  returns, and \<^verbatim>\<open>Healthy\<close> is true exactly when every entry is alive. It is false whenever
  the client is closed (the first entry then says so) or any of its components is down:
  a sender that is closed, reconnecting, failed, or left without connections by an error;
  a listener that is closed or has a consumer that is not connected; a request-reply
  client that is closed or failed. Probing does not change which components are down.
\<close>

theorem client_health_sound:
  assumes "client_ok c" and "\<forall>x \<in> set (store c). component_ok x"
  shows "\<exists>h c'. Client_Health c = Some (h, c') \<and> (Healthy h \<longleftrightarrow> (\<forall>d \<in> set (Details h). Alive d)) \<and>
    (c_closed c \<longrightarrow> Component (hd (Details h)) = ''client'' \<and> Reason (hd (Details h)) = ''client is closed'') \<and>
    (c_closed c \<or> (\<exists>x \<in> set (store c). component_down x) \<longrightarrow> \<not> Healthy h) \<and>
    map component_down (store c') = map component_down (store c)"
proof -
  have "\<forall>a \<in> set (healthProbers c). a < length (store c)" using assms(1) by (simp add: client_ok_def)
  from probe_all_sound [OF assms(2) this] obtain es st where
    p: "probe_all (healthProbers c) (store c) = Some (es, st)" "map component_down st = map component_down (store c)"
      "(\<exists>a \<in> set (healthProbers c). component_down (store c ! a)) \<longrightarrow> \<not> list_all Alive es" by blast
  have "(\<exists>x \<in> set (store c). component_down x) \<longrightarrow> \<not> list_all Alive es"
    using p(3) assms(1) by (auto simp: client_ok_def in_set_conv_nth)
  with p(1,2) show ?thesis by (auto simp: Client_Health_def Let_def list_all_iff)
qed

theorem client_health_sound_witness:
  "\<exists>h c'. Client_Health (snd (NewListener ''Q'' [] demo_client)) = Some (h, c') \<and> \<not> Healthy h"
proof -
  let ?c = "snd (NewListener ''Q'' [] demo_client)"
  have st: "store ?c = [CListener (initStates (new_listener (applyDefaults demo_config) ''Q''))]"
    by (simp add: NewListener_def add_component_def register_def registerHealthProber_def demo_client_def Let_def)
  have "client_ok ?c" by (intro factories_ok) (simp add: demo_client_def client_ok_def)
  moreover have "\<forall>x \<in> set (store ?c). component_ok x" by (simp add: st)
  moreover have "\<exists>x \<in> set (store ?c). component_down x"
    by (simp add: st initStates_def new_listener_def demo_config_def zero_config_def)
  ultimately show ?thesis using client_health_sound [of ?c] by blast
qed

end
