(* ===== verification/Example_Programs.thy ===== *)
theory Example_Programs
  imports MQ_Client
begin

text \<open>
  The two programs of \<^verbatim>\<open>src/examples\<close>, which put the library's components together: their
  configuration from environment variables, the request-reply program with its replier (a
  listener that answers through a sender) and its requester, and the send-receive program
  with its sender loop and its counting handler. \<^verbatim>\<open>log.Fatal\<close> ends the program: \<^term>\<open>Inl\<close> of
  the text it prints. \<^verbatim>\<open>log.Printf\<close> changes nothing the programs read and has no
  counterpart. \<^verbatim>\<open>os.Getenv\<close> is a function, empty for a variable that is not set; the
  Unicode case mappings of the \<^verbatim>\<open>strings\<close> package are parameters.
\<close>

subsection \<open>Environment variables\<close>

definition or_exit :: "string + 'a \<Rightarrow> ('a \<Rightarrow> string + 'b) \<Rightarrow> string + 'b" where
  "or_exit x k = (case x of Inl text \<Rightarrow> Inl text | Inr v \<Rightarrow> k v)"

definition requireEnv :: "(string \<Rightarrow> string) \<Rightarrow> string \<Rightarrow> string + string" where
  "requireEnv getenv key =
     (let v = getenv key in
      if v = [] then Inl (''required environment variable '' @ key @ '' is not set'') else Inr v)"

text \<open>\<^verbatim>\<open>strconv.Atoi\<close> on a 64-bit platform: an optional sign and decimal digits, within range.\<close>

fun decimal :: "nat \<Rightarrow> string \<Rightarrow> nat option" where
  "decimal n [] = Some n"
| "decimal n (c # cs) =
     (if of_char c \<in> {48 .. (57 :: nat)} then decimal (10 * n + (of_char c - 48)) cs else None)"

definition Atoi :: "string \<Rightarrow> int option" where
  "Atoi s =
     (let neg = (s \<noteq> [] \<and> hd s = CHR ''-'');
          digits = (if s \<noteq> [] \<and> (hd s = CHR ''-'' \<or> hd s = CHR ''+'') then tl s else s) in
      if digits = [] then None
      else (case decimal 0 digits of
              None \<Rightarrow> None
            | Some n \<Rightarrow> (let i = (if neg then - int n else int n) in if in_int64 i then Some i else None)))"

definition intEnv :: "(string \<Rightarrow> string) \<Rightarrow> string \<Rightarrow> int \<Rightarrow> string + int" where
  "intEnv getenv key defaultVal =
     (let v = getenv key;
          bad = Inl (''environment variable '' @ key @ '' must be a positive integer, got '' @ quote v) in
      if v = [] then Inr defaultVal
      else (case Atoi v of None \<Rightarrow> bad | Some n \<Rightarrow> if n < 1 then bad else Inr n))"

subsection \<open>The request-reply program\<close>

definition rr_configFromEnv :: "(string \<Rightarrow> string) \<Rightarrow> string + Config" where
  "rr_configFromEnv getenv =
     (let modelQueue = (if getenv ''MQ_MODEL_QUEUE'' = [] then ''DEV.APP.MODEL.QUEUE''
                        else getenv ''MQ_MODEL_QUEUE'') in
      or_exit (requireEnv getenv ''MQ_QUEUE_MANAGER'') (\<lambda>qm.
      or_exit (requireEnv getenv ''MQ_HOST'') (\<lambda>host.
      or_exit (requireEnv getenv ''MQ_PORT'') (\<lambda>port.
      or_exit (requireEnv getenv ''MQ_CHANNEL'') (\<lambda>channel.
      Inr (zero_config\<lparr>QueueManagerName := qm, ConnectionName := host @ ''('' @ port @ '')'',
             ChannelName := channel, Username := getenv ''MQ_USERNAME'',
             Password := getenv ''MQ_PASSWORD'', ModelQueue := modelQueue\<rparr>))))))"

definition rrModeLabel :: "string \<Rightarrow> string" where
  "rrModeLabel mode = (if mode = ''fixed'' then ''FixedQueueSelector'' else ''TemporaryQueue'')"

text \<open>The settings \<^verbatim>\<open>main\<close> reads before it creates the client.\<close>

record rr_settings =
  rr_cfg :: Config
  requestQueue :: string
  replyQueue :: string
  rrMode :: string
  msgCount :: int
  rr_timeout :: duration

definition rr_setup :: "(string \<Rightarrow> string) \<Rightarrow> (string \<Rightarrow> string) \<Rightarrow> string + rr_settings" where
  "rr_setup toLower getenv =
     or_exit (rr_configFromEnv getenv) (\<lambda>cfg.
     or_exit (requireEnv getenv ''MQ_REQUEST_QUEUE'') (\<lambda>reqQ.
     let repQ = getenv ''MQ_REPLY_QUEUE''; mode = toLower (getenv ''MQ_RR_MODE'') in
     or_exit (intEnv getenv ''MQ_MSG_COUNT'' 3) (\<lambda>n.
     or_exit (intEnv getenv ''MQ_TIMEOUT_SECS'' 10) (\<lambda>secs.
     if mode = ''fixed'' \<and> repQ = [] then Inl ''MQ_REPLY_QUEUE must be set when MQ_RR_MODE=fixed''
     else Inr \<lparr>rr_cfg = cfg, requestQueue = reqQ, replyQueue = repQ, rrMode = mode, msgCount = n,
                rr_timeout = go_int64 (secs * second)\<rparr>))))"

text \<open>The creator of the replier's answer, and its handler: the sender and the counter are its variables.\<close>

definition bytes_string :: "bytes \<Rightarrow> string" where
  "bytes_string bs = map (\<lambda>b. char_of (unat b)) bs"

definition reply_creator :: "string \<Rightarrow> Message \<Rightarrow> 'w MessageCreator" where
  "reply_creator response msg reply w =
     (Returns (None, reply\<lparr>Body := string_bytes response, CorrelationID := CorrelationID msg\<rparr>), w)"

definition replier ::
  "'w env \<Rightarrow> (string \<Rightarrow> string) \<Rightarrow> ctx \<Rightarrow> Message \<Rightarrow> Sender \<times> 32 word \<Rightarrow> 'w io \<Rightarrow>
   (go_error option outcome \<times> (Sender \<times> 32 word) \<times> 'w io) option" where
  "replier env toUpper ctx msg st io =
     (case st of (replierSender, repliedCount) \<Rightarrow>
      let replyTo = ReplyToQueue msg in
      if replyTo = [] then Some (Returns None, st, io)
      else
        (let response = ''ECHO: '' @ toUpper (bytes_string (Body msg)) in
         case SendWithCreator env ctx replyTo (Some (reply_creator response msg)) replierSender io of
           None \<Rightarrow> None
         | Some (Panics v, s', io') \<Rightarrow> Some (Panics v, (s', repliedCount), io')
         | Some (Returns (Inl sendErr), s', io') \<Rightarrow>
             Some (Returns (Some (wrap_error ''replier: failed to send response'' sendErr)), (s', repliedCount), io')
         | Some (Returns (Inr _), s', io') \<Rightarrow> Some (Returns None, (s', repliedCount + 1), io')))"

text \<open>The client the requester uses, and its loop: \<open>k\<close> requests are left of \<open>n\<close>. The dash is UTF-8.\<close>

definition rr_client :: "rr_settings \<Rightarrow> 'w Client \<Rightarrow> nat \<times> 'w Client" where
  "rr_client opts c =
     (if rrMode opts = ''fixed'' then NewRequestReplyClientFixed (requestQueue opts) (replyQueue opts) [] c
      else NewRequestReplyClient (requestQueue opts) [] c)"

definition request_payload :: "int \<Rightarrow> int \<Rightarrow> string" where
  "request_payload i n =
     ''request '' @ itoa (i + 1) @ '' of '' @ itoa n @ [CHR '' '', CHR 0xE2, CHR 0x80, CHR 0x94] @
     '' hello from commons-mq-go''"

fun requester ::
  "'w env \<Rightarrow> ctx \<Rightarrow> duration \<Rightarrow> int \<Rightarrow> nat \<Rightarrow> RequestReplyClient \<Rightarrow> 'w io \<Rightarrow>
   (go_error + Message) list outcome \<times> RequestReplyClient \<times> 'w io" where
  "requester env background timeout n 0 r io = (Returns [], r, io)"
| "requester env background timeout n (Suc k) r io =
     (case RequestReply env background (request_payload (n - int (Suc k)) n) timeout r io of
        (Panics v, r1, io1) \<Rightarrow> (Panics v, r1, io1)
      | (Returns x, r1, io1) \<Rightarrow>
          (case requester env background timeout n k r1 io1 of
             (Panics v, r2, io2) \<Rightarrow> (Panics v, r2, io2)
           | (Returns xs, r2, io2) \<Rightarrow> (Returns (x # xs), r2, io2)))"

subsection \<open>The send-receive program\<close>

definition sr_configFromEnv :: "(string \<Rightarrow> string) \<Rightarrow> string + Config" where
  "sr_configFromEnv getenv =
     or_exit (requireEnv getenv ''MQ_QUEUE'') (\<lambda>queue.
     or_exit (requireEnv getenv ''MQ_QUEUE_MANAGER'') (\<lambda>qm.
     or_exit (requireEnv getenv ''MQ_HOST'') (\<lambda>host.
     or_exit (requireEnv getenv ''MQ_PORT'') (\<lambda>port.
     or_exit (requireEnv getenv ''MQ_CHANNEL'') (\<lambda>channel.
     Inr (zero_config\<lparr>QueueManagerName := qm, ConnectionName := host @ ''('' @ port @ '')'',
            ChannelName := channel, Username := getenv ''MQ_USERNAME'',
            Password := getenv ''MQ_PASSWORD'', InputQueue := queue, OutputQueue := queue\<rparr>))))))"

text \<open>What \<^verbatim>\<open>main\<close> reads before it creates the client: the configuration and the number of messages.\<close>

definition sr_setup :: "(string \<Rightarrow> string) \<Rightarrow> string + Config \<times> int" where
  "sr_setup getenv =
     or_exit (sr_configFromEnv getenv) (\<lambda>cfg.
     or_exit (intEnv getenv ''MQ_MSG_COUNT'' 5) (\<lambda>msgCount. Inr (cfg, msgCount)))"

text \<open>
  The handler's variables: the atomic counter and the 32-bit counter of the wait group, to
  which \<^verbatim>\<open>main\<close> adds the number of messages it will send. A change that leaves the wait
  group's counter negative panics.
\<close>

record sr_counters =
  received_count :: "32 word"
  allReceived :: int

definition negative_counter :: string where
  "negative_counter = ''sync: negative WaitGroup counter''"

definition sr_start :: "int \<Rightarrow> sr_counters outcome" where
  "sr_start n =
     (if go_int32 n < 0 then Panics negative_counter
      else Returns \<lparr>received_count = 0, allReceived = go_int32 n\<rparr>)"

definition sr_handler :: "Message \<Rightarrow> sr_counters \<Rightarrow> go_error option outcome \<times> sr_counters" where
  "sr_handler msg st =
     (let st' = st\<lparr>received_count := received_count st + 1, allReceived := go_int32 (allReceived st - 1)\<rparr> in
      (if allReceived st' < 0 then Panics negative_counter else Returns None, st'))"

definition send_payload :: "int \<Rightarrow> int \<Rightarrow> string" where
  "send_payload i n = ''hello from commons-mq-go, message '' @ itoa (i + 1) @ '' of '' @ itoa n"

fun sr_send_loop ::
  "'w env \<Rightarrow> ctx \<Rightarrow> int \<Rightarrow> nat \<Rightarrow> Sender \<Rightarrow> 'w io \<Rightarrow>
   ((go_error + string) list outcome \<times> Sender \<times> 'w io) option" where
  "sr_send_loop env background n 0 s io = Some (Returns [], s, io)"
| "sr_send_loop env background n (Suc k) s io =
     (case Send env background (send_payload (n - int (Suc k)) n) s io of
        None \<Rightarrow> None
      | Some (Panics v, s1, io1) \<Rightarrow> Some (Panics v, s1, io1)
      | Some (Returns x, s1, io1) \<Rightarrow>
          (case sr_send_loop env background n k s1 io1 of
             None \<Rightarrow> None
           | Some (Panics v, s2, io2) \<Rightarrow> Some (Panics v, s2, io2)
           | Some (Returns xs, s2, io2) \<Rightarrow> Some (Returns (x # xs), s2, io2)))"

subsection \<open>Numbers\<close>

lemma decimal_append: "decimal n (xs @ ys) = Option.bind (decimal n xs) (\<lambda>m. decimal m ys)"
  by (induction xs arbitrary: n) auto

lemma decimal_nat_text: "decimal 0 (nat_text n) = Some n"
proof (induction n rule: nat_text.induct)
  case (1 n)
  show ?case
  proof (cases "n < 10")
    case True
    then show ?thesis by (subst nat_text.simps) simp
  next
    case False
    with 1 show ?thesis by (subst nat_text.simps) (simp add: decimal_append)
  qed
qed

lemma nat_text_digits: "nat_text n \<noteq> []" "\<forall>c \<in> set (nat_text n). of_char c \<in> {48 .. (57 :: nat)}"
proof (induction n rule: nat_text.induct)
  case (1 n)
  { case 1
    show ?case by (subst nat_text.simps) simp }
  { case 2
    with 1 show ?case by (subst nat_text.simps) (auto split: if_splits) }
qed

lemma Atoi_itoa: "in_int64 n \<Longrightarrow> Atoi (itoa n) = Some n"
proof -
  assume n: "in_int64 n"
  have "hd (nat_text m) \<noteq> CHR ''-'' \<and> hd (nat_text m) \<noteq> CHR ''+''" for m
  proof -
    have "of_char (hd (nat_text m)) \<in> {48 .. (57 :: nat)}" using nat_text_digits [of m] by (meson hd_in_set)
    then show ?thesis by auto
  qed
  then show ?thesis
    using n nat_text_digits(1) by (auto simp: Atoi_def itoa_def decimal_nat_text Let_def)
qed

subsection \<open>Starting up\<close>

lemma or_exit_Inr: "or_exit x k = Inr b \<longleftrightarrow> (\<exists>a. x = Inr a \<and> k a = Inr b)"
  by (cases x) (simp_all add: or_exit_def)

lemma requireEnv_Inr: "requireEnv getenv key = Inr v \<longleftrightarrow> getenv key \<noteq> [] \<and> v = getenv key"
  by (auto simp: requireEnv_def Let_def)

text \<open>A value \<^verbatim>\<open>intEnv\<close> accepts.\<close>

definition int_var_ok :: "string \<Rightarrow> bool" where
  "int_var_ok v \<longleftrightarrow> v = [] \<or> (\<exists>n \<ge> 1. Atoi v = Some n)"

lemma intEnv_Inr:
  "intEnv getenv key d = Inr n \<longleftrightarrow>
     int_var_ok (getenv key) \<and> n = (if getenv key = [] then d else the (Atoi (getenv key)))"
  by (auto simp: intEnv_def int_var_ok_def Let_def split: option.splits if_splits)

lemma client_accepts:
  assumes "QueueManagerName c \<noteq> []" and "ConnectionName c \<noteq> []" and "ChannelName c \<noteq> []" and "ProducerTTL c = 0"
  shows "\<exists>cl. NewClient c = Inr cl"
proof -
  have "Validate (applyDefaults c) = None" using assms by (simp add: Validate_None validation_errors_Nil)
  then show ?thesis by (simp add: NewClient_def Let_def)
qed

text \<open>
  How the example programs start. The request-reply program gets past its settings exactly
  when the five required variables are set, the two numbers are unset or positive decimal
  integers that fit 64 bits, and the reply queue is set in fixed mode; a number written in
  decimal is read back as that number. From then on, and likewise in the send-receive program,
  the configuration is one \<^verbatim>\<open>NewClient\<close> accepts and the number of messages is positive; the
  send-receive program sends to the queue it listens on.
\<close>

theorem example_setup:
  "((\<exists>st. rr_setup toLower getenv = Inr st) \<longleftrightarrow>
     (\<forall>key \<in> {''MQ_QUEUE_MANAGER'', ''MQ_HOST'', ''MQ_PORT'', ''MQ_CHANNEL'', ''MQ_REQUEST_QUEUE''}. getenv key \<noteq> []) \<and>
     int_var_ok (getenv ''MQ_MSG_COUNT'') \<and> int_var_ok (getenv ''MQ_TIMEOUT_SECS'') \<and>
     (toLower (getenv ''MQ_RR_MODE'') = ''fixed'' \<longrightarrow> getenv ''MQ_REPLY_QUEUE'' \<noteq> [])) \<and>
   (rr_setup toLower getenv = Inr st \<longrightarrow>
     (\<exists>cl. NewClient (rr_cfg st) = Inr cl) \<and> 1 \<le> msgCount st \<and> requestQueue st \<noteq> [] \<and>
     (rrMode st = ''fixed'' \<longrightarrow> replyQueue st \<noteq> [])) \<and>
   (sr_setup getenv = Inr (cfg0, n0) \<longrightarrow>
     (\<exists>cl. NewClient cfg0 = Inr cl) \<and> InputQueue cfg0 \<noteq> [] \<and> OutputQueue cfg0 = InputQueue cfg0 \<and> 1 \<le> n0) \<and>
   (1 \<le> n \<and> n < 2 ^ 63 \<and> getenv key = itoa n \<longrightarrow> intEnv getenv key d = Inr n)"
proof -
  note env = or_exit_Inr requireEnv_Inr intEnv_Inr Let_def
  have "(\<exists>st. rr_setup toLower getenv = Inr st) \<longleftrightarrow>
     (\<forall>key \<in> {''MQ_QUEUE_MANAGER'', ''MQ_HOST'', ''MQ_PORT'', ''MQ_CHANNEL'', ''MQ_REQUEST_QUEUE''}. getenv key \<noteq> []) \<and>
     int_var_ok (getenv ''MQ_MSG_COUNT'') \<and> int_var_ok (getenv ''MQ_TIMEOUT_SECS'') \<and>
     (toLower (getenv ''MQ_RR_MODE'') = ''fixed'' \<longrightarrow> getenv ''MQ_REPLY_QUEUE'' \<noteq> [])"
    by (auto simp: rr_setup_def rr_configFromEnv_def env)
  moreover have "(\<exists>cl. NewClient (rr_cfg st) = Inr cl) \<and> 1 \<le> msgCount st \<and> requestQueue st \<noteq> [] \<and>
     (rrMode st = ''fixed'' \<longrightarrow> replyQueue st \<noteq> [])" if "rr_setup toLower getenv = Inr st"
    using that
    by (auto simp: rr_setup_def rr_configFromEnv_def env int_var_ok_def zero_config_def split: if_splits
        intro!: client_accepts)
  moreover have "(\<exists>cl. NewClient cfg0 = Inr cl) \<and> InputQueue cfg0 \<noteq> [] \<and> OutputQueue cfg0 = InputQueue cfg0 \<and> 1 \<le> n0"
    if "sr_setup getenv = Inr (cfg0, n0)"
    using that by (auto simp: sr_setup_def sr_configFromEnv_def env zero_config_def int_var_ok_def intro!: client_accepts)
  moreover have "intEnv getenv key d = Inr n" if "1 \<le> n \<and> n < 2 ^ 63 \<and> getenv key = itoa n"
    using that Atoi_itoa [of n] nat_text_digits(1) by (auto simp: intEnv_Inr int_var_ok_def in_int64_def itoa_def)
  ultimately show ?thesis by blast
qed

definition demo_getenv :: "string \<Rightarrow> string" where
  "demo_getenv key = (if key = ''MQ_MSG_COUNT'' then ''12'' else if key = ''MQ_TIMEOUT_SECS'' then [] else ''X'')"

theorem example_setup_witness:
  "\<exists>st. rr_setup id demo_getenv = Inr st \<and> (\<exists>cl. NewClient (rr_cfg st) = Inr cl) \<and> 1 \<le> msgCount st"
proof -
  have "int_var_ok (demo_getenv ''MQ_MSG_COUNT'')" "int_var_ok (demo_getenv ''MQ_TIMEOUT_SECS'')"
    by (auto simp: int_var_ok_def demo_getenv_def Atoi_def in_int64_def)
  then have "\<exists>st. rr_setup id demo_getenv = Inr st"
    using example_setup [THEN conjunct1, of id demo_getenv] by (simp add: demo_getenv_def)
  then obtain st where "rr_setup id demo_getenv = Inr st" by blast
  then show ?thesis using example_setup [of id demo_getenv st] by blast
qed

subsection \<open>The replier\<close>

lemma reply_creator_gives:
  "creator_gives (Some (reply_creator response msg)) x \<longleftrightarrow>
     x = Returns (None, empty_message\<lparr>Body := string_bytes response, CorrelationID := CorrelationID msg\<rparr>)"
  by (auto simp: creator_gives_def run_creator_def reply_creator_def)

text \<open>
  C23: the replier answers every request. For a request as a listener delivers it, with the 24-byte
  correlation id of its descriptor, the handler returns and leaves the sender's pool sound.
  A request without a reply-to queue is skipped. Otherwise the handler returns nil exactly when
  one answer was put, and counts it then; whatever it puts, it puts to the reply-to queue of the
  request, with the request's correlation id, so that a requester that filters by that id gets
  it, and with the request's body in upper case after \<^verbatim>\<open>ECHO: \<close>.
\<close>

theorem replier_echo:
  assumes "sender_inv 0 s" and "msg = messageFromMQMD md body"
    and "length (CorrelId md) = 24" and "length (CorrelId (newMQMD env)) = 24"
  shows "\<exists>r s' n' io'. replier env toUpper ctx msg (s, n) io = Some (Returns r, (s', n'), io') \<and> sender_inv 0 s' \<and>
    (if ReplyToQ md = [] then r = None \<and> n' = n \<and> io' = io
     else n' = n + of_bool (r = None) \<and> good_puts io' = good_puts io + of_bool (r = None) \<and>
       (\<exists>seg. queue_trace io' = queue_trace io @ seg \<and>
          (\<forall>h name oo x. EOpen h name oo x \<in> set seg \<longrightarrow> name = ReplyToQ md) \<and>
          (\<forall>q d pmo b x. EPut q d pmo b x \<in> set seg \<longrightarrow>
             CorrelId d = CorrelId md \<and> b = string_bytes (''ECHO: '' @ toUpper (bytes_string body)))))"
proof (cases "ReplyToQ md = []")
  case True
  with assms(1,2) show ?thesis by (simp add: replier_def)
next
  case False
  let ?response = "''ECHO: '' @ toUpper (bytes_string body)"
  let ?creator = "Some (reply_creator ?response msg)"
  let ?answer = "empty_message\<lparr>Body := string_bytes ?response, CorrelationID := CorrelationID msg\<rparr>"
  from SendWithCreator_progress [OF assms(1), of env ctx "ReplyToQ md" ?creator io] obtain x s' io' where
    run: "SendWithCreator env ctx (ReplyToQ md) ?creator s io = Some (x, s', io')"
      "good_puts io' = good_puts io + (if \<exists>msgID. x = Returns (Inr msgID) then 1 else 0)"
      "case x of Returns _ \<Rightarrow> sender_inv 0 s' \<and> open_spans (s_tel s') = open_spans (s_tel s) | Panics _ \<Rightarrow> sender_inv 1 s'"
    by blast
  have "x \<noteq> Panics v" for v
    using SendWithCreator_panics [of env ctx "ReplyToQ md" ?creator s io v s' io'] run(1) by (auto simp: reply_creator_gives)
  then obtain y where y: "x = Returns y" by (cases x) auto
  from assms(3) have "CorrelId md \<noteq> []" by auto
  then have correl: "CorrelId (put_descriptor env (s_cfg s) ?answer) = CorrelId md"
    using assms by (simp add: put_descriptor_fields apply_correlation_hex go_copy_full)
  from SendWithCreator_events [OF run(1)] False have ev: "\<exists>seg. queue_trace io' = queue_trace io @ seg \<and>
      (\<forall>h name oo x. EOpen h name oo x \<in> set seg \<longrightarrow> name = ReplyToQ md) \<and>
      (\<forall>q d pmo b x. EPut q d pmo b x \<in> set seg \<longrightarrow> CorrelId d = CorrelId md \<and> b = string_bytes ?response)"
    unfolding send_events_def reply_creator_gives
    by (elim exE conjE) (rule exI, rule conjI, assumption, use correl in \<open>force simp: put_event_def\<close>)
  show ?thesis
  proof (cases y)
    case (Inl e)
    with run y False assms(2) ev show ?thesis by (simp add: replier_def)
  next
    case (Inr msgID)
    with run y False assms(2) ev show ?thesis by (simp add: replier_def)
  qed
qed

theorem replier_echo_witness:
  "\<exists>r s' n' io'. replier script_env id 0 (messageFromMQMD (script_mqmd\<lparr>ReplyToQ := ''Q.REPLY''\<rparr>) [104, 105])
     (demo_sender, 0) (start_io quiet_script) = Some (Returns r, (s', n'), io') \<and> sender_inv 0 s'"
proof -
  have "length (CorrelId (script_mqmd\<lparr>ReplyToQ := ''Q.REPLY''\<rparr>)) = 24" "length (CorrelId (newMQMD script_env)) = 24"
    by (simp_all add: script_env_def script_mqmd_def)
  from replier_echo [OF demo_sender_inv refl this, where toUpper = id and ctx = 0 and n = 0 and io = "start_io quiet_script"] show ?thesis by blast
qed

subsection \<open>The loops of the programs\<close>

text \<open>
  However its requests end, the requester has one result per request and leaves no
  connection, queue handle or span behind.
\<close>

lemma requester_clean:
  assumes "requester env background timeout n k r io = (x, r', io')"
  shows "link_closed io io' \<and> open_handles (trace io') = open_handles (trace io) \<and>
    open_spans (r_tel r') = open_spans (r_tel r) \<and> (case x of Returns xs \<Rightarrow> length xs = k | Panics _ \<Rightarrow> True)"
  using assms
proof (induction k arbitrary: r io x r' io')
  case 0
  then show ?case by (auto simp: link_closed_refl)
next
  case (Suc k)
  obtain y r1 io1 where one: "RequestReply env background (request_payload (n - int (Suc k)) n) timeout r io = (y, r1, io1)"
    by (cases "RequestReply env background (request_payload (n - int (Suc k)) n) timeout r io")
  note clean = RequestReplyWithCreator_clean [OF one [unfolded RequestReply_def]]
  show ?case
  proof (cases y)
    case (Panics v)
    with Suc.prems one clean show ?thesis by auto
  next
    case (Returns z)
    obtain zs r2 io2 where rest: "requester env background timeout n k r1 io1 = (zs, r2, io2)"
      by (cases "requester env background timeout n k r1 io1")
    from Suc.prems one Returns rest Suc.IH [OF rest] clean show ?thesis
      by (cases zs) (auto intro: link_closed_trans)
  qed
qed

text \<open>
  The send loop of the send-receive program ends with one result per message, as many of
  them message ids as messages were put, and leaves the pool sound.
\<close>

lemma payload_never_panics: "\<not> creator_gives (Some (payload_creator payload)) (Panics v)"
  by (simp add: creator_gives_def run_creator_def payload_creator_def)

lemma sr_send_loop_outcome:
  assumes "sender_inv 0 s"
  shows "\<exists>xs s' io'. sr_send_loop env background n k s io = Some (Returns xs, s', io') \<and> length xs = k \<and>
    sender_inv 0 s' \<and> good_puts io' = good_puts io + length (filter (\<lambda>x. \<not> isl x) xs)"
  using assms
proof (induction k arbitrary: s io)
  case (Suc k)
  let ?payload = "send_payload (n - int (Suc k)) n"
  from SendWithCreator_progress [OF Suc.prems, of env background "[]" "Some (payload_creator ?payload)" io]
  obtain x s1 io1 where
    one: "Send env background ?payload s io = Some (x, s1, io1)"
      "good_puts io1 = good_puts io + (if \<exists>msgID. x = Returns (Inr msgID) then 1 else 0)"
      "case x of Returns _ \<Rightarrow> sender_inv 0 s1 \<and> open_spans (s_tel s1) = open_spans (s_tel s) | Panics _ \<Rightarrow> sender_inv 1 s1"
    unfolding Send_def by blast
  have "x \<noteq> Panics v" for v
    using SendWithCreator_panics one(1) payload_never_panics unfolding Send_def by metis
  then obtain y where y: "x = Returns y" by (cases x) auto
  with one(3) have "sender_inv 0 s1" by simp
  from Suc.IH [OF this, of io1] one(1,2) y show ?case by (cases y) auto
qed simp

text \<open>
  The handler of the send-receive program counts down from the number of messages the program
  sends: every message beyond that number, for instance one that was on the queue before, makes it panic.
\<close>

fun sr_outcomes :: "Message list \<Rightarrow> sr_counters \<Rightarrow> go_error option outcome list" where
  "sr_outcomes [] st = []"
| "sr_outcomes (msg # msgs) st = (case sr_handler msg st of (x, st') \<Rightarrow> x # sr_outcomes msgs st')"

lemma sr_outcomes_nth:
  assumes "i < length msgs" and "allReceived st < 2 ^ 31" and "- (2 ^ 31) \<le> allReceived st - int (length msgs)"
  shows "sr_outcomes msgs st ! i = (if int i < allReceived st then Returns None else Panics negative_counter)"
  using assms
proof (induction msgs arbitrary: st i)
  case (Cons msg msgs)
  then have wrap: "go_int32 (allReceived st - 1) = allReceived st - 1" by (simp add: in_int32_def)
  show ?case
  proof (cases i)
    case 0
    with wrap show ?thesis by (simp add: sr_handler_def Let_def)
  next
    case (Suc j)
    with Cons.prems Cons.IH [of j "snd (sr_handler msg st)"] wrap show ?thesis by (auto simp: sr_handler_def Let_def)
  qed
qed simp

end
