(* ===== verification/Send_Receive_Life.thy ===== *)
theory Send_Receive_Life
  imports Listener_Life Example_Programs
begin

text \<open>
  The goroutines of \<^verbatim>\<open>src/examples/send-receive/main.go\<close>: \<^verbatim>\<open>main\<close>, the one that runs
  \<^verbatim>\<open>listener.Start\<close>, with the listener's own goroutines as \<open>Listener_Life\<close> has them, and the one
  that waits for the wait group. The handler of a message is the program's \<open>sr_handler\<close>. A
  send of \<^verbatim>\<open>main\<close> shares nothing with the others and is one step; its health check, of which it
  only prints the result, has none; of the deferred \<^verbatim>\<open>client.Close\<close> the model has the \<^verbatim>\<open>close\<close> of
  the listener, as the sender is idle by then and shares nothing with the listener.
\<close>

subsection \<open>The program\<close>

text \<open>
  \<open>SSend k\<close>: \<open>k\<close> messages were sent; \<open>SSelect\<close>: the \<^verbatim>\<open>select\<close> on \<^verbatim>\<open>waitCh\<close> and the timer;
  \<open>SCancel\<close>: before \<^verbatim>\<open>cancel()\<close>; \<open>SJoin\<close>: receiving from \<^verbatim>\<open>listenerDone\<close>; \<open>SClosing\<close>: the
  deferred calls, after \<^verbatim>\<open>Start\<close> was seen to return this value.
\<close>

datatype sr_pc = SSend nat | SSelect | SCancel | SJoin | SClosing "go_error option" | SDone "go_error option"

text \<open>The waiting goroutine: before \<^verbatim>\<open>Wait\<close>, blocked in it, let go by it, \<^verbatim>\<open>waitCh\<close> closed.\<close>

datatype sr_waiter = WNone | WSpawned | WBlocked | WReleased | WClosed

text \<open>\<open>m_all\<close> is the branch the \<^verbatim>\<open>select\<close> took; \<open>m_sent\<close> whether \<^verbatim>\<open>listenerDone\<close> was sent to.\<close>

record sr_sys =
  m_pc :: sr_pc
  m_waiter :: sr_waiter
  m_count :: sr_counters
  m_listener :: lsys
  m_sent :: bool
  m_done :: "go_error option chan"
  m_all :: "bool option"

datatype sr_label =
    Listen llabel
  | Deliver nat
  | Publish
  | SendOne
  | SpawnWaiter
  | Await
  | CloseWaitCh
  | AllReceived
  | TimedOut
  | CancelCtx
  | JoinListener
  | ClientClosed

definition handling :: "nat \<Rightarrow> lsys \<Rightarrow> nat option" where
  "handling i s =
     (if i < length (x_cons s) then (case x_cons s ! i of KHandle c m \<Rightarrow> Some m | _ \<Rightarrow> None) else None)"

text \<open>What a consumer sees of the handler: a panic is recovered and becomes an error.\<close>

definition handler_answer :: "go_error option outcome \<Rightarrow> cons_label" where
  "handler_answer x =
     (case x of
        Returns None \<Rightarrow> Answer
      | Returns (Some e) \<Rightarrow> Fails e
      | Panics v \<Rightarrow> Fails (handler_panic v))"

text \<open>\<^verbatim>\<open>Done\<close> lets the waiting goroutine go when it brings the counter to zero.\<close>

definition wg_release :: "sr_counters \<Rightarrow> sr_waiter \<Rightarrow> sr_waiter" where
  "wg_release st w = (if allReceived st = 0 \<and> w = WBlocked then WReleased else w)"

definition listener_moves :: "sr_sys \<Rightarrow> llabel \<Rightarrow> bool" where
  "listener_moves s l \<longleftrightarrow>
     (case l of
        ParentDone \<Rightarrow> False
      | Consumer i c \<Rightarrow> handling i (m_listener s) = None
      | _ \<Rightarrow> start_label l \<or> (\<exists>r. m_pc s = SClosing r))"

text \<open>\<open>n\<close> is the number of messages to send, \<open>msg\<close> gives the message with a number.\<close>

fun sr_step :: "nat \<Rightarrow> (nat \<Rightarrow> Message) \<Rightarrow> sr_label \<Rightarrow> sr_sys \<Rightarrow> sr_sys option" where
  "sr_step n msg (Listen l) s =
     (if listener_moves s l then map_option (\<lambda>x. s\<lparr>m_listener := x\<rparr>) (lstep l (m_listener s)) else None)"
| "sr_step n msg (Deliver i) s =
     (case handling i (m_listener s) of
        None \<Rightarrow> None
      | Some m \<Rightarrow>
          (case sr_handler (msg m) (m_count s) of (x, st) \<Rightarrow>
             map_option (\<lambda>y. s\<lparr>m_listener := y, m_count := st, m_waiter := wg_release st (m_waiter s)\<rparr>)
               (lstep (Consumer i (handler_answer x)) (m_listener s))))"
| "sr_step n msg Publish s =
     (case x_main (m_listener s) of
        MRet r \<Rightarrow> if m_sent s then None else map_option (\<lambda>ch. s\<lparr>m_sent := True, m_done := ch\<rparr>) (try_send r (m_done s))
      | _ \<Rightarrow> None)"
| "sr_step n msg SendOne s =
     (case m_pc s of SSend k \<Rightarrow> if k < n then Some (s\<lparr>m_pc := SSend (Suc k)\<rparr>) else None | _ \<Rightarrow> None)"
| "sr_step n msg SpawnWaiter s =
     (case m_pc s of SSend k \<Rightarrow> if k < n then None else Some (s\<lparr>m_pc := SSelect, m_waiter := WSpawned\<rparr>) | _ \<Rightarrow> None)"
| "sr_step n msg Await s =
     (if m_waiter s = WSpawned
      then Some (s\<lparr>m_waiter := if allReceived (m_count s) = 0 then WReleased else WBlocked\<rparr>) else None)"
| "sr_step n msg CloseWaitCh s = (if m_waiter s = WReleased then Some (s\<lparr>m_waiter := WClosed\<rparr>) else None)"
| "sr_step n msg AllReceived s =
     (if m_pc s = SSelect \<and> m_waiter s = WClosed then Some (s\<lparr>m_pc := SCancel, m_all := Some True\<rparr>) else None)"
| "sr_step n msg TimedOut s =
     (if m_pc s = SSelect then Some (s\<lparr>m_pc := SCancel, m_all := Some False\<rparr>) else None)"
| "sr_step n msg CancelCtx s =
     (if m_pc s = SCancel
      then map_option (\<lambda>x. s\<lparr>m_listener := x, m_pc := SJoin\<rparr>) (lstep ParentDone (m_listener s)) else None)"
| "sr_step n msg JoinListener s =
     (if m_pc s = SJoin
      then map_option (\<lambda>(r, ch). s\<lparr>m_done := ch, m_pc := SClosing r\<rparr>) (try_recv (m_done s)) else None)"
| "sr_step n msg ClientClosed s =
     (case m_pc s of
        SClosing r \<Rightarrow> if x_closer (m_listener s) = XDone then Some (s\<lparr>m_pc := SDone r\<rparr>) else None
      | _ \<Rightarrow> None)"

definition sr_init :: "nat \<Rightarrow> sr_sys \<Rightarrow> bool" where
  "sr_init n s \<longleftrightarrow>
     (\<exists>concurrency st. sr_start (int n) = Returns st \<and>
        s = \<lparr>m_pc = SSend 0, m_waiter = WNone, m_count = st, m_listener = listener_start False concurrency 1,
             m_sent = False, m_done = make_chan 1, m_all = None\<rparr>)"

subsection \<open>The invariant\<close>

text \<open>How often the handler was called, and what that leaves of the two counters.\<close>

definition handler_calls :: "sr_sys \<Rightarrow> nat" where
  "handler_calls s = length (x_handled (m_listener s))"

definition counters_ok :: "nat \<Rightarrow> sr_sys \<Rightarrow> bool" where
  "counters_ok n s \<longleftrightarrow>
     0 \<le> go_int32 (int n) \<and> received_count (m_count s) = of_nat (handler_calls s) \<and>
     allReceived (m_count s) = go_int32 (int n - int (handler_calls s)) \<and>
     (m_waiter s \<in> {WReleased, WClosed} \<longrightarrow> go_int32 (int n) \<le> int (handler_calls s)) \<and>
     (m_all s = Some True \<longrightarrow> m_waiter s = WClosed)"

fun phase_ok :: "sr_pc \<Rightarrow> sr_sys \<Rightarrow> bool" where
  "phase_ok (SSend k) s \<longleftrightarrow> m_waiter s = WNone \<and> m_all s = None \<and> \<not> x_parent (m_listener s)"
| "phase_ok SSelect s \<longleftrightarrow> m_waiter s \<noteq> WNone \<and> m_all s = None \<and> \<not> x_parent (m_listener s)"
| "phase_ok SCancel s \<longleftrightarrow> m_waiter s \<noteq> WNone \<and> m_all s \<noteq> None \<and> \<not> x_parent (m_listener s)"
| "phase_ok SJoin s \<longleftrightarrow> m_waiter s \<noteq> WNone \<and> m_all s \<noteq> None \<and> x_parent (m_listener s)"
| "phase_ok (SClosing r) s \<longleftrightarrow> m_waiter s \<noteq> WNone \<and> m_all s \<noteq> None \<and> x_parent (m_listener s)"
| "phase_ok (SDone r) s \<longleftrightarrow> m_waiter s \<noteq> WNone \<and> m_all s \<noteq> None \<and> x_parent (m_listener s)"

text \<open>The channel \<^verbatim>\<open>listenerDone\<close>, and what \<^verbatim>\<open>main\<close> has taken from it.\<close>

definition joined :: "sr_sys \<Rightarrow> go_error option option" where
  "joined s = (case m_pc s of SClosing r \<Rightarrow> Some r | SDone r \<Rightarrow> Some r | _ \<Rightarrow> None)"

definition channel_ok :: "sr_sys \<Rightarrow> bool" where
  "channel_ok s \<longleftrightarrow>
     chan_cap (m_done s) = 1 \<and>
     (case joined s of
        Some r \<Rightarrow> m_sent s \<and> chan_buf (m_done s) = [] \<and> x_main (m_listener s) = MRet r
      | None \<Rightarrow> x_closer (m_listener s) = XIdle \<and>
          (if m_sent s then \<exists>r. chan_buf (m_done s) = [r] \<and> x_main (m_listener s) = MRet r
           else chan_buf (m_done s) = []))"

definition sr_inv :: "nat \<Rightarrow> sr_sys \<Rightarrow> bool" where
  "sr_inv n s \<longleftrightarrow> reachable lstep listener_init (m_listener s) \<and> x_calls (m_listener s) \<in> {[SIdle], [SRunning]} \<and>
     counters_ok n s \<and> phase_ok (m_pc s) s \<and> channel_ok s"

subsection \<open>What a step of the listener leaves alone\<close>

lemma consumer_frame:
  assumes "cons_step i c s = Some t"
  shows "x_parent t = x_parent s" "x_closer t = x_closer s" "x_main t = x_main s" "x_calls t = x_calls s"
    "length (x_cons t) = length (x_cons s)"
    "length (x_handled t) = length (x_handled s) + of_bool (handling i s \<noteq> None)"
proof -
  from assms obtain pc eff where x: "i < length (x_cons s)"
    "cons_move (ctx_done s) (x_next s) c (x_cons s ! i) = Some (pc, eff)"
    "do_eff i eff (s\<lparr>x_cons := (x_cons s)[i := pc]\<rparr>) = Some t" by (rule cons_stepE)
  from x(3) show "x_parent t = x_parent s" "x_closer t = x_closer s" "x_main t = x_main s" "x_calls t = x_calls s"
    "length (x_cons t) = length (x_cons s)"
    by (cases eff; auto split: if_splits)+
  have "(\<exists>m. eff = Handled m) \<longleftrightarrow> handling i s \<noteq> None"
    using x(1,2) by (cases "x_cons s ! i") (auto simp: handling_def move_defs split: if_splits cons_label.splits option.splits)
  with x(3) show "length (x_handled t) = length (x_handled s) + of_bool (handling i s \<noteq> None)"
    by (cases eff) (auto split: if_splits)
qed

lemma other_frame:
  assumes "lstep l s = Some t" and "\<And>i c. l \<noteq> Consumer i c"
  shows "l \<noteq> ParentDone \<Longrightarrow> x_parent t = x_parent s" "start_label l \<Longrightarrow> x_closer t = x_closer s"
    "x_handled t = x_handled s"
  using assms by (cases l; auto simp: start_label_def split: if_splits main_pc.splits option.splits)+

lemma returned_stays:
  assumes "listener_inv s" and "lstep l s = Some t" and "x_main s = MRet r"
  shows "x_main t = MRet r"
proof (cases "\<exists>i c. l = Consumer i c")
  case True
  with assms(2,3) consumer_frame(3) show ?thesis by force
next
  case False
  from assms(1,3) have "x_started s" by (simp add: listener_inv_def main_ok_def)
  with False assms(2,3) show ?thesis by (cases l) (auto split: if_splits)
qed

lemma deliver_enabled: "handling i s \<noteq> None \<Longrightarrow> lstep (Consumer i (handler_answer x)) s \<noteq> None"
  by (auto simp: handling_def cons_step_def handler_answer_def split: cons_pc.splits if_splits outcome.splits option.splits)

lemma parent_stays:
  assumes "lstep l s = Some t" and "x_parent s"
  shows "x_parent t"
proof (cases "\<exists>i c. l = Consumer i c")
  case True
  with assms consumer_frame(1) show ?thesis by force
next
  case False
  with assms show ?thesis by (cases l) (auto split: if_splits main_pc.splits option.splits)
qed

subsection \<open>The counters\<close>

lemma int32_pred: "go_int32 (go_int32 a - 1) = go_int32 (a - 1)"
proof -
  have "signed_take_bit 31 (signed_take_bit 31 a - signed_take_bit 31 1) = signed_take_bit 31 (a - 1 :: int)"
    by (rule signed_take_bit_diff)
  then show ?thesis by (simp add: go_int32_def)
qed

lemma int32_zero: "go_int32 a = 0 \<longleftrightarrow> 2 ^ 32 dvd a"
  by (simp add: go_int32_def signed_take_bit_eq_iff_take_bit_eq [of 31 a 0, simplified] take_bit_eq_0_iff)

lemma int32_mod: "2 ^ 32 dvd go_int32 a - a"
proof -
  have "take_bit 32 (go_int32 a) = take_bit 32 a" by (simp add: go_int32_def take_bit_signed_take_bit)
  then show ?thesis by (simp add: take_bit_eq_mod mod_eq_dvd_iff)
qed

lemma int32_wraps: "go_int32 (int n - int h) = 0 \<Longrightarrow> 2 ^ 32 dvd go_int32 (int n) - int h"
proof -
  assume "go_int32 (int n - int h) = 0"
  then have "(2 :: int) ^ 32 dvd int n - int h" by (simp only: int32_zero)
  from dvd_add [OF int32_mod [of "int n"] this] show ?thesis by (simp only: diff_add_cancel add_diff_eq)
qed

text \<open>A counter that reached zero was counted down at least as often as it says, or 2^32 times more.\<close>

lemma int32_again:
  assumes "go_int32 (int n - int h) = 0" and "go_int32 (int n) < int h"
  shows "go_int32 (int n) + 2 ^ 32 \<le> int h"
proof -
  from int32_wraps [OF assms(1)] have "(2 :: int) ^ 32 dvd int h - go_int32 (int n)" by (simp only: dvd_diff_commute)
  from zdvd_imp_le [OF this] assms(2) show ?thesis by simp
qed

lemma int32_reached:
  assumes "go_int32 (int n - int h) = 0" and "0 \<le> go_int32 (int n)"
  shows "go_int32 (int n) \<le> int h"
proof (rule ccontr)
  assume "\<not> ?thesis"
  then have pos: "0 < go_int32 (int n) - int h" by simp
  from zdvd_imp_le [OF int32_wraps [OF assms(1)] pos] have "2 ^ 32 \<le> go_int32 (int n) - int h" .
  with go_int32_range [of "int n"] show False by (simp add: in_int32_def)
qed

lemma counters_deliver:
  assumes "counters_ok n s" and "sr_handler msg (m_count s) = (x, st)" and "handler_calls t = Suc (handler_calls s)"
    and "m_count t = st" and "m_waiter t = wg_release st (m_waiter s)" and "m_all t = m_all s"
  shows "counters_ok n t"
proof -
  have a: "int n - int (handler_calls t) = int n - int (handler_calls s) - 1" using assms(3) by simp
  have "received_count st = received_count (m_count s) + 1" "allReceived st = go_int32 (allReceived (m_count s) - 1)"
    using assms(2) by (auto simp: sr_handler_def Let_def split: if_splits)
  then have st: "received_count st = of_nat (handler_calls t)" "allReceived st = go_int32 (int n - int (handler_calls t))"
    using assms(1) unfolding counters_ok_def a by (simp_all add: int32_pred assms(3))
  have pos: "0 \<le> go_int32 (int n)" using assms(1) by (simp add: counters_ok_def)
  from int32_reached [OF _ pos] st(2) have "go_int32 (int n) \<le> int (handler_calls t)" if "allReceived st = 0" using that by simp
  then show ?thesis
    using assms(1,3-6) st pos unfolding counters_ok_def wg_release_def by (auto split: if_splits)
qed

lemma counters_await:
  assumes "counters_ok n s" and "m_waiter s = WSpawned"
  shows "counters_ok n (s\<lparr>m_waiter := if allReceived (m_count s) = 0 then WReleased else WBlocked\<rparr>)"
  using assms int32_reached [of n "handler_calls s"]
  by (auto simp: counters_ok_def handler_calls_def)

subsection \<open>Steps keep the invariant\<close>

lemma inv_listen:
  assumes "sr_inv n s" and "sr_step n msg (Listen l) s = Some t"
  shows "sr_inv n t"
proof -
  from assms(2) obtain x where l: "listener_moves s l" "lstep l (m_listener s) = Some x" and t: "t = s\<lparr>m_listener := x\<rparr>"
    by (auto split: if_splits)
  note inv = assms(1) [unfolded sr_inv_def]
  have reach: "reachable lstep listener_init x" using inv l(2) by (blast intro: reachable.move)
  have linv: "listener_inv (m_listener s)" using inv by (blast intro: listener_reachable)
  have frame: "x_parent x = x_parent (m_listener s)"
    "length (x_handled x) = length (x_handled (m_listener s))"
    "joined s = None \<Longrightarrow> x_closer x = x_closer (m_listener s)"
    using l consumer_frame [of _ _ "m_listener s" x] other_frame [OF l(2)]
    by (cases l; force simp: listener_moves_def start_label_def joined_def)+
  have calls: "x_calls x \<in> {[SIdle], [SRunning]}"
  proof (cases "\<exists>j. l = Call j \<and> x_calls (m_listener s) = [SIdle]")
    case True
    with linv have idle: "x_main (m_listener s) = MIdle" "\<not> x_started (m_listener s)"
      by (auto simp: listener_inv_def main_ok_def calls_at_def split: if_splits)
    with inv have "joined s = None" by (auto simp: channel_ok_def split: option.splits)
    with inv linv have "\<not> x_closed (m_listener s)" by (auto simp: channel_ok_def listener_inv_def closer_sound_def)
    with True idle l(2) show ?thesis by (auto split: if_splits)
  next
    case False
    with inv l(2) consumer_frame(4) [of _ _ "m_listener s" x] show ?thesis
      by (cases l) (auto split: if_splits main_pc.splits option.splits)
  qed
  have "handler_calls t = handler_calls s" using frame(2) t by (simp add: handler_calls_def)
  then have "counters_ok n t" using inv t by (auto simp: counters_ok_def handler_calls_def)
  moreover have "phase_ok (m_pc t) t" using inv t frame(1) by (cases "m_pc s") simp_all
  moreover have "channel_ok t"
    using inv t frame(3) returned_stays [OF linv l(2)] by (auto simp: channel_ok_def joined_def split: option.splits if_splits sr_pc.splits)
  ultimately show ?thesis using reach calls t by (simp add: sr_inv_def)
qed

lemma inv_deliver:
  assumes "sr_inv n s" and "sr_step n msg (Deliver i) s = Some t"
  shows "sr_inv n t"
proof -
  from assms(2) obtain m x st y where h: "handling i (m_listener s) = Some m" "sr_handler (msg m) (m_count s) = (x, st)"
    and l: "lstep (Consumer i (handler_answer x)) (m_listener s) = Some y"
    and t: "t = s\<lparr>m_listener := y, m_count := st, m_waiter := wg_release st (m_waiter s)\<rparr>"
    by (auto split: option.splits prod.splits)
  note inv = assms(1) [unfolded sr_inv_def]
  have reach: "reachable lstep listener_init y" using inv l by (blast intro: reachable.move)
  from l have "cons_step i (handler_answer x) (m_listener s) = Some y" by simp
  note frame = consumer_frame [OF this]
  have "handler_calls t = Suc (handler_calls s)" using frame(6) h(1) t by (simp add: handler_calls_def)
  from counters_deliver [OF _ h(2) this] inv t have "counters_ok n t" by simp
  moreover have "phase_ok (m_pc t) t" using inv t frame(1) by (cases "m_pc s") (simp_all add: wg_release_def)
  moreover have "channel_ok t"
    using inv t frame(2,3) by (cases "m_pc s") (simp_all add: channel_ok_def joined_def)
  ultimately show ?thesis using reach frame(4) inv t by (simp add: sr_inv_def)
qed

lemma inv_main:
  assumes "sr_inv n s" and "sr_step n msg l s = Some t" and "\<And>k. l \<noteq> Listen k" and "\<And>i. l \<noteq> Deliver i"
  shows "sr_inv n t"
proof -
  note inv = assms(1) [unfolded sr_inv_def]
  have reach: "reachable lstep listener_init (m_listener t)"
    using inv assms(2-4) by (cases l) (auto simp del: lstep.simps split: if_splits sr_pc.splits main_pc.splits intro: reachable.move)
  have "m_listener t = m_listener s \<or> m_listener t = (m_listener s)\<lparr>x_parent := True\<rparr>"
    using assms(2-4) by (cases l) (auto split: if_splits sr_pc.splits main_pc.splits)
  then have "x_calls (m_listener t) \<in> {[SIdle], [SRunning]}" "handler_calls t = handler_calls s" using inv by (auto simp: handler_calls_def)
  moreover have "counters_ok n t"
  proof (cases "l = Await")
    case True
    with assms(2) inv counters_await [of n s] show ?thesis by (auto split: if_splits)
  next
    case False
    have count: "m_count t = m_count s"
      using assms(2-4) by (cases l) (auto split: if_splits sr_pc.splits main_pc.splits)
    have wait: "m_waiter t \<in> {WReleased, WClosed} \<Longrightarrow> m_waiter s \<in> {WReleased, WClosed}"
      using assms(2-4) False by (cases l) (auto split: if_splits sr_pc.splits main_pc.splits)
    have phase: "phase_ok (m_pc s) s" and all: "m_all s = Some True \<longrightarrow> m_waiter s = WClosed"
      using inv by (simp_all add: counters_ok_def)
    then have "m_all t = Some True \<longrightarrow> m_waiter t = WClosed"
      using assms(2-4) by (cases l; cases "m_pc s") (auto split: if_splits main_pc.splits)
    with count wait inv calculation(2) show ?thesis unfolding counters_ok_def by argo
  qed
  moreover have "phase_ok (m_pc t) t"
    using inv assms(2-4) by (cases l; cases "m_pc s") (auto split: if_splits main_pc.splits)
  moreover have "channel_ok t"
    using inv assms(2-4)
    by (cases l; cases "m_pc s") (auto simp: channel_ok_def joined_def split: if_splits main_pc.splits
        dest!: chan.send_Some chan.recv_Some)
  ultimately show ?thesis using reach by (simp add: sr_inv_def)
qed

lemma sr_inv_start: "sr_init n s \<Longrightarrow> sr_inv n s"
proof -
  assume "sr_init n s"
  then obtain k st where st: "sr_start (int n) = Returns st" and s: "s = \<lparr>m_pc = SSend 0, m_waiter = WNone, m_count = st,
      m_listener = listener_start False k 1, m_sent = False, m_done = make_chan 1, m_all = None\<rparr>"
    by (auto simp: sr_init_def)
  let ?L = "listener_start False k 1"
  have "reachable lstep listener_init ?L" by (rule reachable.start) (auto simp only: listener_init_def)
  moreover have "x_calls ?L = [SIdle]" "x_handled ?L = []" "\<not> x_parent ?L" "x_closer ?L = XIdle"
    by (simp_all add: listener_start_def)
  ultimately show ?thesis
    using st by (auto simp del: One_nat_def
        simp: sr_inv_def s counters_ok_def handler_calls_def channel_ok_def joined_def sr_start_def split: if_splits)
qed

lemma sr_inv_step: "sr_inv n s \<Longrightarrow> sr_step n msg l s = Some t \<Longrightarrow> sr_inv n t"
  using inv_listen [of n s msg _ t] inv_deliver [of n s msg _ t] inv_main [of n s msg l t] by (cases l) blast+

text \<open>What is left to do once the context is cancelled.\<close>

fun pc_left :: "sr_pc \<Rightarrow> nat" where
  "pc_left SJoin = 2"
| "pc_left (SClosing r) = 1"
| "pc_left _ = 0"

fun waiter_left :: "sr_waiter \<Rightarrow> nat" where
  "waiter_left WSpawned = 3"
| "waiter_left WBlocked = 2"
| "waiter_left WReleased = 1"
| "waiter_left _ = 0"

definition sr_rank :: "sr_sys \<Rightarrow> nat" where
  "sr_rank s = listener_rank (m_listener s) + pc_left (m_pc s) + waiter_left (m_waiter s) + of_bool (\<not> m_sent s)"

definition cancelled :: "sr_sys \<Rightarrow> bool" where
  "cancelled s \<longleftrightarrow> x_parent (m_listener s)"

lemma listener_lowers:
  assumes "sr_inv n s" and "cancelled s" and "lstep l (m_listener s) = Some x"
  shows "listener_rank x < listener_rank (m_listener s)"
  using listener_drain.rank_step [OF listener_reachable _ assms(3)] assms(1,2)
  by (simp add: sr_inv_def cancelled_def ctx_done_def)

lemma sr_rank_step:
  assumes "sr_inv n s" and "cancelled s" and "sr_step n msg l s = Some t"
  shows "sr_rank t < sr_rank s"
proof (cases l)
  case (Listen k)
  with assms(3) obtain x where "lstep k (m_listener s) = Some x" "t = s\<lparr>m_listener := x\<rparr>" by (auto split: if_splits)
  with listener_lowers [OF assms(1,2)] show ?thesis by (simp add: sr_rank_def)
next
  case (Deliver i)
  with assms(3) obtain c y st where y: "lstep (Consumer i c) (m_listener s) = Some y"
    and t: "t = s\<lparr>m_listener := y, m_count := st, m_waiter := wg_release st (m_waiter s)\<rparr>"
    by (auto split: option.splits prod.splits)
  have "waiter_left (wg_release st (m_waiter s)) \<le> waiter_left (m_waiter s)" by (simp add: wg_release_def)
  with listener_lowers [OF assms(1,2) y] t show ?thesis by (simp add: sr_rank_def)
next
  case CancelCtx
  with assms show ?thesis by (auto simp: cancelled_def split: if_splits)
qed (use assms in \<open>cases "m_pc s"; auto simp: sr_rank_def sr_inv_def cancelled_def split: if_splits main_pc.splits\<close>)+

lemma cancelled_step:
  assumes "cancelled s" and "sr_step n msg l s = Some t"
  shows "cancelled t"
  using assms parent_stays [of _ "m_listener s"]
  by (cases l) (auto simp: cancelled_def simp del: lstep.simps split: if_splits option.splits prod.splits sr_pc.splits main_pc.splits)

interpretation sr: draining_system "sr_step n msg" "sr_init n" "sr_inv n" sr_rank cancelled for n msg
  by unfold_locales (blast intro: sr_inv_start sr_inv_step sr_rank_step cancelled_step)+

subsection \<open>How the program ends\<close>

lemma sr_stuck:
  assumes "sr_inv n s" and "cancelled s" and stuck: "\<And>l. sr_step n msg l s = None"
  shows "\<exists>r. m_pc s = SDone r"
proof -
  let ?L = "m_listener s"
  note inv = assms(1) [unfolded sr_inv_def]
  have linv: "listener_inv ?L" using inv by (blast intro: listener_reachable)
  have "lstep l ?L = None" if "start_label l" for l
  proof (cases "\<exists>i c. l = Consumer i c \<and> handling i ?L \<noteq> None")
    case True
    then obtain i m where h: "handling i ?L = Some m" by blast
    obtain x st where x: "sr_handler (msg m) (m_count s) = (x, st)" by (cases "sr_handler (msg m) (m_count s)")
    with h have "lstep (Consumer i (handler_answer x)) ?L \<noteq> None" by (intro deliver_enabled) simp
    with stuck [of "Deliver i"] h x show ?thesis by simp
  next
    case False
    with that have "listener_moves s l" by (cases l) (auto simp: listener_moves_def start_label_def)
    with stuck [of "Listen l"] show ?thesis by simp
  qed
  from stuck_start [OF linv this] have "SIdle \<notin> set (x_calls ?L)" "x_main ?L = MIdle \<or> (\<exists>r. x_main ?L = MRet r)" by blast+
  with inv linv obtain r where r: "x_main ?L = MRet r"
    by (auto simp: listener_inv_def main_ok_def calls_at_def)
  have sent: "m_sent s"
  proof (rule ccontr)
    assume no: "\<not> m_sent s"
    with inv have "chan_buf (m_done s) = []" "chan_cap (m_done s) = 1" by (auto simp: channel_ok_def split: option.splits)
    with no r stuck [of Publish] show False by (simp add: try_send_def)
  qed
  show ?thesis
  proof (cases "m_pc s")
    case SJoin
    with inv sent have "chan_buf (m_done s) \<noteq> []" by (auto simp: channel_ok_def joined_def)
    with SJoin stuck [of JoinListener] show ?thesis by (simp add: chan.recv_None)
  next
    case (SClosing x)
    have "x_done ?L" using linv r by (simp add: listener_inv_def main_ok_def)
    with SClosing stuck [of "Listen CloseLock"] stuck [of "Listen CloseCancel"] stuck [of "Listen CloseWait"] stuck [of ClientClosed]
    show ?thesis by (cases "x_closer ?L") (auto simp: listener_moves_def)
  qed (use inv assms(2) in \<open>auto simp: cancelled_def\<close>)
qed

lemma main_goes_on:
  assumes "sr_inv n s" and "\<not> cancelled s"
  shows "\<exists>l \<in> {SendOne, SpawnWaiter, TimedOut, CancelCtx}. sr_step n msg l s \<noteq> None"
  using assms by (cases "m_pc s") (auto simp: sr_inv_def cancelled_def)

text \<open>
  C24: the send-receive program ends. Until \<^verbatim>\<open>main\<close> cancels the context it can always take its next
  step itself: its sends, its wait for the messages and the time-out need nobody else. From
  then on every run of its goroutines is bounded linearly in the listener's concurrency, and as
  long as \<^verbatim>\<open>main\<close> has not returned some goroutine can go on; so the program ends if the MQ calls
  in progress do, with whatever is still on the queue.
\<close>

theorem sr_program_ends:
  assumes "reachable (sr_step n msg) (sr_init n) s"
  shows "(\<not> cancelled s \<longrightarrow> (\<exists>l \<in> {SendOne, SpawnWaiter, TimedOut, CancelCtx}. sr_step n msg l s \<noteq> None)) \<and>
    (cancelled s \<longrightarrow> (\<forall>ls t. run_steps (sr_step n msg) ls s = Some t \<longrightarrow>
       length ls \<le> 17 * length (x_cons (m_listener s)) + 16 \<and>
       ((\<exists>r. m_pc t = SDone r) \<or> (\<exists>l. sr_step n msg l t \<noteq> None))))"
proof -
  have inv: "sr_inv n s" by (rule sr.inv_reachable [OF assms])
  have "length ls \<le> 17 * length (x_cons (m_listener s)) + 16 \<and> ((\<exists>r. m_pc t = SDone r) \<or> (\<exists>l. sr_step n msg l t \<noteq> None))"
    if c: "cancelled s" and run: "run_steps (sr_step n msg) ls s = Some t" for ls t
  proof -
    have "length (x_calls (m_listener s)) = 1" using inv by (auto simp: sr_inv_def)
    with rank_bound [OF listener_reachable] inv have "listener_rank (m_listener s) \<le> 17 * length (x_cons (m_listener s)) + 10"
      by (fastforce simp: sr_inv_def)
    moreover have "pc_left (m_pc s) \<le> 2" by (cases "m_pc s") simp_all
    moreover have "waiter_left (m_waiter s) \<le> 3" by (cases "m_waiter s") simp_all
    ultimately have "sr_rank s \<le> 17 * length (x_cons (m_listener s)) + 16" by (simp add: sr_rank_def)
    with sr.run_bounded [OF inv c run] have "length ls \<le> 17 * length (x_cons (m_listener s)) + 16" by simp
    moreover have "cancelled t" using run c by (induction ls arbitrary: s) (auto simp del: sr_step.simps split: option.splits dest: cancelled_step)
    ultimately show ?thesis using sr_stuck [OF sr.inv_run [OF inv run]] by blast
  qed
  with main_goes_on [OF inv] show ?thesis by blast
qed

subsection \<open>What the program reports\<close>

lemma calls_grow:
  assumes "sr_step n msg l s = Some t"
  shows "handler_calls s \<le> handler_calls t"
proof -
  have "length (x_handled (m_listener s)) \<le> length (x_handled x)" if "lstep k (m_listener s) = Some x" for k x
    using that consumer_frame(6) [of _ _ "m_listener s" x] other_frame(3) [OF that]
    by (cases k) (auto simp del: lstep.simps simp: lstep.simps(11))
  then show ?thesis
    using assms by (cases l) (auto simp: handler_calls_def simp del: lstep.simps
        split: if_splits option.splits prod.splits sr_pc.splits main_pc.splits)
qed

lemma calls_grow_run: "run_steps (sr_step n msg) ls s = Some t \<Longrightarrow> handler_calls s \<le> handler_calls t"
  by (induction ls arbitrary: s) (auto simp del: sr_step.simps split: option.splits intro: order_trans dest: calls_grow)

lemma blocked_step:
  assumes "sr_inv n s" and "sr_step n msg l s = Some t" and "m_waiter s = WBlocked"
    and "go_int32 (int n) < int (handler_calls s)" and "int (handler_calls t) < go_int32 (int n) + 2 ^ 32"
  shows "m_waiter t = WBlocked"
proof (cases "m_waiter t = WReleased")
  case True
  with assms(2,3) have "allReceived (m_count t) = 0"
    by (cases l) (auto simp: wg_release_def split: if_splits option.splits prod.splits sr_pc.splits main_pc.splits)
  with sr_inv_step [OF assms(1,2)] have "go_int32 (int n - int (handler_calls t)) = 0"
    by (simp add: sr_inv_def counters_ok_def)
  moreover have "go_int32 (int n) < int (handler_calls t)" using calls_grow [OF assms(2)] assms(4) by simp
  ultimately have "go_int32 (int n) + 2 ^ 32 \<le> int (handler_calls t)" by (rule int32_again)
  with assms(5) show ?thesis by simp
next
  case False
  have "m_pc s \<noteq> SSend k" for k using assms(1,3) by (auto simp: sr_inv_def)
  with False assms(2,3) show ?thesis
    by (cases l) (auto simp: wg_release_def split: if_splits option.splits prod.splits sr_pc.splits main_pc.splits)
qed

lemma blocked_run:
  assumes "sr_inv n s" and "run_steps (sr_step n msg) ls s = Some t" and "m_waiter s = WBlocked"
    and "go_int32 (int n) < int (handler_calls s)" and "int (handler_calls t) < go_int32 (int n) + 2 ^ 32"
  shows "m_waiter t = WBlocked"
  using assms
proof (induction ls arbitrary: s)
  case (Cons l ls)
  then obtain u where u: "sr_step n msg l s = Some u" "run_steps (sr_step n msg) ls u = Some t"
    by (auto simp del: sr_step.simps split: option.splits)
  have "m_waiter u = WBlocked"
    using blocked_step [OF Cons.prems(1) u(1) Cons.prems(3,4)] calls_grow_run [OF u(2)] Cons.prems(5) by simp
  moreover have "go_int32 (int n) < int (handler_calls u)" using calls_grow [OF u(1)] Cons.prems(4) by simp
  ultimately show ?case using Cons.IH [OF sr_inv_step [OF Cons.prems(1) u(1)] u(2)] Cons.prems(5) by simp
qed simp

text \<open>The program is to send one message and finds two on the queue.\<close>

definition stale_run :: "sr_label list" where
  "stale_run =
     map Listen [Call 0, Spawn, Spawn, Consumer 0 Move, Consumer 0 Move, Consumer 0 Answer, Consumer 0 Move,
       Consumer 0 Move, Consumer 0 Move, Consumer 0 Answer, Consumer 0 Move, Consumer 0 (Arrives 5)] @ [Deliver 0] @
     map Listen [Consumer 0 Move, Consumer 0 (Arrives 6)] @ [Deliver 0, SendOne, SpawnWaiter, Await]"

definition one_message_start :: sr_sys where
  "one_message_start = \<lparr>m_pc = SSend 0, m_waiter = WNone, m_count = \<lparr>received_count = 0, allReceived = 1\<rparr>,
     m_listener = listener_start False 1 1, m_sent = False, m_done = make_chan 1, m_all = None\<rparr>"

lemma one_message_init: "sr_init 1 one_message_start"
  unfolding sr_init_def one_message_start_def
  by (intro exI [of _ 1] exI [of _ "\<lparr>received_count = 0, allReceived = 1\<rparr>"]) (simp add: sr_start_def in_int32_def)

lemma stale_blocks:
  "\<exists>t. run_steps (sr_step 1 msg) stale_run one_message_start = Some t \<and> m_waiter t = WBlocked \<and> handler_calls t = 2 \<and>
     x_got (m_listener t) = [5, 6]"
  by (simp add: stale_run_def one_message_start_def listener_moves_def handling_def start_label_def life_defs
      sr_handler_def handler_answer_def wg_release_def handler_calls_def Let_def in_int32_def)

text \<open>A number of messages that the wait group's 32-bit counter takes for none.\<close>

lemma send_run:
  "m_pc s = SSend k \<Longrightarrow> k + j \<le> n \<Longrightarrow> run_steps (sr_step n msg) (replicate j SendOne) s = Some (s\<lparr>m_pc := SSend (k + j)\<rparr>)"
  by (induction j arbitrary: s k) simp_all

lemma wrapped_count:
  assumes "go_int32 (int n) = 0"
  shows "\<exists>t. reachable (sr_step n msg) (sr_init n) t \<and> m_all t = Some True \<and> handler_calls t = 0"
proof -
  let ?s = "\<lparr>m_pc = SSend 0, m_waiter = WNone, m_count = \<lparr>received_count = 0, allReceived = 0\<rparr>,
     m_listener = listener_start False 1 1, m_sent = False, m_done = make_chan 1, m_all = None\<rparr>"
  let ?t = "?s\<lparr>m_pc := SCancel, m_waiter := WClosed, m_all := Some True\<rparr>"
  have "sr_init n ?s" using assms unfolding sr_init_def
    by (intro exI [of _ 1] exI [of _ "\<lparr>received_count = 0, allReceived = 0\<rparr>"]) (simp add: sr_start_def)
  then have "reachable (sr_step n msg) (sr_init n) ?s" by (rule reachable.start)
  moreover have "run_steps (sr_step n msg) (replicate n SendOne @ [SpawnWaiter, Await, CloseWaitCh, AllReceived]) ?s = Some ?t"
    using send_run [of ?s 0 n n msg] by (simp add: run_steps_append)
  ultimately have "reachable (sr_step n msg) (sr_init n) ?t" by (rule reachable_run)
  then show ?thesis by (intro exI [of _ ?t]) (simp add: handler_calls_def listener_start_def)
qed

text \<open>
  C25: what the send-receive program reports. When it was to send fewer than \<open>2\<^sup>3\<^sup>1\<close> messages and
  says that all were received, its handler was called at least that often. For larger counts
  the wait group sees only the low 32 bits: told to send \<open>2\<^sup>3\<^sup>2\<close> messages the program can report that
  all were received with no call of the handler. The value it has
  taken from \<^verbatim>\<open>listenerDone\<close> is the one \<^verbatim>\<open>Start\<close> returned, every connection being closed and every
  message received handled by then. The converse fails: if more messages than that were
  handled before \<^verbatim>\<open>Wait\<close> is reached, the counter is negative and the wait is not released until
  the handler has been called \<open>2\<^sup>3\<^sup>2\<close> times more, so the program reports a time-out although
  everything was received. With two messages on the queue and one to send this happens.
\<close>

theorem sr_program_result:
  assumes "reachable (sr_step n msg) (sr_init n) s"
  shows "(m_all s = Some True \<longrightarrow> go_int32 (int n) \<le> int (handler_calls s)) \<and>
    (m_all s = Some True \<and> n < 2 ^ 31 \<longrightarrow> n \<le> handler_calls s) \<and>
    (\<exists>t. reachable (sr_step (2 ^ 32) msg) (sr_init (2 ^ 32)) t \<and> m_all t = Some True \<and> handler_calls t = 0) \<and>
    (\<forall>r. m_pc s = SClosing r \<or> m_pc s = SDone r \<longrightarrow>
       x_main (m_listener s) = MRet r \<and> x_gauge (m_listener s) = 0 \<and>
       mset (x_dead (m_listener s)) = mset_set {..<x_next (m_listener s)} \<and>
       mset (x_got (m_listener s)) = mset (x_handled (m_listener s))) \<and>
    (m_waiter s = WBlocked \<and> go_int32 (int n) < int (handler_calls s) \<longrightarrow>
       (\<forall>ls t. run_steps (sr_step n msg) ls s = Some t \<and> int (handler_calls t) < go_int32 (int n) + 2 ^ 32 \<longrightarrow>
          m_waiter t = WBlocked \<and> m_all t \<noteq> Some True)) \<and>
    (\<exists>t. run_steps (sr_step 1 msg) stale_run one_message_start = Some t \<and> m_waiter t = WBlocked \<and> handler_calls t = 2 \<and>
       x_got (m_listener t) = [5, 6])"
proof -
  have inv: "sr_inv n s" by (rule sr.inv_reachable [OF assms])
  then have bound: "m_all s = Some True \<longrightarrow> go_int32 (int n) \<le> int (handler_calls s)" by (simp add: sr_inv_def counters_ok_def)
  moreover have "n \<le> handler_calls s" if "m_all s = Some True" "n < 2 ^ 31"
  proof -
    from that(2) have "in_int32 (int n)" by (simp add: in_int32_def)
    with bound that(1) show ?thesis by simp
  qed
  moreover have "\<exists>t. reachable (sr_step (2 ^ 32) msg) (sr_init (2 ^ 32)) t \<and> m_all t = Some True \<and> handler_calls t = 0"
    by (rule wrapped_count) (simp add: go_int32_def signed_take_bit_def take_bit_eq_mod)
  moreover have "x_main (m_listener s) = MRet r \<and> x_gauge (m_listener s) = 0 \<and>
      mset (x_dead (m_listener s)) = mset_set {..<x_next (m_listener s)} \<and>
      mset (x_got (m_listener s)) = mset (x_handled (m_listener s))" if "m_pc s = SClosing r \<or> m_pc s = SDone r" for r
  proof -
    have ret: "x_main (m_listener s) = MRet r" using that inv by (auto simp: sr_inv_def channel_ok_def joined_def)
    with inv returned_clean [OF listener_reachable ret] show ?thesis by (simp add: sr_inv_def)
  qed
  moreover have "m_waiter t = WBlocked \<and> m_all t \<noteq> Some True"
    if "m_waiter s = WBlocked" "go_int32 (int n) < int (handler_calls s)" "run_steps (sr_step n msg) ls s = Some t"
      "int (handler_calls t) < go_int32 (int n) + 2 ^ 32" for ls t
    using blocked_run [OF inv that(3,1,2,4)] sr.inv_run [OF inv that(3)] by (auto simp: sr_inv_def counters_ok_def)
  ultimately show ?thesis using stale_blocks by blast
qed

lemma stale_reachable:
  obtains t where "run_steps (sr_step 1 msg) stale_run one_message_start = Some t" "m_waiter t = WBlocked" "handler_calls t = 2"
    "reachable (sr_step 1 msg) (sr_init 1) t"
proof -
  from stale_blocks obtain t where t: "run_steps (sr_step 1 msg) stale_run one_message_start = Some t" "m_waiter t = WBlocked"
    "handler_calls t = 2" by blast
  have "reachable (sr_step 1 msg) (sr_init 1) one_message_start" using one_message_init by (rule reachable.start)
  from reachable_run [OF this t(1)] t that show thesis by blast
qed

theorem sr_program_result_witness:
  "\<exists>t. run_steps (sr_step 1 (\<lambda>_. empty_message)) stale_run one_message_start = Some t \<and> m_all t \<noteq> Some True"
proof -
  obtain t where t: "run_steps (sr_step 1 (\<lambda>_. empty_message)) stale_run one_message_start = Some t" "m_waiter t = WBlocked"
    "handler_calls t = 2" "reachable (sr_step 1 (\<lambda>_. empty_message)) (sr_init 1) t" by (rule stale_reachable)
  have "go_int32 (int 1) = 1" by (simp add: in_int32_def)
  with sr_program_result [OF t(4), THEN conjunct2, THEN conjunct2, THEN conjunct2, THEN conjunct2,
      THEN conjunct1, rule_format, of "[]" t] t
  show ?thesis by simp
qed

theorem sr_program_ends_witness:
  "\<exists>l \<in> {SendOne, SpawnWaiter, TimedOut, CancelCtx}. sr_step 1 (\<lambda>_. empty_message) l one_message_start \<noteq> None"
proof -
  have "reachable (sr_step 1 (\<lambda>_. empty_message)) (sr_init 1) one_message_start"
    using one_message_init by (rule reachable.start)
  moreover have "\<not> cancelled one_message_start" by (simp add: cancelled_def one_message_start_def listener_start_def)
  ultimately show ?thesis using sr_program_ends by blast
qed

end
