(* ===== verification/Spec2Isabelle.thy ===== *)
theory Spec2Isabelle
  imports Correlation_Registry Sender_Refinement Listener_Refinement Otel_Helpers RequestReply_Life Send_Receive_Life
begin

text \<open>
  A model of commons-mq-go, a Go client library for IBM MQ, and the theorems that make it
  correct. Paths are relative to \<^verbatim>\<open>src/\<close>.

  \<^bold>\<open>The program.\<close> A \<^verbatim>\<open>Client\<close> (\<^verbatim>\<open>mq/client.go\<close>) is made from a validated configuration
  (\<^verbatim>\<open>mq/config.go\<close>) and creates three kinds of components, which register themselves with it
  for closing and for health: senders (\<^verbatim>\<open>mq/sender.go\<close>) put messages over a pool of
  connections, listeners (\<^verbatim>\<open>mq/listener.go\<close>) run one consumer goroutine per connection and
  hand every message to the user's handler, request-reply clients
  (\<^verbatim>\<open>mq/request_reply_tmp.go\<close>, \<^verbatim>\<open>mq/request_reply_fixed.go\<close>) put a request and wait for its
  reply on a dynamic or on a shared queue. All of them dial and reconnect through
  \<^verbatim>\<open>mq/connection.go\<close> and report spans and metrics through \<^verbatim>\<open>mq/telemetry.go\<close>, which \<^verbatim>\<open>otel/\<close>
  mirrors for applications. \<^verbatim>\<open>internal/correlation\<close> is a registry of reply channels.

  \<^bold>\<open>The theories\<close>, in the order they build on each other:
  \<^item> \<open>MQ_Prelude\<close>: machine integers, \<^verbatim>\<open>copy\<close>, outcomes with panics, labelled transition
    systems with reachability, and the locale \<open>invariant_system\<close>.
  \<^item> \<open>Go_Channel\<close>, \<open>Go_Errors\<close>, \<open>Go_Hex\<close>, \<open>Go_Float\<close>: what the source uses of Go: buffered
    channels (locale \<open>bounded_fifo\<close>), error trees with \<^verbatim>\<open>errors.Is\<close>, \<^verbatim>\<open>errors.As\<close>,
    \<^verbatim>\<open>errors.Join\<close> and the formatting verbs, \<^verbatim>\<open>encoding/hex\<close> (locale \<open>codec\<close>), and \<^verbatim>\<open>float64\<close>
    with IEEE rounding to nearest even.
  \<^item> \<open>Correlation_Registry\<close>: \<^verbatim>\<open>internal/correlation/registry.go\<close> over a heap of channels, its
    abstract specification as one-place mailboxes, and the interleaving of lookups and sends.
  \<^item> \<open>MQ_Types\<close>, \<open>MQ_Config\<close>: the structs and enums, open options, defaults and validation.
  \<^item> \<open>MQ_Telemetry\<close>, \<open>Otel_Helpers\<close>: instrumentation as a log of calls, and where the public
    helpers agree with the internal ones and where they do not.
  \<^item> \<open>MQ_Api\<close>: the parameter \<open>env\<close> (below), the trace of calls, the locale \<open>closable\<close>.
  \<^item> \<open>MQ_Connection\<close>: backoff, jitter, dialling, the two retry loops (locale \<open>retry_loop\<close>),
    classification and sanitising of errors.
  \<^item> \<open>MQ_Sender\<close>: every operation of a sender as one sequential call. \<open>Sender_Pool\<close>: the same
    pool under any interleaving of sends, \<^verbatim>\<open>close\<close> and the health probe. \<open>Sender_Refinement\<close>:
    a completed sequential call is a run of one goroutine of the pool.
  \<^item> \<open>MQ_Listener\<close>: consumers, dispatch, callbacks, \<^verbatim>\<open>Start\<close> and \<^verbatim>\<open>close\<close>. \<open>Listener_Life\<close>: calls
    of \<^verbatim>\<open>Start\<close>, consumers and \<^verbatim>\<open>close\<close> as interleaved steps (locale \<open>draining_system\<close>).
    \<open>Listener_Refinement\<close>: a completed sequential \<^verbatim>\<open>Start\<close> is a run of that system.
  \<^item> \<open>MQ_RequestReply\<close>: the two flows and the call around them. \<open>RequestReply_Life\<close>: concurrent
    calls of one client and \<^verbatim>\<open>Close\<close>, interleaved at every call into MQ and every critical
    section, on the shared client and world.
  \<^item> \<open>MQ_Health\<close>, \<open>MQ_Client\<close>: the probes (locale \<open>health_probe\<close>), the factories, \<^verbatim>\<open>Close\<close> and
    \<^verbatim>\<open>Health\<close>.
  \<^item> \<open>Example_Programs\<close>: the two programs of \<^verbatim>\<open>examples/\<close>, which put the components together.
    \<open>Send_Receive_Life\<close>: the goroutines of the send-receive program around \<open>Listener_Life\<close>.
  \<^item> this theory: a whole life of a sender, from the configuration to shutdown.

  \<^bold>\<open>State and operations.\<close> A struct is a record with the fields of the source (prefixed where
  two structs share a name); a method returns the updated record. An operation that calls
  MQ also takes and returns an \<open>io\<close>: the state of the outside world and the trace of the
  calls made so far. Deferred calls are part of the function they belong to, on every path,
  panics of user callbacks included. Mutexes only delimit atomic sections: a sequential
  operation is one run without interference, and the theories that interleave operations
  have one step per critical section or channel operation.
  A result \<^term>\<open>None\<close> of an operation means that it never returns (it blocks for ever or
  loops for ever); loops that need not end are partial functions into \<open>option\<close>, and that
  they do end is always a theorem of its own. There is no fuel: every other loop is
  structural, over the number of attempts, the list of closers or the connections created.

  \<^bold>\<open>Parameters.\<close> The IBM MQ binding and the OpenTelemetry API are not part of the
  repository. The record \<open>env\<close> holds the calls of the binding (connect, open, put, get,
  close, disconnect), its constructors and constants, and what else the program observes:
  contexts, timers, clocks, random numbers and the implementation-defined part of the float
  conversion; the record \<open>otel\<close> holds tracers and propagators. Nothing is assumed of them
  except where a theorem says so: that a GET with \<^verbatim>\<open>MQMO_MATCH_CORREL_ID\<close> returns only
  messages with the correlation id asked for unless that is \<^verbatim>\<open>MQCI_NONE\<close>, 24 zero bytes
  (\<open>matches_correl_id\<close>, of \<open>fixed_reply_correlated\<close> and \<open>rr_own_reply\<close>), that a context has a deadline
  (\<open>consume_loop_returns\<close>), that a context stays done once it is done
  (\<open>listener_refines_life\<close>) and that \<^verbatim>\<open>rand.Int63n\<close> stays in its range
  (\<open>sleep_with_jitter_bounds\<close>). \<open>script_env\<close> is a concrete instance, on which witnesses are
  evaluated. The example programs also take the environment variables and the Unicode case
  mappings of \<^verbatim>\<open>strings\<close> as arguments.

  \<^bold>\<open>What is shown.\<close>
  \<^item> Pool: at most \<^verbatim>\<open>maxConns\<close> connections, every connection dialled is in exactly one place,
    returning never blocks, \<^verbatim>\<open>close\<close> closes them all but for a run that leaks one, and a waiting
    send that nothing but its own context can wake; the sequential sender refines the pool.
  \<^item> Sender: one put, a send and its accounts, expiry, closing; a panicking creator.
  \<^item> Request-reply: whose reply is returned, in which order the calls are made, that nothing
    is left open on any path, the range of the wait interval. Under interleaving: every caller
    gets its own reply, what is open belongs to the calls in progress, \<^verbatim>\<open>Close\<close> admits no further
    call but does not wait, each call ends within a fixed number of its own steps, and a call
    nobody interrupts is the sequential one.
  \<^item> Listener: every message is handled once and in order, how consumers and \<^verbatim>\<open>Start\<close> end (with
    every connection, redials included, disconnected), that a consumer stops when its context does, and the round trip of a message. Under interleaving:
    what health and metrics show, what \<^verbatim>\<open>Start\<close> returns, that nothing moves after \<^verbatim>\<open>close\<close>, and
    that a shutdown takes a number of steps linear in the concurrency and never waits for a step
    of somebody else; the sequential \<^verbatim>\<open>Start\<close>
    refines the interleaved listener.
  \<^item> Connection: termination and outcome of both retry loops, the backoff formula, its
    monotonicity and its overflow, jitter bounds, and that errors hide credentials.
  \<^item> Client: closing, refusing after close, health; configuration: defaults and validation.
  \<^item> Registry: refinement of mailboxes and routing under interleaving.
  \<^item> Example programs: which settings they start with, that every request is answered to its
    reply-to queue with its correlation id, one result per message in both loops, and when
    the counting handler panics; that the send-receive program ends, and what its report means.

  \<^bold>\<open>Not modelled.\<close> Of the example programs, the scheduling of the goroutines of the
  request-reply \<^verbatim>\<open>main\<close>, the sleeps and what the programs print; the tests and the
  documentation; memory aliasing of message bodies with receive buffers (the source copies
  them); logging of the binding.
\<close>

section \<open>From configuration to shutdown\<close>

text \<open>A sequence of sends on one sender; it ends early when a creator panics.\<close>

fun send_all ::
  "'w env \<Rightarrow> (ctx \<times> string \<times> 'w MessageCreator option) list \<Rightarrow> Sender \<Rightarrow> 'w io \<Rightarrow>
   (bool \<times> Sender \<times> 'w io) option" where
  "send_all env [] s io = Some (False, s, io)"
| "send_all env ((ctx, destination, creator) # reqs) s io =
     (case SendWithCreator env ctx destination creator s io of
        None \<Rightarrow> None
      | Some (Panics _, s', io') \<Rightarrow> Some (True, s', io')
      | Some (Returns _, s', io') \<Rightarrow> send_all env reqs s' io')"

lemma send_all_progress:
  assumes "sender_inv 0 s" and "s_wg s = 0"
  shows "\<exists>panicked s' io'. send_all env reqs s io = Some (panicked, s', io') \<and>
    puts io' \<le> puts io + 2 * length reqs \<and> open_handles (trace io') = open_handles (trace io) \<and>
    (panicked \<longrightarrow> (\<exists>(ctx, destination, creator) \<in> set reqs. \<exists>v. creator_gives creator (Panics v))) \<and>
    (\<not> panicked \<longrightarrow> sender_inv 0 s' \<and> s_wg s' = 0 \<and> s_closed s' = s_closed s)"
  using assms
proof (induction reqs arbitrary: s io)
  case Nil
  then show ?case by (auto intro: exI [of _ False])
next
  case (Cons req reqs)
  obtain ctx destination creator where req: "req = (ctx, destination, creator)" by (cases req)
  from SendWithCreator_progress [OF Cons.prems(1), of env ctx destination creator io] obtain r s1 io1 where
    one: "SendWithCreator env ctx destination creator s io = Some (r, s1, io1)" "same_setup s s1"
      "puts io1 \<le> puts io + 2" "open_handles (trace io1) = open_handles (trace io)"
      "case r of Returns _ \<Rightarrow> sender_inv 0 s1 \<and> open_spans (s_tel s1) = open_spans (s_tel s) | Panics _ \<Rightarrow> sender_inv 1 s1"
    by blast
  show ?case
  proof (cases r)
    case (Panics v)
    with SendWithCreator_panics [of env ctx destination creator s io v] one(1) have "creator_gives creator (Panics v)"
      by simp
    with Panics one req show ?thesis by (auto intro: exI [of _ True])
  next
    case (Returns x)
    with one Cons.prems(2) have "sender_inv 0 s1" "s_wg s1 = 0" "s_closed s1 = s_closed s"
      by (simp_all add: same_setup_def)
    from Cons.IH [OF this(1,2), of io1] this(3) one(1,3,4) Returns req show ?thesis by fastforce
  qed
qed

text \<open>
  C39: from configuration to shutdown. A sender created by a client that \<^verbatim>\<open>NewClient\<close> accepted,
  whatever concurrency options it is given, completes every sequence of sends unless one
  of their creators panics, with at most two MQPUT calls each and no queue handle left open;
  and a \<^verbatim>\<open>Client.Close\<close> after that returns and disconnects exactly the connections that are
  still in its pool, each once.
\<close>

theorem client_sender_lifecycle:
  assumes "NewClient cfg0 = Inr c" and "set opts \<subseteq> range WithSenderConcurrency"
    and "NewSender q opts c = (a, c')"
  shows "\<exists>s panicked s' io'. store c' = [CSender s] \<and> send_all env reqs s io = Some (panicked, s', io') \<and>
    puts io' \<le> puts io + 2 * length reqs \<and> open_handles (trace io') = open_handles (trace io) \<and>
    (panicked \<longrightarrow> (\<exists>(ctx, destination, creator) \<in> set reqs. \<exists>v. creator_gives creator (Panics v))) \<and>
    (\<not> panicked \<longrightarrow>
      (\<exists>e c'' io''. Client_Close env (c'\<lparr>store := [CSender s']\<rparr>) io' = Some (e, c'', io'') \<and> c_closed c'' \<and>
         trace io'' = trace io' @ map (\<lambda>conn. EDisc (queueManager conn)) (chan_buf (s_pool s'))))"
proof -
  from new_sender_ready [OF assms(1,2), of q] assms(3) obtain s where
    c': "c' = c\<lparr>store := [CSender s], closers := [0], healthProbers := [0]\<rparr>" and
    s: "sender_inv 0 s" "s_wg s = 0" "\<not> s_closed s" by auto
  from send_all_progress [OF s(1,2), of env reqs io] obtain panicked s' io' where
    run: "send_all env reqs s io = Some (panicked, s', io')" "puts io' \<le> puts io + 2 * length reqs"
      "open_handles (trace io') = open_handles (trace io)"
      "panicked \<longrightarrow> (\<exists>(ctx, destination, creator) \<in> set reqs. \<exists>v. creator_gives creator (Panics v))"
      "\<not> panicked \<longrightarrow> sender_inv 0 s' \<and> s_wg s' = 0 \<and> s_closed s' = s_closed s" by blast
  let ?c = "c'\<lparr>store := [CSender s']\<rparr>"
  have "\<not> c_closed c" using NewClient_ok [OF assms(1)] by blast
  then have "client_ok ?c" "\<not> c_closed ?c" by (simp_all add: c' client_ok_def)
  moreover have "\<forall>x \<in> set (store ?c). quiescent x" "concat (map component_discs (rev (store ?c))) =
      map (\<lambda>conn. EDisc (queueManager conn)) (chan_buf (s_pool s'))" if "\<not> panicked"
    using run(5) that s(3) by simp_all
  ultimately have "\<exists>e c'' io''. Client_Close env ?c io' = Some (e, c'', io'') \<and> c_closed c'' \<and>
      trace io'' = trace io' @ map (\<lambda>conn. EDisc (queueManager conn)) (chan_buf (s_pool s'))" if "\<not> panicked"
    using that Client_Close_quiescent [of ?c env io'] by auto
  with run c' show ?thesis by auto
qed

theorem client_sender_lifecycle_witness:
  "\<exists>s panicked s' io'. store (snd (NewSender ''Q'' [WithSenderConcurrency 3] demo_client)) = [CSender s] \<and>
     send_all script_env [(0, [], None), (0, ''Q2'', None)] s (start_io quiet_script) = Some (panicked, s', io') \<and>
     puts io' \<le> 4"
proof -
  have "set [WithSenderConcurrency 3] \<subseteq> range WithSenderConcurrency" by simp
  moreover obtain a c' where n: "NewSender ''Q'' [WithSenderConcurrency 3] demo_client = (a, c')"
    by (cases "NewSender ''Q'' [WithSenderConcurrency 3] demo_client")
  ultimately obtain s panicked s' io' where "store c' = [CSender s]"
    "send_all script_env [(0, [], None), (0, ''Q2'', None)] s (start_io quiet_script) = Some (panicked, s', io')"
    "puts io' \<le> puts (start_io quiet_script) + 2 * length [(0 :: nat, [], None), (0, ''Q2'', None :: script MessageCreator option)]"
    using client_sender_lifecycle [OF demo_client_new, of "[WithSenderConcurrency 3]" "''Q''" a c' script_env
        "[(0, [], None), (0, ''Q2'', None)]" "start_io quiet_script"] by blast
  with n show ?thesis by (simp add: start_io_def puts_def)
qed

end
